(* ===== verification/Prelude.thy ===== *)
theory Prelude
  imports Complex_Main "HOL-Library.Word" "HOL-Library.Char_ord" "HOL-Library.List_Lexorder"
begin

text \<open>
  What the components share: the machine integers and the bytes of the wire formats, the
  ASCII part of Rust's string functions, the Rust idioms on vectors and options that several
  components use, and the collections of simplification rules the component theories add to.

  Conventions of the whole development. A Rust \<^verbatim>\<open>String\<close> is a HOL \<open>string\<close>, the list of its
  UTF-8 bytes; the order of \<^verbatim>\<open>str\<close> is the byte-wise lexicographic order of
  \<^verbatim>\<open>List_Lexorder\<close> over \<^verbatim>\<open>Char_ord\<close>. On the wire, where every byte
  counts, a string is a list of 8-bit words. An \<^verbatim>\<open>i64\<close> is an \<open>int\<close>, and every addition
  or subtraction of the code is followed by \<open>i64_wrap\<close>, the wrap-around of a release build;
  a saturating operation is \<open>i64_sat\<close>. \<^verbatim>\<open>Result\<close> is the sum type, \<open>Inl\<close> the error.
\<close>

named_theorems wire_simps "reading back what a writer has written"
named_theorems order_simps "the order of activation keys and what follows from it"
named_theorems sync_defs "the definitions of the mobile sync reducer's commits"

section \<open>Machine integers\<close>

definition i64_min :: int where "i64_min = - (2 ^ 63)"
definition i64_max :: int where "i64_max = 2 ^ 63 - 1"

definition in_i64 :: "int \<Rightarrow> bool" where
  "in_i64 x \<longleftrightarrow> i64_min \<le> x \<and> x \<le> i64_max"

definition i64_wrap :: "int \<Rightarrow> int" where
  "i64_wrap x = (x + 2 ^ 63) mod 2 ^ 64 - 2 ^ 63"

definition i64_sat :: "int \<Rightarrow> int" where
  "i64_sat x = max i64_min (min i64_max x)"

lemmas i64_bounds = i64_min_def i64_max_def in_i64_def

lemma i64_wrap_id [simp]: "in_i64 x \<Longrightarrow> i64_wrap x = x"
  by (simp add: i64_wrap_def i64_bounds)

lemma in_i64_wrap [simp]: "in_i64 (i64_wrap x)"
proof -
  have "0 \<le> (x + 2 ^ 63) mod 2 ^ 64" "(x + 2 ^ 63) mod 2 ^ 64 < (2 ^ 64 :: int)"
    by (simp_all add: pos_mod_bound pos_mod_sign del: mod_less_divisor)
  then show ?thesis by (simp add: i64_wrap_def i64_bounds)
qed

lemma in_i64_sat [simp]: "in_i64 (i64_sat x)"
  by (simp add: i64_sat_def i64_bounds)

lemma i64_sat_id [simp]: "in_i64 x \<Longrightarrow> i64_sat x = x"
  by (simp add: i64_sat_def i64_bounds)

lemma i64_sat_mono: "x \<le> y \<Longrightarrow> i64_sat x \<le> i64_sat y"
  by (simp add: i64_sat_def)

text \<open>
  \<open>f64\<close> values are exact reals; \<open>as i64\<close> truncates towards zero and saturates.
\<close>

definition f64_as_i64 :: "real \<Rightarrow> int" where
  "f64_as_i64 r = i64_sat (if 0 \<le> r then \<lfloor>r\<rfloor> else \<lceil>r\<rceil>)"

lemma f64_as_i64_mono: "r \<le> s \<Longrightarrow> f64_as_i64 r \<le> f64_as_i64 s"
proof -
  assume rs: "r \<le> s"
  have "(if 0 \<le> r then \<lfloor>r\<rfloor> else \<lceil>r\<rceil>) \<le> (if 0 \<le> s then \<lfloor>s\<rfloor> else \<lceil>s\<rceil>)"
  proof (cases "0 \<le> r")
    case True
    with rs show ?thesis by (auto intro: floor_mono)
  next
    case False
    then have "\<lceil>r\<rceil> \<le> 0" by (simp add: ceiling_le_zero)
    then have "\<lceil>r\<rceil> \<le> \<lfloor>s\<rfloor>" if "0 \<le> s"
      using that zero_le_floor [of s] by linarith
    moreover have "\<lceil>r\<rceil> \<le> \<lceil>s\<rceil>" using rs by (rule ceiling_mono)
    ultimately show ?thesis using False by simp
  qed
  then show ?thesis unfolding f64_as_i64_def by (rule i64_sat_mono)
qed

lemma f64_as_i64_of_int [simp]: "f64_as_i64 (of_int k) = i64_sat k"
  by (simp add: f64_as_i64_def)

lemma f64_as_i64_numeral [simp]: "f64_as_i64 (numeral k) = i64_sat (numeral k)"
  using f64_as_i64_of_int [of "numeral k"] by simp

section \<open>Bytes\<close>

type_synonym byte = "8 word"

text \<open>
  The \<open>n\<close> little-endian bytes of a number (\<^verbatim>\<open>to_le_bytes\<close>), their value
  (\<^verbatim>\<open>from_le_bytes\<close>), and the big-endian variants.
\<close>

fun le_bytes :: "nat \<Rightarrow> nat \<Rightarrow> byte list" where
  "le_bytes 0 x = []"
| "le_bytes (Suc n) x = word_of_nat (x mod 256) # le_bytes n (x div 256)"

fun le_val :: "byte list \<Rightarrow> nat" where
  "le_val [] = 0"
| "le_val (b # bs) = unat b + 256 * le_val bs"

definition be_bytes :: "nat \<Rightarrow> nat \<Rightarrow> byte list" where
  "be_bytes n x = rev (le_bytes n x)"

definition be_val :: "byte list \<Rightarrow> nat" where
  "be_val bs = le_val (rev bs)"

lemma le_bytes_zero [simp]: "le_bytes n 0 = replicate n 0"
  by (induction n) simp_all

lemma length_le_bytes [simp]: "length (le_bytes n x) = n"
  by (induction n arbitrary: x) auto

lemma length_be_bytes [simp]: "length (be_bytes n x) = n"
  by (simp add: be_bytes_def)

lemma unat_mod_id: "unat (b :: byte) mod 256 = unat b"
  using unsigned_less [of b, where 'a = nat] by simp

lemma unat_byte_of_mod [simp]: "unat (word_of_nat (x mod 256) :: byte) = x mod 256"
  by (simp add: unat_of_nat)

lemma le_val_le_bytes: "le_val (le_bytes n x) = x mod 256 ^ n"
proof (induction n arbitrary: x)
  case 0
  then show ?case by simp
next
  case (Suc n)
  have "x mod 256 ^ Suc n = x mod 256 + 256 * (x div 256 mod 256 ^ n)"
    by (simp add: mod_mult2_eq)
  then show ?case by (simp add: Suc.IH)
qed

lemma le_val_le_bytes_id [wire_simps]: "x < 256 ^ n \<Longrightarrow> le_val (le_bytes n x) = x"
  by (simp add: le_val_le_bytes)

lemma be_val_be_bytes_id [wire_simps]: "x < 256 ^ n \<Longrightarrow> be_val (be_bytes n x) = x"
  by (simp add: be_val_def be_bytes_def le_val_le_bytes_id)

lemma le_bytes_le_val: "le_bytes (length bs) (le_val bs) = bs"
proof (induction bs)
  case Nil
  then show ?case by simp
next
  case (Cons b bs)
  have b: "unat b < 256" using unsigned_less [of b] by simp
  have "(unat b + 256 * le_val bs) mod 256 = unat b"
    "(unat b + 256 * le_val bs) div 256 = le_val bs" using b by simp_all
  then show ?case by (simp add: Cons.IH)
qed

lemma be_bytes_be_val: "be_bytes (length bs) (be_val bs) = bs"
  using le_bytes_le_val [of "rev bs"] by (simp add: be_bytes_def be_val_def)

lemma le_val_bound: "le_val bs < 256 ^ length bs"
proof (induction bs)
  case Nil
  then show ?case by simp
next
  case (Cons b bs)
  have "unat b < 256" using unsigned_less [of b] by simp
  with Cons.IH show ?case by simp
qed

lemma be_val_bound: "be_val bs < 256 ^ length bs"
  using le_val_bound [of "rev bs"] by (simp add: be_val_def)

text \<open>\<^verbatim>\<open>i64::to_le_bytes\<close> and \<^verbatim>\<open>i64::from_le_bytes\<close>: two's complement.\<close>

definition i64_le_bytes :: "int \<Rightarrow> byte list" where
  "i64_le_bytes x = le_bytes 8 (nat (x mod 2 ^ 64))"

definition i64_of_le :: "byte list \<Rightarrow> int" where
  "i64_of_le bs = i64_wrap (int (le_val bs))"

lemma length_i64_le_bytes [simp]: "length (i64_le_bytes x) = 8"
  by (simp add: i64_le_bytes_def)

lemma i64_wrap_mod [simp]: "i64_wrap (x mod 2 ^ 64) = i64_wrap x"
  unfolding i64_wrap_def by (simp add: mod_add_left_eq del: power_numeral)

lemma i64_of_le_bytes [wire_simps]: "in_i64 x \<Longrightarrow> i64_of_le (i64_le_bytes x) = x"
proof -
  assume x: "in_i64 x"
  have "nat (x mod 2 ^ 64) < 256 ^ 8"
    by (simp add: nat_less_iff)
  then have "int (le_val (i64_le_bytes x)) = x mod 2 ^ 64"
    by (simp add: i64_le_bytes_def le_val_le_bytes_id)
  with x show ?thesis by (simp only: i64_of_le_def i64_wrap_mod i64_wrap_id)
qed

lemma in_i64_of_le [simp]: "in_i64 (i64_of_le bs)"
  by (simp add: i64_of_le_def)

lemma i64_le_bytes_of_le: "length bs = 8 \<Longrightarrow> i64_le_bytes (i64_of_le bs) = bs"
proof -
  assume l: "length bs = 8"
  have b: "le_val bs < 2 ^ 64" using le_val_bound [of bs] l by simp
  have "i64_wrap (int (le_val bs)) mod 2 ^ 64 = int (le_val bs) mod 2 ^ 64"
    unfolding i64_wrap_def by (simp add: mod_diff_left_eq del: power_numeral)
  also have "\<dots> = int (le_val bs)" using b by simp
  finally have "nat (i64_wrap (int (le_val bs)) mod 2 ^ 64) = le_val bs" by simp
  then show ?thesis
    using le_bytes_le_val [of bs] l by (simp add: i64_le_bytes_def i64_of_le_def)
qed

text \<open>
  \<^verbatim>\<open>read_exact\<close>: the next \<open>n\<close> bytes of the stream and what is left, or the end of the
  stream. Every reader of the development is built from it.
\<close>

definition take_exact :: "nat \<Rightarrow> byte list \<Rightarrow> (byte list \<times> byte list) option" where
  "take_exact n s = (if n \<le> length s then Some (take n s, drop n s) else None)"

lemma take_exact_append [simp, wire_simps]:
  "length xs = n \<Longrightarrow> take_exact n (xs @ rest) = Some (xs, rest)"
  by (simp add: take_exact_def)

lemma take_exact_all [simp, wire_simps]: "length xs = n \<Longrightarrow> take_exact n xs = Some (xs, [])"
  by (simp add: take_exact_def)

lemma take_exact_SomeD:
  "take_exact n s = Some (xs, rest) \<Longrightarrow> s = xs @ rest \<and> length xs = n"
  by (auto simp: take_exact_def split: if_splits)

lemma take_exact_Some_iff:
  "take_exact n s = Some (xs, rest) \<longleftrightarrow> s = xs @ rest \<and> length xs = n"
  by (auto simp: take_exact_def)

lemma take_exact_None_iff: "take_exact n s = None \<longleftrightarrow> length s < n"
  by (auto simp: take_exact_def)

section \<open>The ASCII part of Rust's string functions\<close>

definition ascii_upper_char :: "char \<Rightarrow> char" where
  "ascii_upper_char c =
     (if CHR ''a'' \<le> c \<and> c \<le> CHR ''z'' then char_of (of_char c - 32 :: nat) else c)"

definition ascii_lower_char :: "char \<Rightarrow> char" where
  "ascii_lower_char c =
     (if CHR ''A'' \<le> c \<and> c \<le> CHR ''Z'' then char_of (of_char c + 32 :: nat) else c)"

text \<open>
  \<^verbatim>\<open>str::to_uppercase\<close> and \<^verbatim>\<open>str::to_ascii_lowercase\<close>. The first is Unicode in Rust;
  on ASCII strings (hex digests here) it is this function.
\<close>

definition str_upper :: "string \<Rightarrow> string" where "str_upper s = map ascii_upper_char s"
definition str_lower :: "string \<Rightarrow> string" where "str_lower s = map ascii_lower_char s"

text \<open>\<^verbatim>\<open>str::eq_ignore_ascii_case\<close>.\<close>

definition eq_ignore_ascii_case :: "string \<Rightarrow> string \<Rightarrow> bool" where
  "eq_ignore_ascii_case a b \<longleftrightarrow> str_lower a = str_lower b"

lemma char_cases_nat: "\<exists>n < 256. c = char_of (n :: nat)"
  by (rule exI [of _ "of_char c"]) simp

lemma ascii_upper_code:
  "ascii_upper_char c =
     (let n = of_char c :: nat in if 97 \<le> n \<and> n \<le> 122 then char_of (n - 32) else c)"
  by (simp add: ascii_upper_char_def less_eq_char_def Let_def)

lemma ascii_lower_code:
  "ascii_lower_char c =
     (let n = of_char c :: nat in if 65 \<le> n \<and> n \<le> 90 then char_of (n + 32) else c)"
  by (simp add: ascii_lower_char_def less_eq_char_def Let_def)

lemma ascii_lower_upper [simp]: "ascii_lower_char (ascii_upper_char c) = ascii_lower_char c"
  by (auto simp: ascii_upper_code ascii_lower_code Let_def)

lemma ascii_upper_upper [simp]: "ascii_upper_char (ascii_upper_char c) = ascii_upper_char c"
  by (auto simp: ascii_upper_code Let_def)

lemma ascii_upper_lower [simp]: "ascii_upper_char (ascii_lower_char c) = ascii_upper_char c"
  by (auto simp: ascii_upper_code ascii_lower_code Let_def)

lemma str_upper_Nil [simp]: "str_upper [] = []" by (simp add: str_upper_def)
lemma str_upper_eq_Nil [simp]: "str_upper s = [] \<longleftrightarrow> s = []" by (simp add: str_upper_def)
lemma str_upper_idem [simp]: "str_upper (str_upper s) = str_upper s"
  by (simp add: str_upper_def comp_def)
lemma str_lower_upper [simp]: "str_lower (str_upper s) = str_lower s"
  by (simp add: str_upper_def str_lower_def comp_def)
lemma str_upper_lower [simp]: "str_upper (str_lower s) = str_upper s"
  by (simp add: str_upper_def str_lower_def comp_def)

lemma eq_ignore_ascii_case_upper:
  "eq_ignore_ascii_case a b \<longleftrightarrow> str_upper a = str_upper b"
  unfolding eq_ignore_ascii_case_def by (metis str_lower_upper str_upper_lower)

lemma eq_ignore_ascii_case_refl [simp]: "eq_ignore_ascii_case a a"
  by (simp add: eq_ignore_ascii_case_def)

lemma eq_ignore_ascii_case_sym: "eq_ignore_ascii_case a b = eq_ignore_ascii_case b a"
  by (auto simp: eq_ignore_ascii_case_def)


section \<open>Searching and splitting strings\<close>

text \<open>\<^verbatim>\<open>starts_with\<close>, \<^verbatim>\<open>ends_with\<close>, \<^verbatim>\<open>strip_prefix\<close>, \<^verbatim>\<open>contains\<close>.\<close>

definition starts_with :: "'a list \<Rightarrow> 'a list \<Rightarrow> bool" where
  "starts_with p s \<longleftrightarrow> take (length p) s = p"

definition ends_with :: "'a list \<Rightarrow> 'a list \<Rightarrow> bool" where
  "ends_with p s \<longleftrightarrow> starts_with (rev p) (rev s)"

definition strip_prefix :: "'a list \<Rightarrow> 'a list \<Rightarrow> 'a list option" where
  "strip_prefix p s = (if starts_with p s then Some (drop (length p) s) else None)"

definition strip_suffix :: "'a list \<Rightarrow> 'a list \<Rightarrow> 'a list option" where
  "strip_suffix p s = map_option rev (strip_prefix (rev p) (rev s))"

fun contains_sub :: "'a list \<Rightarrow> 'a list \<Rightarrow> bool" where
  "contains_sub p [] \<longleftrightarrow> p = []"
| "contains_sub p (c # s) \<longleftrightarrow> starts_with p (c # s) \<or> contains_sub p s"

lemma starts_with_append [simp]: "starts_with p (p @ s)"
  by (simp add: starts_with_def)

lemma starts_with_iff: "starts_with p s \<longleftrightarrow> (\<exists>t. s = p @ t)"
  unfolding starts_with_def by (metis append_take_drop_id append_eq_conv_conj)

lemma ends_with_iff: "ends_with p s \<longleftrightarrow> (\<exists>t. s = t @ p)"
  unfolding ends_with_def starts_with_iff by (metis rev_append rev_rev_ident)

text \<open>The position of the first (\<^verbatim>\<open>find\<close>) or last (\<^verbatim>\<open>rfind\<close>) occurrence.\<close>

fun find_index :: "('a \<Rightarrow> bool) \<Rightarrow> 'a list \<Rightarrow> nat option" where
  "find_index P [] = None"
| "find_index P (c # s) = (if P c then Some 0 else map_option Suc (find_index P s))"

definition rfind_index :: "('a \<Rightarrow> bool) \<Rightarrow> 'a list \<Rightarrow> nat option" where
  "rfind_index P s = map_option (\<lambda>i. length s - 1 - i) (find_index P (rev s))"

lemma find_index_None_iff: "find_index P xs = None \<longleftrightarrow> (\<forall>x \<in> set xs. \<not> P x)"
  by (induction xs) auto

lemma find_index_SomeD:
  "find_index P xs = Some i \<Longrightarrow> i < length xs \<and> P (xs ! i) \<and> (\<forall>j < i. \<not> P (xs ! j))"
proof (induction xs arbitrary: i)
  case Nil
  then show ?case by simp
next
  case (Cons x xs)
  show ?case
  proof (cases "P x")
    case True
    with Cons.prems show ?thesis by simp
  next
    case False
    with Cons.prems obtain k where k: "find_index P xs = Some k" "i = Suc k" by auto
    with Cons.IH [OF k(1)] False show ?thesis by (auto simp: less_Suc_eq_0_disj)
  qed
qed

text \<open>Removing the element at an index, or the first one with a property.\<close>

definition remove_index :: "nat \<Rightarrow> 'a list \<Rightarrow> 'a list" where
  "remove_index i xs = take i xs @ drop (Suc i) xs"

definition remove_first :: "('a \<Rightarrow> bool) \<Rightarrow> 'a list \<Rightarrow> 'a list" where
  "remove_first P xs = (case find_index P xs of None \<Rightarrow> xs | Some i \<Rightarrow> remove_index i xs)"

lemma set_remove_index: "set (remove_index i xs) \<subseteq> set xs"
  by (auto simp: remove_index_def dest: in_set_takeD in_set_dropD)

lemma length_remove_index: "length (remove_index i xs) \<le> length xs"
  by (auto simp: remove_index_def)

lemma distinct_remove_index: "distinct (map f xs) \<Longrightarrow> distinct (map f (remove_index i xs))"
proof (cases "i < length xs")
  case True
  assume "distinct (map f xs)"
  with True show ?thesis
    by (subst (asm) id_take_nth_drop [OF True]) (auto simp: remove_index_def)
next
  case False
  assume "distinct (map f xs)"
  with False show ?thesis by (simp add: remove_index_def)
qed

lemma remove_index_snoc [simp]: "remove_index (length xs) (xs @ [x]) = xs"
  by (simp add: remove_index_def)

lemma find_index_snoc:
  "find_index P xs = None \<Longrightarrow> find_index P (xs @ [x]) = (if P x then Some (length xs) else None)"
  by (induction xs) (auto split: if_splits)

text \<open>\<^verbatim>\<open>split(c)\<close> (always at least one piece) and \<^verbatim>\<open>split_once(c)\<close>.\<close>

fun split_on :: "'a \<Rightarrow> 'a list \<Rightarrow> 'a list list" where
  "split_on c [] = [[]]"
| "split_on c (x # xs) =
     (if x = c then [] # split_on c xs
      else (case split_on c xs of [] \<Rightarrow> [[x]] | p # ps \<Rightarrow> (x # p) # ps))"

definition split_once :: "'a \<Rightarrow> 'a list \<Rightarrow> ('a list \<times> 'a list) option" where
  "split_once c s = map_option (\<lambda>i. (take i s, drop (Suc i) s)) (find_index (\<lambda>x. x = c) s)"

definition rsplit_once :: "'a \<Rightarrow> 'a list \<Rightarrow> ('a list \<times> 'a list) option" where
  "rsplit_once c s = map_option (\<lambda>i. (take i s, drop (Suc i) s)) (rfind_index (\<lambda>x. x = c) s)"

lemma split_on_neq_Nil [simp]: "split_on c s \<noteq> []"
  by (induction s) (auto split: list.splits)

text \<open>
  \<^verbatim>\<open>char::is_whitespace\<close> on the ASCII characters, \<^verbatim>\<open>trim\<close>, and \<^verbatim>\<open>lines\<close> (a
  final empty line is not a line, a trailing carriage return belongs to the line end).
\<close>

definition is_ws :: "char \<Rightarrow> bool" where
  "is_ws c \<longleftrightarrow> (let n = of_char c :: nat in 9 \<le> n \<and> n \<le> 13 \<or> n = 32)"

definition trim_start :: "string \<Rightarrow> string" where "trim_start s = dropWhile is_ws s"

definition trim :: "string \<Rightarrow> string" where
  "trim s = rev (dropWhile is_ws (rev (dropWhile is_ws s)))"

definition str_lines :: "string \<Rightarrow> string list" where
  "str_lines s =
     (let ps = split_on (char_of (10 :: nat)) s in
      map (\<lambda>l. case strip_suffix [char_of (13 :: nat)] l of None \<Rightarrow> l | Some l' \<Rightarrow> l')
        (butlast ps) @ (if last ps = [] then [] else [last ps]))"

section \<open>UTF-8\<close>

definition str_bytes :: "string \<Rightarrow> byte list" where
  "str_bytes s = map (\<lambda>c. word_of_nat (of_char c)) s"

definition bytes_str :: "byte list \<Rightarrow> string" where
  "bytes_str bs = map (\<lambda>b. char_of (unat b)) bs"

lemma bytes_str_bytes [simp]: "bytes_str (str_bytes s) = s"
proof -
  have "char_of (unat (word_of_nat (of_char c) :: byte)) = c" for c :: char
    by (simp add: unat_of_nat)
  then show ?thesis by (simp add: bytes_str_def str_bytes_def comp_def)
qed

lemma str_bytes_bytes_str [simp]: "str_bytes (bytes_str bs) = bs"
proof -
  have "word_of_nat (of_char (char_of (unat b) :: char)) = b" for b :: byte
    using unsigned_less [of b, where 'a = nat] by (simp add: unat_mod_id)
  then show ?thesis by (simp add: bytes_str_def str_bytes_def comp_def)
qed

lemma length_bytes_str [simp]: "length (bytes_str bs) = length bs"
  by (simp add: bytes_str_def)

lemma length_str_bytes [simp]: "length (str_bytes s) = length s"
  by (simp add: str_bytes_def)

text \<open>
  The well-formed byte sequences of the Unicode standard (table 3-7): what
  \<^verbatim>\<open>String::from_utf8\<close> accepts.
\<close>

definition utf8_cont :: "nat \<Rightarrow> bool" where "utf8_cont b \<longleftrightarrow> 128 \<le> b \<and> b \<le> 191"

fun utf8_nat :: "nat list \<Rightarrow> bool" where
  "utf8_nat [] = True"
| "utf8_nat (a # s) =
     (if a \<le> 127 then utf8_nat s
      else if 194 \<le> a \<and> a \<le> 223 then
        (case s of b # t \<Rightarrow> utf8_cont b \<and> utf8_nat t | [] \<Rightarrow> False)
      else if 224 \<le> a \<and> a \<le> 239 then
        (case s of b # c # t \<Rightarrow>
            (if a = 224 then 160 \<le> b \<and> b \<le> 191
             else if a = 237 then 128 \<le> b \<and> b \<le> 159 else utf8_cont b) \<and>
            utf8_cont c \<and> utf8_nat t
         | _ \<Rightarrow> False)
      else if 240 \<le> a \<and> a \<le> 244 then
        (case s of b # c # d # t \<Rightarrow>
            (if a = 240 then 144 \<le> b \<and> b \<le> 191
             else if a = 244 then 128 \<le> b \<and> b \<le> 143 else utf8_cont b) \<and>
            utf8_cont c \<and> utf8_cont d \<and> utf8_nat t
         | _ \<Rightarrow> False)
      else False)"

definition utf8_valid :: "byte list \<Rightarrow> bool" where
  "utf8_valid bs = utf8_nat (map unat bs)"

definition from_utf8 :: "byte list \<Rightarrow> string option" where
  "from_utf8 bs = (if utf8_valid bs then Some (bytes_str bs) else None)"

lemma utf8_nat_ascii: "\<forall>b \<in> set bs. b \<le> 127 \<Longrightarrow> utf8_nat bs"
  by (induction bs) auto

text \<open>A panic is the end of the computation: \<open>Panic\<close> where \<^verbatim>\<open>expect\<close> or \<^verbatim>\<open>panic!\<close> fires.\<close>

datatype 'a run = Done 'a | Panic

section \<open>Invariants of step relations\<close>

text \<open>
  What the step relations of the components share: a predicate that every step keeps holds along
  every run.
\<close>

locale step_invariant =
  fixes step :: "'s \<Rightarrow> 's \<Rightarrow> bool" and inv :: "'s \<Rightarrow> bool"
  assumes inv_step: "\<lbrakk>step s s'; inv s\<rbrakk> \<Longrightarrow> inv s'"
begin

lemma inv_run: "\<lbrakk>step\<^sup>*\<^sup>* s s'; inv s\<rbrakk> \<Longrightarrow> inv s'"
  by (induction rule: rtranclp_induct) (auto intro: inv_step)

lemma inv_consequence: "\<lbrakk>step\<^sup>*\<^sup>* s s'; inv s; \<And>t. inv t \<Longrightarrow> P t\<rbrakk> \<Longrightarrow> P s'"
  using inv_run by blast

end

end
