(* ===== verification/Clip_Model.thy ===== *)
theory Clip_Model
  imports Prelude
begin

unbundle bit_operations_syntax

text \<open>
  The clipboard data model of \<^verbatim>\<open>uc-core\<close>: media types (\<^verbatim>\<open>clipboard/mime.rs\<close>), the
  observed representations of a snapshot and the predicates on them
  (\<^verbatim>\<open>clipboard/system.rs\<close>), link detection (\<^verbatim>\<open>clipboard/link_utils.rs\<close>) and the
  content categories that the per-device sync filters work on
  (\<^verbatim>\<open>clipboard/category.rs\<close>).

  URL parsing is the \<^verbatim>\<open>url\<close> crate, which is not part of the repository: it is the argument
  \<open>urlp\<close>, which returns the scheme of a string that parses as a URL.
\<close>

type_synonym url_scheme = "string \<Rightarrow> string option"

section \<open>Media types\<close>

type_synonym mime_type = string
type_synonym format_id = string
type_synonym rep_id = string

definition essence :: "mime_type \<Rightarrow> string" where
  "essence m = str_lower (trim (hd (split_on CHR '';'' m)))"

fun parameter_in :: "string list \<Rightarrow> string \<Rightarrow> string option" where
  "parameter_in [] name = None"
| "parameter_in (raw # parts) name =
     (case split_once CHR ''='' raw of
        None \<Rightarrow> parameter_in parts name
      | Some (k, v) \<Rightarrow>
          if eq_ignore_ascii_case (trim k) name
          then (let v = trim v in
                Some (case Option.bind (strip_prefix [char_of (34 :: nat)] v)
                             (strip_suffix [char_of (34 :: nat)]) of
                        Some u \<Rightarrow> u
                      | None \<Rightarrow> v))
          else parameter_in parts name)"

definition parameter :: "mime_type \<Rightarrow> string \<Rightarrow> string option" where
  "parameter m name = parameter_in (tl (split_on CHR '';'' m)) name"

datatype image_kind = Png | Jpeg | Tiff | Gif | Webp | Bmp | OtherImage

datatype mime_class =
    TextPlain | TextHtml | TextRtf | TextMarkdown | UriList | TextLink | TextOther
  | Image image_kind | OctetStream | Unrecognized

definition from_essence :: "string \<Rightarrow> mime_class" where
  "from_essence e =
     (if e = ''text/plain'' then TextPlain
      else if e = ''text/html'' then TextHtml
      else if e = ''text/rtf'' \<or> e = ''application/rtf'' then TextRtf
      else if e = ''text/markdown'' then TextMarkdown
      else if e = ''text/uri-list'' \<or> e = ''file/uri-list'' then UriList
      else if e = ''text/x-uri'' \<or> e = ''text/x-url'' \<or> e = ''text/uri'' then TextLink
      else if e = ''application/octet-stream'' then OctetStream
      else if e = ''image/png'' then Image Png
      else if e = ''image/jpeg'' \<or> e = ''image/jpg'' then Image Jpeg
      else if e = ''image/tiff'' \<or> e = ''image/tif'' then Image Tiff
      else if e = ''image/gif'' then Image Gif
      else if e = ''image/webp'' then Image Webp
      else if e = ''image/bmp'' \<or> e = ''image/x-bmp'' then Image Bmp
      else if starts_with ''image/'' e then Image OtherImage
      else if starts_with ''text/'' e then TextOther
      else Unrecognized)"

definition mime_classify :: "mime_type \<Rightarrow> mime_class" where
  "mime_classify m = from_essence (essence m)"

definition is_text_plain :: "mime_type \<Rightarrow> bool" where
  "is_text_plain m \<longleftrightarrow> mime_classify m = TextPlain"
definition is_text_html :: "mime_type \<Rightarrow> bool" where
  "is_text_html m \<longleftrightarrow> mime_classify m = TextHtml"
definition is_text_rtf :: "mime_type \<Rightarrow> bool" where
  "is_text_rtf m \<longleftrightarrow> mime_classify m = TextRtf"
definition is_uri_list :: "mime_type \<Rightarrow> bool" where
  "is_uri_list m \<longleftrightarrow> mime_classify m = UriList"
definition is_image :: "mime_type \<Rightarrow> bool" where
  "is_image m \<longleftrightarrow> (case mime_classify m of Image _ \<Rightarrow> True | _ \<Rightarrow> False)"
definition is_text_like :: "mime_type \<Rightarrow> bool" where
  "is_text_like m \<longleftrightarrow>
     mime_classify m \<in>
       {TextPlain, TextHtml, TextRtf, TextMarkdown, UriList, TextLink, TextOther}"

definition is_rfc_shape :: "mime_type \<Rightarrow> bool" where
  "is_rfc_shape m =
     (let s = trim m in
      case find_index (\<lambda>c. c = CHR ''/'') s of
        None \<Rightarrow> False
      | Some idx \<Rightarrow>
          if rfind_index (\<lambda>c. c = CHR ''/'') s \<noteq> Some idx \<or> idx = 0 \<or> idx = length s - 1
          then False
          else \<not> starts_with ''public.'' (str_lower (drop (idx + 1) s)))"

definition normalize_wire_mime :: "string option \<Rightarrow> mime_type option" where
  "normalize_wire_mime raw =
     Option.bind raw (\<lambda>m. if is_rfc_shape m then Some m else None)"

lemma trim_Nil [simp]: "trim [] = []"
  by (simp add: trim_def)

lemma normalize_wire_mime_SomeD: "normalize_wire_mime r = Some m \<Longrightarrow> r = Some m \<and> is_rfc_shape m"
  by (auto simp: normalize_wire_mime_def bind_eq_Some_conv split: if_splits)

section \<open>Observed representations\<close>

datatype payload_source =
    Inline "byte list"
  | LocalFile (lf_path: string) (lf_size: nat)

record representation =
  rep_id :: rep_id
  format_id :: format_id
  mime :: "mime_type option"
  rep_source :: payload_source
  cached_hash :: "byte list option"

definition new_rep ::
  "rep_id \<Rightarrow> format_id \<Rightarrow> mime_type option \<Rightarrow> byte list \<Rightarrow> representation" where
  "new_rep i f m bs =
     \<lparr>rep_id = i, format_id = f, mime = m, rep_source = Inline bs, cached_hash = None\<rparr>"

definition new_local_file ::
  "rep_id \<Rightarrow> format_id \<Rightarrow> mime_type option \<Rightarrow> string \<Rightarrow> nat \<Rightarrow> representation" where
  "new_local_file i f m p n =
     \<lparr>rep_id = i, format_id = f, mime = m, rep_source = LocalFile p n, cached_hash = None\<rparr>"

definition inline_bytes :: "representation \<Rightarrow> byte list option" where
  "inline_bytes r = (case rep_source r of Inline b \<Rightarrow> Some b | LocalFile _ _ \<Rightarrow> None)"

text \<open>\<^verbatim>\<open>as i64\<close> on a \<^verbatim>\<open>usize\<close> or \<^verbatim>\<open>u64\<close> keeps the low 64 bits.\<close>

definition size_bytes :: "representation \<Rightarrow> int" where
  "size_bytes r =
     (case rep_source r of
        Inline b \<Rightarrow> i64_wrap (int (length b))
      | LocalFile _ n \<Rightarrow> i64_wrap (int n))"

definition take_inline_bytes :: "representation \<Rightarrow> (string + byte list) \<times> representation" where
  "take_inline_bytes r =
     (case rep_source r of
        Inline b \<Rightarrow> (Inr b, r\<lparr>rep_source := Inline []\<rparr>)
      | LocalFile _ _ \<Rightarrow> (Inl ''take_inline_bytes not supported for LocalFile source'', r))"

definition set_inline_bytes ::
  "representation \<Rightarrow> byte list \<Rightarrow> (string + unit) \<times> representation" where
  "set_inline_bytes r bs =
     (case rep_source r of
        Inline _ \<Rightarrow> (Inr (), r\<lparr>rep_source := Inline bs, cached_hash := None\<rparr>)
      | LocalFile _ _ \<Rightarrow> (Inl ''set_inline_bytes not supported for LocalFile source'', r))"

record snapshot =
  ts_ms :: int
  representations :: "representation list"
  file_content_digests :: "byte list list"
  file_set_v1_digest :: "byte list option"

definition opt_test :: "('a \<Rightarrow> bool) \<Rightarrow> 'a option \<Rightarrow> bool" where
  "opt_test P x = (case x of None \<Rightarrow> False | Some a \<Rightarrow> P a)"

definition is_plain_text_mime_or_format :: "mime_type option \<Rightarrow> format_id \<Rightarrow> bool" where
  "is_plain_text_mime_or_format m f =
     (opt_test is_text_plain m \<or> eq_ignore_ascii_case f ''text'')"

definition is_plain_text_representation :: "representation \<Rightarrow> bool" where
  "is_plain_text_representation r = is_plain_text_mime_or_format (mime r) (format_id r)"

definition is_text_representation :: "representation \<Rightarrow> bool" where
  "is_text_representation r =
     (opt_test is_text_like (mime r) \<or> eq_ignore_ascii_case (format_id r) ''text'' \<or>
      eq_ignore_ascii_case (format_id r) ''html'' \<or> eq_ignore_ascii_case (format_id r) ''rtf'')"

definition is_image_representation :: "representation \<Rightarrow> bool" where
  "is_image_representation r =
     (opt_test is_image (mime r) \<or> eq_ignore_ascii_case (format_id r) ''image'')"

definition is_file_mime_or_format :: "mime_type option \<Rightarrow> format_id \<Rightarrow> bool" where
  "is_file_mime_or_format m f =
     (opt_test is_uri_list m \<or> eq_ignore_ascii_case f ''files'' \<or>
      eq_ignore_ascii_case f ''public.file-url'' \<or> contains_sub ''uri-list'' (str_lower f))"

definition is_file_representation :: "representation \<Rightarrow> bool" where
  "is_file_representation r = is_file_mime_or_format (mime r) (format_id r)"

definition is_rich_text_representation :: "representation \<Rightarrow> bool" where
  "is_rich_text_representation r =
     (opt_test (\<lambda>m. is_text_html m \<or> is_text_rtf m) (mime r) \<or>
      eq_ignore_ascii_case (format_id r) ''html'' \<or> eq_ignore_ascii_case (format_id r) ''rtf'')"

definition is_link_representation :: "representation \<Rightarrow> bool" where
  "is_link_representation r =
     (opt_test (\<lambda>m. mime_classify m = TextLink \<or> contains_sub ''url'' (essence m)) (mime r) \<or>
      (let f = str_lower (format_id r) in f = ''url'' \<or> f = ''uri'' \<or> f = ''public.url''))"

definition is_any_text_representation :: "representation \<Rightarrow> bool" where
  "is_any_text_representation r = opt_test (\<lambda>m. starts_with ''text/'' (essence m)) (mime r)"

section \<open>Links\<close>

definition is_single_url :: "url_scheme \<Rightarrow> string \<Rightarrow> bool" where
  "is_single_url urlp text =
     (let t = trim text in
      if t = [] then False
      else if list_ex is_ws t then False
      else urlp t \<noteq> None)"

definition is_all_urls :: "url_scheme \<Rightarrow> string \<Rightarrow> bool" where
  "is_all_urls urlp text =
     (let ls = filter (\<lambda>l. l \<noteq> []) (map trim (str_lines text)) in
      if ls = [] then False
      else list_all (\<lambda>l. \<not> list_ex is_ws l \<and> urlp l \<noteq> None) ls)"

definition parse_uri_list :: "string \<Rightarrow> string list" where
  "parse_uri_list content =
     filter (\<lambda>l. l \<noteq> [] \<and> \<not> starts_with [CHR ''#''] l) (map trim (str_lines content))"

definition is_web_url :: "url_scheme \<Rightarrow> string \<Rightarrow> bool" where
  "is_web_url urlp candidate =
     (let t = trim candidate in
      if t = [] \<or> list_ex is_ws t then False
      else (case urlp t of Some s \<Rightarrow> s = ''http'' \<or> s = ''https'' | None \<Rightarrow> False))"

definition detect_link_urls :: "url_scheme \<Rightarrow> string list \<Rightarrow> string option \<Rightarrow> string list" where
  "detect_link_urls urlp uri_list plain_text =
     filter (is_web_url urlp) (map trim uri_list) @
     (case plain_text of
        None \<Rightarrow> []
      | Some text \<Rightarrow>
          (let ls = filter (\<lambda>l. l \<noteq> []) (map trim (str_lines text)) in
           if ls \<noteq> [] \<and> list_all (is_web_url urlp) ls then ls else []))"

definition link_heuristic_bytes_limit :: nat where "link_heuristic_bytes_limit = 4096"

definition is_link_content_representation :: "url_scheme \<Rightarrow> representation \<Rightarrow> bool" where
  "is_link_content_representation urlp r =
     (if \<not> (is_plain_text_representation r \<or> is_any_text_representation r) then False
      else (case inline_bytes r of
        None \<Rightarrow> False
      | Some bytes \<Rightarrow>
          if bytes = [] \<or> link_heuristic_bytes_limit < length bytes then False
          else (case from_utf8 bytes of
            None \<Rightarrow> False
          | Some text \<Rightarrow>
              (let t = trim text in
               if \<not> (contains_sub ''://'' t \<or> starts_with ''mailto:'' t \<or>
                      starts_with ''tel:'' t \<or> starts_with ''sms:'' t)
               then False
               else is_single_url urlp text))))"

section \<open>Content categories\<close>

datatype category = FileC | ImageC | TextC | RichTextC | LinkC

record content_types =
  ct_text :: bool
  ct_image :: bool
  ct_link :: bool
  ct_file :: bool
  ct_code_snippet :: bool
  ct_rich_text :: bool

fun cat_allowed_by :: "category \<Rightarrow> content_types \<Rightarrow> bool" where
  "cat_allowed_by FileC ct = ct_file ct"
| "cat_allowed_by ImageC ct = ct_image ct"
| "cat_allowed_by TextC ct = ct_text ct"
| "cat_allowed_by RichTextC ct = ct_rich_text ct"
| "cat_allowed_by LinkC ct = ct_link ct"

fun cat_label :: "category \<Rightarrow> string" where
  "cat_label FileC = ''file''"
| "cat_label ImageC = ''image''"
| "cat_label TextC = ''text''"
| "cat_label RichTextC = ''rich_text''"
| "cat_label LinkC = ''link''"

fun cat_bit :: "category \<Rightarrow> nat" where
  "cat_bit FileC = 0"
| "cat_bit ImageC = 1"
| "cat_bit TextC = 2"
| "cat_bit RichTextC = 3"
| "cat_bit LinkC = 4"

definition all_categories :: "category list" where
  "all_categories = [FileC, ImageC, TextC, RichTextC, LinkC]"

type_synonym category_set = "8 word"

definition cats_empty :: category_set where "cats_empty = 0"

definition cats_is_empty :: "category_set \<Rightarrow> bool" where "cats_is_empty s \<longleftrightarrow> s = 0"

definition cats_insert :: "category \<Rightarrow> category_set \<Rightarrow> category_set" where
  "cats_insert c s = s OR push_bit (cat_bit c) 1"

definition cats_list :: "category_set \<Rightarrow> category list" where
  "cats_list s = filter (\<lambda>c. s AND push_bit (cat_bit c) 1 \<noteq> 0) all_categories"

fun join_labels :: "category list \<Rightarrow> string" where
  "join_labels [] = []"
| "join_labels [c] = cat_label c"
| "join_labels (c # cs) = cat_label c @ '','' @ join_labels cs"

definition cats_labels :: "category_set \<Rightarrow> string" where
  "cats_labels s = (if cats_is_empty s then ''unknown'' else join_labels (cats_list s))"

definition cats_allowed_by :: "category_set \<Rightarrow> content_types \<Rightarrow> bool" where
  "cats_allowed_by s ct =
     (if cats_is_empty s then True else list_all (\<lambda>c. cat_allowed_by c ct) (cats_list s))"

definition cats_denied_by :: "category_set \<Rightarrow> content_types \<Rightarrow> category list" where
  "cats_denied_by s ct = filter (\<lambda>c. \<not> cat_allowed_by c ct) (cats_list s)"

definition add_rep_categories :: "url_scheme \<Rightarrow> category_set \<Rightarrow> representation \<Rightarrow> category_set" where
  "add_rep_categories urlp s r =
     (if size_bytes r = 0 then s
      else if is_file_representation r then cats_insert FileC s
      else if is_image_representation r then cats_insert ImageC s
      else if is_rich_text_representation r then cats_insert RichTextC s
      else if is_link_representation r then cats_insert LinkC s
      else if is_plain_text_representation r \<or> is_any_text_representation r then
        (let s' = cats_insert TextC s in
         if is_link_content_representation urlp r then cats_insert LinkC s' else s')
      else s)"

definition categories_from_snapshot :: "url_scheme \<Rightarrow> snapshot \<Rightarrow> category_set" where
  "categories_from_snapshot urlp snap =
     foldl (add_rep_categories urlp) cats_empty (representations snap)"

text \<open>The single category an entry is listed under.\<close>

datatype entry_category = ETextC | EImageC | EFileC | ERichTextC | EOtherC

fun entry_cat_label :: "entry_category \<Rightarrow> string" where
  "entry_cat_label ETextC = cat_label TextC"
| "entry_cat_label EImageC = cat_label ImageC"
| "entry_cat_label EFileC = cat_label FileC"
| "entry_cat_label ERichTextC = cat_label RichTextC"
| "entry_cat_label EOtherC = ''other''"

definition entry_cat_from_db :: "string \<Rightarrow> entry_category option" where
  "entry_cat_from_db raw =
     (if raw = ''text'' then Some ETextC
      else if raw = ''image'' then Some EImageC
      else if raw = ''file'' then Some EFileC
      else if raw = ''rich_text'' then Some ERichTextC
      else if raw = ''other'' then Some EOtherC
      else None)"

definition is_file_uri_list_representation :: "url_scheme \<Rightarrow> representation \<Rightarrow> bool" where
  "is_file_uri_list_representation urlp r =
     (let uri_mime = opt_test (\<lambda>m. essence m = ''text/uri-list'' \<or> essence m = ''file/uri-list'')
                       (mime r);
          files_format = eq_ignore_ascii_case (format_id r) ''files''
      in if \<not> uri_mime \<and> \<not> files_format then False
         else (case inline_bytes r of
           None \<Rightarrow> False
         | Some bytes \<Rightarrow>
             (case from_utf8 bytes of
                None \<Rightarrow> False
              | Some text \<Rightarrow> list_ex (\<lambda>u. urlp u = Some ''file'') (parse_uri_list text))))"

definition entry_cat_from_snapshot :: "url_scheme \<Rightarrow> snapshot \<Rightarrow> entry_category" where
  "entry_cat_from_snapshot urlp snap =
     (let reps = filter (\<lambda>r. size_bytes r \<noteq> 0) (representations snap) in
      if list_ex (is_file_uri_list_representation urlp) reps then EFileC
      else if list_ex is_image_representation reps then EImageC
      else if list_ex is_rich_text_representation reps then ERichTextC
      else if list_ex (\<lambda>r. is_plain_text_representation r \<or> is_any_text_representation r) reps
        then ETextC
      else EOtherC)"

subsection \<open>The bit set is the set of categories\<close>

definition cats_abs :: "category_set \<Rightarrow> category set" where
  "cats_abs s = {c. bit s (cat_bit c)}"

lemma cat_bit_less: "cat_bit c < 8"
  by (cases c) auto

lemma cat_bit_inj: "cat_bit c = cat_bit d \<longleftrightarrow> c = d"
  by (cases c; cases d) auto

lemma bit_push_one: "bit (2 ^ cat_bit c :: category_set) n \<longleftrightarrow> n = cat_bit c"
  using cat_bit_less [of c] by (auto simp: bit_exp_iff)

lemma and_push_one_iff: "(s :: category_set) AND 2 ^ cat_bit c \<noteq> 0 \<longleftrightarrow> bit s (cat_bit c)"
proof
  assume "s AND 2 ^ cat_bit c \<noteq> 0"
  then obtain n where "bit (s AND 2 ^ cat_bit c) n"
    by (auto simp: bit_eq_iff)
  then show "bit s (cat_bit c)" by (auto simp: bit_and_iff bit_push_one)
next
  assume "bit s (cat_bit c)"
  then have "bit (s AND 2 ^ cat_bit c) (cat_bit c)"
    by (simp add: bit_and_iff bit_push_one)
  then show "s AND 2 ^ cat_bit c \<noteq> 0" by auto
qed

lemma set_all_categories: "set all_categories = UNIV"
proof -
  have "c \<in> set all_categories" for c by (cases c) (simp_all add: all_categories_def)
  then show ?thesis by auto
qed

lemma set_cats_list [simp]: "set (cats_list s) = cats_abs s"
  by (auto simp: cats_list_def and_push_one_iff set_all_categories cats_abs_def)

lemma cats_abs_empty [simp]: "cats_abs cats_empty = {}"
  by (simp add: cats_abs_def cats_empty_def)

lemma cats_abs_insert [simp]: "cats_abs (cats_insert c s) = insert c (cats_abs s)"
  by (auto simp: cats_abs_def cats_insert_def bit_or_iff bit_push_one cat_bit_inj)

lemma cats_allowed_by_abs: "cats_allowed_by s ct \<longleftrightarrow> (\<forall>c \<in> cats_abs s. cat_allowed_by c ct)"
proof (cases "cats_is_empty s")
  case True
  then have "cats_abs s = {}" by (simp add: cats_is_empty_def cats_abs_def)
  with True show ?thesis by (simp add: cats_allowed_by_def)
next
  case False
  then show ?thesis by (simp add: cats_allowed_by_def list_all_iff)
qed

lemma cats_denied_by_abs: "set (cats_denied_by s ct) = {c \<in> cats_abs s. \<not> cat_allowed_by c ct}"
  by (auto simp: cats_denied_by_def)

text \<open>The categories one representation contributes.\<close>

definition rep_categories :: "url_scheme \<Rightarrow> representation \<Rightarrow> category set" where
  "rep_categories urlp r = cats_abs (add_rep_categories urlp cats_empty r)"

lemma cats_abs_add_rep:
  "cats_abs (add_rep_categories urlp s r) = cats_abs s \<union> rep_categories urlp r"
  by (simp add: rep_categories_def add_rep_categories_def Let_def)

lemma cats_abs_foldl:
  "cats_abs (foldl (add_rep_categories urlp) s rs) = cats_abs s \<union> (\<Union>r \<in> set rs. rep_categories urlp r)"
  by (induction rs arbitrary: s) (auto simp: cats_abs_add_rep)

lemma cats_abs_snapshot:
  "cats_abs (categories_from_snapshot urlp snap) =
     (\<Union>r \<in> set (representations snap). rep_categories urlp r)"
  by (simp add: categories_from_snapshot_def cats_abs_foldl)

end
