(* ===== verification/Content_Identity.thy ===== *)
theory Content_Identity
  imports Clip_Model "HOL-Library.Multiset"
begin

text \<open>
  The cross-device identity of clipboard content: \<^verbatim>\<open>uc-content-hash\<close>, the file set of a
  file entry (\<^verbatim>\<open>uc-core/clipboard/file_set.rs\<close>) and \<^verbatim>\<open>snapshot_hash\<close> /
  \<^verbatim>\<open>origin_guard_key\<close> of a snapshot (\<^verbatim>\<open>uc-core/clipboard/system.rs\<close>).

  BLAKE3 and hexadecimal output are third-party crates: \<open>blake3\<close> maps the bytes hashed
  (all the \<^verbatim>\<open>update\<close>s one after the other) to the digest, \<open>hexenc\<close> renders bytes.
  What is proved about identity is what the code contributes: which bytes are hashed. Two
  inputs with the same hashed bytes are exactly those with the same content, so that any
  confusion of two contents would be a collision of BLAKE3 itself.
\<close>

type_synonym digest = "byte list"

record hash_prims =
  blake3 :: "byte list \<Rightarrow> digest"
  hexenc :: "byte list \<Rightarrow> string"

section \<open>The hash functions of uc-content-hash\<close>

definition file_content_prefix :: "byte list" where
  "file_content_prefix = str_bytes ''file-content|''"
definition file_set_member_prefix :: "byte list" where
  "file_set_member_prefix = str_bytes ''file-set-member-v1|''"
definition file_set_prefix :: "byte list" where
  "file_set_prefix = str_bytes ''file-set-v1|''"
definition snapshot_hash_prefix :: "byte list" where
  "snapshot_hash_prefix = str_bytes ''snapshot-hash-v1|''"

definition content_hash :: "hash_prims \<Rightarrow> byte list \<Rightarrow> digest" where
  "content_hash H bytes = blake3 H bytes"

text \<open>
  The streaming variant: the reader's chunks are hashed one after the other until a read
  returns no byte; an error of the reader is passed on.
\<close>

fun hash_reader_loop :: "(string + byte list) list \<Rightarrow> byte list \<Rightarrow> string + byte list" where
  "hash_reader_loop [] acc = Inr acc"
| "hash_reader_loop (Inl e # reads) acc = Inl e"
| "hash_reader_loop (Inr chunk # reads) acc =
     (if chunk = [] then Inr acc else hash_reader_loop reads (acc @ chunk))"

definition content_hash_reader :: "hash_prims \<Rightarrow> (string + byte list) list \<Rightarrow> string + digest" where
  "content_hash_reader H reads = map_sum id (blake3 H) (hash_reader_loop reads [])"

definition file_content_wrapper :: "hash_prims \<Rightarrow> digest list \<Rightarrow> digest" where
  "file_content_wrapper H digests = blake3 H (file_content_prefix @ concat (sort digests))"

definition member_preimage :: "string \<Rightarrow> string \<Rightarrow> string \<Rightarrow> digest option \<Rightarrow> byte list" where
  "member_preimage root_name relative_path kind_tag file_digest =
     file_set_member_prefix @ str_bytes root_name @ [0] @ str_bytes relative_path @ [0] @
     str_bytes kind_tag @ [0] @ (case file_digest of None \<Rightarrow> [] | Some d \<Rightarrow> d)"

definition file_set_member_v1 ::
  "hash_prims \<Rightarrow> string \<Rightarrow> string \<Rightarrow> string \<Rightarrow> digest option \<Rightarrow> digest" where
  "file_set_member_v1 H root_name relative_path kind_tag file_digest =
     blake3 H (member_preimage root_name relative_path kind_tag file_digest)"

definition file_set_v1_wrapper :: "hash_prims \<Rightarrow> digest list \<Rightarrow> digest" where
  "file_set_v1_wrapper H leaves = blake3 H (file_set_prefix @ concat (sort leaves))"

definition snapshot_hash :: "hash_prims \<Rightarrow> digest list \<Rightarrow> digest" where
  "snapshot_hash H rep_hashes = blake3 H (snapshot_hash_prefix @ concat (sort rep_hashes))"

definition format_blake3v1 :: "hash_prims \<Rightarrow> digest \<Rightarrow> string" where
  "format_blake3v1 H d = ''blake3v1:'' @ hexenc H d"

definition snapshot_hash_single_payload :: "hash_prims \<Rightarrow> byte list \<Rightarrow> string" where
  "snapshot_hash_single_payload H bytes =
     format_blake3v1 H (snapshot_hash H [content_hash H bytes])"

section \<open>File sets\<close>

datatype member_kind = FileM | ExecutableM | EmptyDirectoryM

fun kind_tag :: "member_kind \<Rightarrow> string" where
  "kind_tag FileM = ''f''"
| "kind_tag ExecutableM = ''x''"
| "kind_tag EmptyDirectoryM = ''d''"

definition kind_from_tag :: "string \<Rightarrow> member_kind option" where
  "kind_from_tag t =
     (if t = ''f'' then Some FileM
      else if t = ''x'' then Some ExecutableM
      else if t = ''d'' then Some EmptyDirectoryM
      else None)"

record member_location =
  root_index :: int
  root_name :: string
  relative_path :: string
  member_kind :: member_kind

datatype exclude_reason = SizeCapExceeded | IngestFailed | UnsupportedMember

datatype line_kind =
    FileLine (line_content_hash: digest) (line_blob_id: "string option") (line_size: "int option")
  | NonFileLine
  | ExcludedLine exclude_reason

record file_set_line =
  line_index :: int
  original_text :: string
  member_location :: "member_location option"
  line_kind :: line_kind

type_synonym file_set = "file_set_line list"

definition indicates_directory_root :: "file_set_line \<Rightarrow> int \<Rightarrow> bool" where
  "indicates_directory_root l row_count =
     (case member_location l of
        None \<Rightarrow> False
      | Some loc \<Rightarrow>
          member_kind loc = EmptyDirectoryM \<or> CHR ''/'' \<in> set (relative_path loc) \<or>
          row_count \<le> line_index l)"

definition has_directory_structure :: "file_set \<Rightarrow> bool" where
  "has_directory_structure fs =
     list_ex (\<lambda>l. indicates_directory_root l (int (length fs))) fs"

definition has_excluded :: "file_set \<Rightarrow> bool" where
  "has_excluded fs =
     list_ex (\<lambda>l. case line_kind l of ExcludedLine _ \<Rightarrow> True | _ \<Rightarrow> False) fs"

fun file_line_hash :: "line_kind \<Rightarrow> digest option" where
  "file_line_hash (FileLine h _ _) = Some h"
| "file_line_hash _ = None"

definition content_digest_contribution :: "file_set \<Rightarrow> digest list" where
  "content_digest_contribution fs =
     (if has_excluded fs \<or> has_directory_structure fs then []
      else sort (List.map_filter (\<lambda>l. file_line_hash (line_kind l)) fs))"

text \<open>The loop that collects the leaves; \<open>None\<close> is the early \<^verbatim>\<open>return None\<close>.\<close>

fun collect_leaves :: "hash_prims \<Rightarrow> file_set \<Rightarrow> digest list \<Rightarrow> digest list option" where
  "collect_leaves H [] leaves = Some leaves"
| "collect_leaves H (l # ls) leaves =
     (case (member_location l, line_kind l) of
        (None, NonFileLine) \<Rightarrow> collect_leaves H ls leaves
      | (None, _) \<Rightarrow> None
      | (Some loc, k) \<Rightarrow>
          (case (k, member_kind loc) of
             (FileLine h _ _, FileM) \<Rightarrow>
               collect_leaves H ls (leaves @ [file_set_member_v1 H (root_name loc)
                 (relative_path loc) (kind_tag FileM) (Some h)])
           | (FileLine h _ _, ExecutableM) \<Rightarrow>
               collect_leaves H ls (leaves @ [file_set_member_v1 H (root_name loc)
                 (relative_path loc) (kind_tag ExecutableM) (Some h)])
           | (NonFileLine, EmptyDirectoryM) \<Rightarrow>
               collect_leaves H ls (leaves @ [file_set_member_v1 H (root_name loc)
                 (relative_path loc) (kind_tag EmptyDirectoryM) None])
           | _ \<Rightarrow> None))"

definition file_set_v1_component :: "hash_prims \<Rightarrow> file_set \<Rightarrow> digest option" where
  "file_set_v1_component H fs =
     (if \<not> has_directory_structure fs \<or> has_excluded fs then None
      else (case collect_leaves H fs [] of
              None \<Rightarrow> None
            | Some leaves \<Rightarrow>
                if leaves = [] then None else Some (file_set_v1_wrapper H leaves)))"

section \<open>The identity of a snapshot\<close>

text \<open>
  The content hash of a representation: the cached one if there is one, else the hash of its
  bytes; a path that cannot be read panics. \<open>files\<close> is the file system, path to content.
\<close>

type_synonym file_system = "string \<Rightarrow> byte list option"

definition rep_content_hash ::
  "hash_prims \<Rightarrow> file_system \<Rightarrow> representation \<Rightarrow> (digest \<times> representation) run" where
  "rep_content_hash H files r =
     (case cached_hash r of
        Some h \<Rightarrow> Done (h, r)
      | None \<Rightarrow>
          (case rep_source r of
             Inline b \<Rightarrow>
               Done (content_hash H b, r\<lparr>cached_hash := Some (content_hash H b)\<rparr>)
           | LocalFile p _ \<Rightarrow>
               (case files p of
                  None \<Rightarrow> Panic
                | Some b \<Rightarrow>
                    Done (content_hash H b, r\<lparr>cached_hash := Some (content_hash H b)\<rparr>))))"

text \<open>The hash alone, when it exists: what \<^verbatim>\<open>snapshot_hash\<close> reads of a representation.\<close>

definition rep_hash_value :: "hash_prims \<Rightarrow> file_system \<Rightarrow> representation \<Rightarrow> digest option" where
  "rep_hash_value H files r =
     (case rep_content_hash H files r of Done (h, _) \<Rightarrow> Some h | Panic \<Rightarrow> None)"

fun collect_options :: "'a option list \<Rightarrow> 'a list option" where
  "collect_options [] = Some []"
| "collect_options (x # xs) =
     (case x of None \<Rightarrow> None | Some a \<Rightarrow> map_option (Cons a) (collect_options xs))"

definition skips_file_rep :: "snapshot \<Rightarrow> representation \<Rightarrow> bool" where
  "skips_file_rep s r =
     ((file_set_v1_digest s \<noteq> None \<or> file_content_digests s \<noteq> []) \<and> is_file_representation r)"

definition file_identity_digests :: "hash_prims \<Rightarrow> snapshot \<Rightarrow> digest list" where
  "file_identity_digests H s =
     (case file_set_v1_digest s of
        Some c \<Rightarrow> [c]
      | None \<Rightarrow>
          if file_content_digests s \<noteq> []
          then [file_content_wrapper H (file_content_digests s)] else [])"

definition identity_digests :: "hash_prims \<Rightarrow> file_system \<Rightarrow> snapshot \<Rightarrow> digest list option" where
  "identity_digests H files s =
     map_option (\<lambda>hs. hs @ file_identity_digests H s)
       (collect_options
         (map (rep_hash_value H files)
           (filter (\<lambda>r. \<not> skips_file_rep s r) (representations s))))"

definition snapshot_identity :: "hash_prims \<Rightarrow> file_system \<Rightarrow> snapshot \<Rightarrow> digest run" where
  "snapshot_identity H files s =
     (case identity_digests H files s of
        None \<Rightarrow> Panic
      | Some hs \<Rightarrow> Done (snapshot_hash H hs))"

definition first_rep :: "(representation \<Rightarrow> bool) \<Rightarrow> snapshot \<Rightarrow> representation option" where
  "first_rep P s = find P (representations s)"

definition tagged_hash ::
  "hash_prims \<Rightarrow> file_system \<Rightarrow> string \<Rightarrow> representation \<Rightarrow> string run" where
  "tagged_hash H files tag r =
     (case rep_hash_value H files r of
        None \<Rightarrow> Panic
      | Some h \<Rightarrow> Done (tag @ format_blake3v1 H h))"

definition meaningful_origin_key ::
  "hash_prims \<Rightarrow> file_system \<Rightarrow> snapshot \<Rightarrow> string run option" where
  "meaningful_origin_key H files s =
     (case first_rep is_file_representation s of
        Some r \<Rightarrow> Some (tagged_hash H files ''files:'' r)
      | None \<Rightarrow>
     (case first_rep is_plain_text_representation s of
        Some r \<Rightarrow> Some (tagged_hash H files ''text:'' r)
      | None \<Rightarrow>
     (case first_rep is_text_representation s of
        Some r \<Rightarrow> Some (tagged_hash H files ''rich-text:'' r)
      | None \<Rightarrow>
     (case first_rep is_image_representation s of
        Some r \<Rightarrow> Some (tagged_hash H files ''image:'' r)
      | None \<Rightarrow> None))))"

definition origin_guard_key :: "hash_prims \<Rightarrow> file_system \<Rightarrow> snapshot \<Rightarrow> string run" where
  "origin_guard_key H files s =
     (case meaningful_origin_key H files s of
        Some k \<Rightarrow> k
      | None \<Rightarrow>
          (case snapshot_identity H files s of
             Panic \<Rightarrow> Panic
           | Done d \<Rightarrow> Done (format_blake3v1 H d)))"


section \<open>Lists of digests\<close>

lemma concat_digests_inj:
  "\<lbrakk>\<forall>x \<in> set xs. length x = n; \<forall>y \<in> set ys. length y = n; 0 < n; concat xs = concat ys\<rbrakk>
   \<Longrightarrow> xs = ys"
proof (induction xs arbitrary: ys)
  case Nil
  then show ?case by (cases ys) auto
next
  case (Cons x xs)
  show ?case
  proof (cases ys)
    case Nil
    with Cons.prems show ?thesis by auto
  next
    case (Cons y zs)
    with Cons.prems have "x = y" "concat xs = concat zs" by auto
    with Cons Cons.prems Cons.IH [of zs] show ?thesis by simp
  qed
qed

lemma sort_eq_iff_mset:
  fixes xs ys :: "'a :: linorder list"
  shows "sort xs = sort ys \<longleftrightarrow> mset xs = mset ys"
  by (metis mset_sort properties_for_sort sorted_sort)

lemma sorted_concat_inj:
  fixes xs ys :: "digest list"
  assumes "\<forall>x \<in> set xs. length x = n" "\<forall>y \<in> set ys. length y = n" "0 < n"
  shows "concat (sort xs) = concat (sort ys) \<longleftrightarrow> mset xs = mset ys"
proof
  assume "concat (sort xs) = concat (sort ys)"
  then have "sort xs = sort ys"
    using assms concat_digests_inj [of "sort xs" n "sort ys"] by simp
  then show "mset xs = mset ys" by (simp add: sort_eq_iff_mset)
next
  assume "mset xs = mset ys"
  then show "concat (sort xs) = concat (sort ys)" by (simp only: sort_eq_iff_mset [symmetric])
qed

lemma snapshot_hash_mset: "mset xs = mset ys \<Longrightarrow> snapshot_hash H xs = snapshot_hash H ys"
  by (simp add: snapshot_hash_def sort_eq_iff_mset [symmetric])

lemma file_content_wrapper_mset:
  "mset xs = mset ys \<Longrightarrow> file_content_wrapper H xs = file_content_wrapper H ys"
  by (simp add: file_content_wrapper_def sort_eq_iff_mset [symmetric])

lemma file_set_v1_wrapper_mset:
  "mset xs = mset ys \<Longrightarrow> file_set_v1_wrapper H xs = file_set_v1_wrapper H ys"
  by (simp add: file_set_v1_wrapper_def sort_eq_iff_mset [symmetric])

lemma collect_options_Some_iff: "collect_options xs = Some hs \<longleftrightarrow> xs = map Some hs"
  by (induction xs arbitrary: hs) (auto split: option.splits)

lemma collect_options_None_iff: "collect_options xs = None \<longleftrightarrow> None \<in> set xs"
  by (induction xs) (auto split: option.splits)

lemma mset_map_Some_eq: "mset (map Some xs) = mset (map Some ys) \<longleftrightarrow> mset xs = mset ys"
proof
  assume "mset (map Some xs) = mset (map Some ys)"
  then have "image_mset the (mset (map Some xs)) = image_mset the (mset (map Some ys))" by simp
  then show "mset xs = mset ys" by (simp add: image_mset.compositionality comp_def)
qed simp

lemma collect_options_mset:
  assumes "mset xs = mset ys"
  shows "rel_option (\<lambda>a b. mset a = mset b) (collect_options xs) (collect_options ys)"
proof (cases "collect_options xs")
  case None
  then have "collect_options ys = None"
    using mset_eq_setD [OF assms] by (simp add: collect_options_None_iff)
  with None show ?thesis by simp
next
  case (Some hs)
  then have "None \<notin> set ys"
    using mset_eq_setD [OF assms] by (auto simp: collect_options_Some_iff)
  then obtain ks where ks: "collect_options ys = Some ks"
    by (cases "collect_options ys") (auto simp: collect_options_None_iff)
  with Some assms have "mset hs = mset ks"
    by (metis collect_options_Some_iff mset_map_Some_eq)
  with Some ks show ?thesis by simp
qed

lemma rel_mset_append:
  "rel_option (\<lambda>a b. mset a = mset b) A B \<Longrightarrow>
   rel_option (\<lambda>a b. mset a = mset b) (map_option (\<lambda>hs. hs @ x) A) (map_option (\<lambda>hs. hs @ x) B)"
  by (cases A; cases B) simp_all

section \<open>Identity does not depend on order or on local paths\<close>

lemma identity_digests_mset:
  assumes reps: "mset (representations s) = mset (representations t)"
    and digests: "mset (file_content_digests s) = mset (file_content_digests t)"
    and component: "file_set_v1_digest s = file_set_v1_digest t"
  shows "rel_option (\<lambda>a b. mset a = mset b)
           (identity_digests H files s) (identity_digests H files t)"
proof -
  have empty: "file_content_digests s = [] \<longleftrightarrow> file_content_digests t = []"
    using mset_eq_setD [OF digests] by auto
  then have skip: "skips_file_rep s = skips_file_rep t"
    using component by (auto simp: skips_file_rep_def fun_eq_iff)
  have "mset (map (rep_hash_value H files) (filter (\<lambda>r. \<not> skips_file_rep s r) (representations s))) =
        mset (map (rep_hash_value H files) (filter (\<lambda>r. \<not> skips_file_rep t r) (representations t)))"
    using reps by (simp add: skip mset_filter)
  note hashes = collect_options_mset [OF this]
  have same: "file_identity_digests H s = file_identity_digests H t"
    using component empty file_content_wrapper_mset [OF digests, of H]
    by (simp add: file_identity_digests_def split: option.split)
  show ?thesis
    unfolding identity_digests_def same
    by (rule rel_mset_append [OF hashes])
qed

lemma snapshot_identity_mset:
  assumes "mset (representations s) = mset (representations t)"
    and "mset (file_content_digests s) = mset (file_content_digests t)"
    and "file_set_v1_digest s = file_set_v1_digest t"
  shows "snapshot_identity H files s = snapshot_identity H files t"
  using identity_digests_mset [OF assms, of H files]
  by (cases "identity_digests H files s"; cases "identity_digests H files t")
     (auto simp: snapshot_identity_def dest: snapshot_hash_mset [of _ _ H])

definition relocate_file_reps ::
  "(representation \<Rightarrow> payload_source) \<Rightarrow> (representation \<Rightarrow> digest option) \<Rightarrow> snapshot \<Rightarrow> snapshot"
  where
  "relocate_file_reps src h s =
     s\<lparr>representations :=
         map (\<lambda>r. if is_file_representation r
                  then r\<lparr>rep_source := src r, cached_hash := h r\<rparr> else r)
             (representations s)\<rparr>"

lemma is_file_representation_update [simp]:
  "is_file_representation (r\<lparr>rep_source := x, cached_hash := y\<rparr>) = is_file_representation r"
  by (simp add: is_file_representation_def)

lemma filter_relocated:
  "filter (\<lambda>r. \<not> is_file_representation r)
     (map (\<lambda>r. if is_file_representation r then r\<lparr>rep_source := src r, cached_hash := h r\<rparr> else r) rs) =
   filter (\<lambda>r. \<not> is_file_representation r) rs"
  by (induction rs) auto

lemma identity_digests_relocate:
  assumes "file_set_v1_digest s \<noteq> None \<or> file_content_digests s \<noteq> []"
  shows "identity_digests H files (relocate_file_reps src h s) = identity_digests H files s"
proof -
  have "skips_file_rep s = is_file_representation"
    "skips_file_rep (relocate_file_reps src h s) = is_file_representation"
    using assms by (auto simp: skips_file_rep_def relocate_file_reps_def fun_eq_iff)
  moreover have "file_identity_digests H (relocate_file_reps src h s) = file_identity_digests H s"
    by (simp add: file_identity_digests_def relocate_file_reps_def split: option.split)
  ultimately show ?thesis
    by (simp add: identity_digests_def) (simp add: relocate_file_reps_def filter_relocated)
qed

section \<open>What is hashed determines the content\<close>

definition snapshot_preimage :: "digest list \<Rightarrow> byte list" where
  "snapshot_preimage hs = snapshot_hash_prefix @ concat (sort hs)"

lemma snapshot_hash_preimage: "snapshot_hash H hs = blake3 H (snapshot_preimage hs)"
  by (simp add: snapshot_hash_def snapshot_preimage_def)

lemma nul_free_split:
  "\<lbrakk>x \<notin> set a; x \<notin> set b; a @ [x] @ s = b @ [x] @ t\<rbrakk> \<Longrightarrow> a = b \<and> s = t"
proof (induction a arbitrary: b)
  case Nil
  then show ?case by (cases b) auto
next
  case (Cons c a)
  then show ?case by (cases b) auto
qed

definition nul_free :: "string \<Rightarrow> bool" where
  "nul_free s \<longleftrightarrow> char_of (0 :: nat) \<notin> set s"

lemma nul_free_bytes: "nul_free s \<Longrightarrow> 0 \<notin> set (str_bytes s)"
proof -
  assume free: "nul_free s"
  have "c = char_of (0 :: nat)" if "word_of_nat (of_char c) = (0 :: byte)" for c :: char
  proof -
    from that have "unat (word_of_nat (of_char c) :: byte) = 0" by simp
    then have "(of_char c :: nat) = 0" by (simp add: unat_of_nat)
    then show ?thesis by (metis char_of_char)
  qed
  with free show ?thesis by (auto simp: nul_free_def str_bytes_def)
qed

lemma str_bytes_inj: "str_bytes a = str_bytes b \<longleftrightarrow> a = b"
  by (metis bytes_str_bytes)

lemma kind_tag_nul_free: "nul_free (kind_tag k)"
  by (cases k) (simp_all add: nul_free_def char_of_def)

lemma kind_tag_inj: "kind_tag k = kind_tag k' \<longleftrightarrow> k = k'"
  by (cases k; cases k') simp_all

lemma member_preimage_eqD:
  assumes free: "nul_free r" "nul_free p" "nul_free t" "nul_free r'" "nul_free p'" "nul_free t'"
    and eq: "member_preimage r p t d = member_preimage r' p' t' d'"
  shows "r = r' \<and> p = p' \<and> t = t' \<and>
    (case d of None \<Rightarrow> [] | Some x \<Rightarrow> x) = (case d' of None \<Rightarrow> [] | Some x \<Rightarrow> x)"
proof -
  note z = free [THEN nul_free_bytes]
  from eq have *: "str_bytes r @ [0] @ (str_bytes p @ [0] @ (str_bytes t @ [0] @
        (case d of None \<Rightarrow> [] | Some x \<Rightarrow> x))) =
      str_bytes r' @ [0] @ (str_bytes p' @ [0] @ (str_bytes t' @ [0] @
        (case d' of None \<Rightarrow> [] | Some x \<Rightarrow> x)))"
    by (simp add: member_preimage_def)
  note 1 = nul_free_split [OF z(1) z(4) *]
  note 2 = nul_free_split [OF z(2) z(5) conjunct2 [OF 1]]
  note 3 = nul_free_split [OF z(3) z(6) conjunct2 [OF 2]]
  show ?thesis using 1 2 3 by (simp add: str_bytes_inj)
qed

section \<open>Streaming, caching\<close>

lemma hash_reader_loop_chunks:
  "[] \<notin> set cs \<Longrightarrow> hash_reader_loop (map Inr cs @ Inr [] # rest) acc = Inr (acc @ concat cs)"
  by (induction cs arbitrary: acc) auto

lemma rep_hash_value_set_inline:
  "set_inline_bytes r bs = (Inr (), r') \<Longrightarrow> rep_hash_value H files r' = Some (content_hash H bs)"
  by (auto simp: set_inline_bytes_def rep_hash_value_def rep_content_hash_def
      split: payload_source.splits)

lemma rep_hash_value_after_take:
  assumes "rep_content_hash H files r = Done (h, r1)"
    and "take_inline_bytes r1 = (Inr bs, r2)"
  shows "rep_hash_value H files r2 = Some h"
  using assms
  by (auto simp: rep_content_hash_def take_inline_bytes_def rep_hash_value_def
      split: option.splits payload_source.splits)

section \<open>File sets\<close>

lemma kind_tag_roundtrip: "kind_from_tag (kind_tag k) = Some k"
  by (cases k) (simp_all add: kind_from_tag_def)

text \<open>What one line of the manifest contributes: a failure, nothing, or a leaf.\<close>

definition line_leaf :: "hash_prims \<Rightarrow> file_set_line \<Rightarrow> digest list option" where
  "line_leaf H l = collect_leaves H [l] []"

lemma collect_leaves_Cons:
  "collect_leaves H (l # ls) acc =
     (case line_leaf H l of None \<Rightarrow> None | Some xs \<Rightarrow> collect_leaves H ls (acc @ xs))"
  by (auto simp: line_leaf_def split: option.splits line_kind.splits member_kind.splits)

lemma collect_leaves_concat:
  "collect_leaves H ls acc =
     map_option (\<lambda>xss. acc @ concat xss) (collect_options (map (line_leaf H) ls))"
proof (induction ls arbitrary: acc)
  case Nil
  then show ?case by simp
next
  case (Cons l ls)
  show ?case
    by (subst collect_leaves_Cons)
       (auto simp: Cons.IH option.map_comp comp_def split: option.splits)
qed

lemma mset_concat_mset: "mset xss = mset yss \<Longrightarrow> mset (concat xss) = mset (concat yss)"
  by (metis mset_concat mset_map sum_mset_sum_list)

lemma file_set_flags_mset:
  assumes "mset fs = mset gs"
  shows "has_directory_structure fs = has_directory_structure gs"
    and "has_excluded fs = has_excluded gs"
  using mset_eq_setD [OF assms] mset_eq_length [OF assms]
  by (simp_all add: has_directory_structure_def has_excluded_def list_ex_iff)

lemma file_set_v1_component_mset:
  assumes "mset fs = mset gs"
  shows "file_set_v1_component H fs = file_set_v1_component H gs"
proof -
  have "mset (map (line_leaf H) fs) = mset (map (line_leaf H) gs)" using assms by simp
  from collect_options_mset [OF this]
  have "rel_option (\<lambda>a b. mset a = mset b) (collect_leaves H fs []) (collect_leaves H gs [])"
    unfolding collect_leaves_concat option.rel_map
    by (rule option.rel_mono_strong) (simp, intro mset_concat_mset)
  then show ?thesis
    by (cases "collect_leaves H fs []"; cases "collect_leaves H gs []")
       (auto simp: file_set_v1_component_def file_set_flags_mset [OF assms]
         dest: file_set_v1_wrapper_mset [of _ _ H])
qed

end
