(* ===== verification/Selection_Policy.thy ===== *)
theory Selection_Policy
  imports Clip_Model "HOL-Library.Product_Lexorder" "HOL-Library.Multiset"
begin

text \<open>
  Which representation of a snapshot is previewed and which is pasted:
  \<^verbatim>\<open>SelectRepresentationPolicyV1\<close> of \<^verbatim>\<open>uc-core/clipboard/policy/v1.rs\<close>.

  \<open>file_path\<close> stands for \<^verbatim>\<open>url::Url::parse(line).ok()?.to_file_path().ok()\<close>, the
  third-party URL parser. The comparison chain of \<^verbatim>\<open>sort_by\<close> (score descending, size,
  format id, id) is the lexicographic order of the tuple \<open>policy_key\<close>, and the stable
  \<^verbatim>\<open>sort_by\<close> is \<open>sort_key\<close>.
\<close>

datatype sel_target = UiPreview | DefaultPaste

datatype rep_kind = KFileList | KImage | KRichText | KPlainText | KUri | KUnknown

datatype policy_error = NoUsableRepresentation

record selection =
  primary_rep_id :: string
  secondary_rep_ids :: "string list"
  preview_rep_id :: string
  paste_rep_id :: string

definition inline_preview_max_bytes :: int where
  "inline_preview_max_bytes = 256 * 1024"

definition is_usable :: "representation \<Rightarrow> bool" where
  "is_usable r = (if size_bytes r \<le> 0 then False else True)"

definition classify :: "representation \<Rightarrow> rep_kind" where
  "classify r =
     (case mime r of
        None \<Rightarrow> KUnknown
      | Some m \<Rightarrow>
          if eq_ignore_ascii_case m ''text/uri-list'' \<or> starts_with ''text/uri-list'' m
          then KFileList
          else if starts_with ''image/'' m then KImage
          else if eq_ignore_ascii_case m ''text/html'' \<or> eq_ignore_ascii_case m ''text/rtf''
          then KRichText
          else if eq_ignore_ascii_case m ''text/plain'' \<or> starts_with ''text/'' m
          then KPlainText
          else if contains_sub ''uri'' m \<or> contains_sub ''url'' m then KUri
          else if eq_ignore_ascii_case (format_id r) ''files'' \<or>
                  contains_sub ''uri-list'' (format_id r)
          then KFileList
          else KUnknown)"

definition is_image_from_file :: "representation \<Rightarrow> bool" where
  "is_image_from_file r = eq_ignore_ascii_case (format_id r) ''image-from-file''"

fun kind_score :: "sel_target \<Rightarrow> rep_kind \<Rightarrow> int" where
  "kind_score UiPreview KFileList = 95"
| "kind_score UiPreview KPlainText = 90"
| "kind_score UiPreview KImage = 80"
| "kind_score UiPreview KRichText = 70"
| "kind_score UiPreview KUri = 60"
| "kind_score UiPreview KUnknown = 10"
| "kind_score DefaultPaste KFileList = 100"
| "kind_score DefaultPaste KRichText = 90"
| "kind_score DefaultPaste KPlainText = 80"
| "kind_score DefaultPaste KImage = 70"
| "kind_score DefaultPaste KUri = 60"
| "kind_score DefaultPaste KUnknown = 10"

definition score :: "representation \<Rightarrow> rep_kind \<Rightarrow> sel_target \<Rightarrow> int" where
  "score r k t =
     (if t = UiPreview \<and> k = KImage \<and> is_image_from_file r \<and>
         size_bytes r \<le> inline_preview_max_bytes
      then 100
      else if t = DefaultPaste \<and> k = KImage \<and> is_image_from_file r then 30
      else kind_score t k)"

text \<open>
  \<^verbatim>\<open>Path::extension\<close> of the standard library: the last component (a trailing
  slash and \<open>.\<close> components do not count, \<open>..\<close> has no name), after its last dot
  unless that dot starts the name.
\<close>

definition path_file_name :: "string \<Rightarrow> string option" where
  "path_file_name p =
     (case rev (filter (\<lambda>c. c \<noteq> [] \<and> c \<noteq> ''.'') (split_on (CHR ''/'') p)) of
        [] \<Rightarrow> None
      | c # _ \<Rightarrow> if c = ''..'' then None else Some c)"

definition path_extension :: "string \<Rightarrow> string option" where
  "path_extension p =
     (case path_file_name p of
        None \<Rightarrow> None
      | Some name \<Rightarrow>
          (case rsplit_once (CHR ''.'') name of
             None \<Rightarrow> None
           | Some (stem, ext) \<Rightarrow> if stem = [] then None else Some ext))"

definition previewable_extensions :: "string list" where
  "previewable_extensions =
     [''png'', ''jpg'', ''jpeg'', ''gif'', ''webp'', ''bmp'', ''tif'', ''tiff'']"

definition file_list_represents_single_previewable_image ::
  "(string \<Rightarrow> string option) \<Rightarrow> representation \<Rightarrow> bool" where
  "file_list_represents_single_previewable_image file_path r =
     (if classify r \<noteq> KFileList then False
      else (case inline_bytes r of
        None \<Rightarrow> False
      | Some bs \<Rightarrow>
          (case from_utf8 bs of
             None \<Rightarrow> False
           | Some text \<Rightarrow>
               (case List.map_filter file_path
                       (filter (\<lambda>l. l \<noteq> []) (map trim (str_lines text))) of
                  [] \<Rightarrow> False
                | p # rest \<Rightarrow>
                    if rest \<noteq> [] then False
                    else (case path_extension p of
                            None \<Rightarrow> False
                          | Some ext \<Rightarrow> str_lower ext \<in> set previewable_extensions)))))"

definition sort_score :: "bool \<Rightarrow> sel_target \<Rightarrow> representation \<Rightarrow> int" where
  "sort_score single_image t r =
     (let k = classify r in
      if t = UiPreview \<and> k = KImage \<and> single_image then 100 else score r k t)"

definition policy_key ::
  "bool \<Rightarrow> sel_target \<Rightarrow> representation \<Rightarrow> int \<times> int \<times> string \<times> string" where
  "policy_key single_image t r =
     (- sort_score single_image t r, size_bytes r, format_id r, rep_id r)"

definition has_single_previewable_image ::
  "(string \<Rightarrow> string option) \<Rightarrow> representation list \<Rightarrow> bool" where
  "has_single_previewable_image file_path rs =
     list_ex (file_list_represents_single_previewable_image file_path) rs"

definition select_one ::
  "(string \<Rightarrow> string option) \<Rightarrow> snapshot \<Rightarrow> sel_target \<Rightarrow> representation option" where
  "select_one file_path s t =
     (let reps = filter is_usable (representations s) in
      if reps = [] then None
      else (case sort_key
                   (policy_key (has_single_previewable_image file_path (representations s)) t)
                   reps of
              [] \<Rightarrow> None
            | r # _ \<Rightarrow> Some r))"

definition select ::
  "(string \<Rightarrow> string option) \<Rightarrow> snapshot \<Rightarrow> policy_error + selection" where
  "select file_path s =
     (case select_one file_path s UiPreview of
        None \<Rightarrow> Inl NoUsableRepresentation
      | Some preview \<Rightarrow>
          (case select_one file_path s DefaultPaste of
             None \<Rightarrow> Inl NoUsableRepresentation
           | Some paste \<Rightarrow>
               Inr \<lparr>primary_rep_id = rep_id paste,
                    secondary_rep_ids =
                      map rep_id (filter (\<lambda>r. rep_id r \<noteq> rep_id paste)
                        (filter is_usable (representations s))),
                    preview_rep_id = rep_id preview,
                    paste_rep_id = rep_id paste\<rparr>))"

section \<open>The chosen representation\<close>

lemma hd_sort_key_minimal:
  assumes "sort_key f xs = x # rest"
  shows "x \<in> set xs" and "y \<in> set xs \<Longrightarrow> f x \<le> f y"
proof -
  have "set (sort_key f xs) = set xs" by simp
  then show "x \<in> set xs" using assms by auto
  have "sorted (map f (x # rest))" using sorted_sort_key [of f xs] by (simp only: assms)
  moreover assume "y \<in> set xs"
  then have "y \<in> set (x # rest)" by (simp add: assms [symmetric])
  ultimately show "f x \<le> f y" by auto
qed

lemma select_one_SomeD:
  assumes "select_one file_path s t = Some r"
  shows "r \<in> set (representations s)" "is_usable r"
    "\<lbrakk>x \<in> set (representations s); is_usable x\<rbrakk> \<Longrightarrow>
       policy_key (has_single_previewable_image file_path (representations s)) t r
       \<le> policy_key (has_single_previewable_image file_path (representations s)) t x"
proof -
  obtain rest where
    *: "sort_key (policy_key (has_single_previewable_image file_path (representations s)) t)
          (filter is_usable (representations s)) = r # rest"
    using assms by (auto simp: select_one_def Let_def split: if_splits list.splits)
  from hd_sort_key_minimal [OF *]
  show "r \<in> set (representations s)" "is_usable r"
    "\<lbrakk>x \<in> set (representations s); is_usable x\<rbrakk> \<Longrightarrow>
       policy_key (has_single_previewable_image file_path (representations s)) t r
       \<le> policy_key (has_single_previewable_image file_path (representations s)) t x"
    by auto
qed

lemma sort_key_eq_Nil [simp]: "sort_key f xs = [] \<longleftrightarrow> xs = []"
  by (metis mset.simps(1) mset_sort mset_zero_iff)

lemma select_one_None_iff:
  "select_one file_path s t = None \<longleftrightarrow> (\<forall>r \<in> set (representations s). \<not> is_usable r)"
  by (auto simp: select_one_def Let_def filter_empty_conv split: list.splits)

lemma select_one_score_max:
  assumes "select_one file_path s t = Some r" "x \<in> set (representations s)" "is_usable x"
  shows "sort_score (has_single_previewable_image file_path (representations s)) t x
    \<le> sort_score (has_single_previewable_image file_path (representations s)) t r"
  using select_one_SomeD(3) [OF assms] by (auto simp: policy_key_def less_eq_prod_def)

lemma has_single_mset:
  "mset rs = mset ss \<Longrightarrow>
   has_single_previewable_image file_path rs = has_single_previewable_image file_path ss"
  using mset_eq_setD [of rs ss] by (simp add: has_single_previewable_image_def list_ex_iff)

lemma select_one_mset:
  assumes reps: "mset (representations s) = mset (representations t)"
    and ids: "distinct (map rep_id (representations s))"
  shows "select_one file_path s target = select_one file_path t target"
proof -
  let ?f = "policy_key (has_single_previewable_image file_path (representations s)) target"
  have same: "set (representations s) = set (representations t)"
    using mset_eq_setD [OF reps] .
  show ?thesis
  proof (cases "select_one file_path s target")
    case None
    then have "select_one file_path t target = None"
      by (simp add: select_one_None_iff same)
    with None show ?thesis by simp
  next
    case (Some r)
    then obtain r' where r': "select_one file_path t target = Some r'"
      by (metis select_one_None_iff same option.exhaust)
    have "?f r \<le> ?f r'" "?f r' \<le> ?f r"
      using select_one_SomeD [OF Some] select_one_SomeD [OF r'] same
      by (simp_all add: has_single_mset [OF reps])
    then have "?f r = ?f r'" by (rule order.antisym)
    then have "rep_id r = rep_id r'" by (simp add: policy_key_def)
    with ids have "r = r'"
      using select_one_SomeD(1) [OF Some] select_one_SomeD(1) [OF r'] same
      by (metis distinct_map inj_onD)
    with Some r' show ?thesis by simp
  qed
qed

lemma kind_score_paste_ge: "k \<noteq> KUnknown \<Longrightarrow> 60 \<le> kind_score DefaultPaste k"
  by (cases k) simp_all

lemma synthetic_thumbnail_pasted:
  assumes chosen: "select_one file_path s DefaultPaste = Some r"
    and synthetic: "classify r = KImage" "is_image_from_file r"
    and other: "x \<in> set (representations s)" "is_usable x"
  shows "classify x = KUnknown \<or> (classify x = KImage \<and> is_image_from_file x)"
proof (rule ccontr)
  assume "\<not> ?thesis"
  then have "60 \<le> sort_score i DefaultPaste x" for i
    by (auto simp: sort_score_def score_def kind_score_paste_ge)
  moreover have "sort_score i DefaultPaste r = 30" for i
    using synthetic by (simp add: sort_score_def score_def)
  moreover note select_one_score_max [OF chosen other]
  ultimately have "(60 :: int) \<le> 30" by (metis order.trans)
  then show False by simp
qed

end
