(* ===== verification/Active_Register.thy ===== *)
theory Active_Register
  imports Content_Identity "HOL-Library.Product_Lexorder"
begin

text \<open>
  The active-clipboard register: which content is the current clipboard content, as a
  last-writer-wins register that converges across devices. Sources:
  \<^verbatim>\<open>uc-core/clipboard/active_state.rs\<close>,
  \<^verbatim>\<open>uc-infra/db/repositories/active_clipboard_register_repo.rs\<close> with its envelope cipher,
  \<^verbatim>\<open>uc-application/clipboard_write/{active_register,mobile_consumability}.rs\<close>.

  The table holds one row (its id is the constant 1), so the database is an optional row.
  A failing SQL statement is the parameter \<open>fail\<close>: \<open>Some msg\<close> for an executor that
  returns an error, which leaves the row as it was (the statements of \<^verbatim>\<open>advance\<close> run in a
  transaction). The AEAD, the key derivation and the postcard encoding are third-party and
  fields of \<open>cipher_prims\<close>; a nonce is an argument, drawn by the caller.
\<close>

section \<open>Device ids\<close>

definition device_id_max_bytes :: nat where "device_id_max_bytes = 64"

definition device_id_new :: "string \<Rightarrow> string run" where
  "device_id_new s = (if device_id_max_bytes < length s then Panic else Done s)"

definition device_id_try_new :: "string \<Rightarrow> string option" where
  "device_id_try_new s = (if device_id_max_bytes < length s then None else Some s)"

section \<open>Activations\<close>

record active_state =
  act_hash :: string
  act_entry :: string
  act_at :: int
  act_by :: string

definition supersedes :: "active_state \<Rightarrow> active_state \<Rightarrow> bool" where
  "supersedes s current =
     (if act_at current < act_at s then True
      else if act_at s < act_at current then False
      else act_by current < act_by s)"

definition is_same_activation :: "active_state \<Rightarrow> active_state \<Rightarrow> bool" where
  "is_same_activation s t =
     (act_hash s = act_hash t \<and> act_at s = act_at t \<and> act_by s = act_by t)"

record consumable_ref =
  ref_hash :: string
  ref_entry :: string

section \<open>The envelope of the mobile-consumable reference\<close>

datatype aead_error = InvalidKey | EncryptFailed | DecryptFailed

datatype access_error = NotUnlocked | OtherAccess string

record cipher_prims =
  aead_seal :: "byte list \<Rightarrow> byte list \<Rightarrow> byte list \<Rightarrow> byte list \<Rightarrow> byte list option"
  aead_open :: "byte list \<Rightarrow> byte list \<Rightarrow> byte list \<Rightarrow> byte list \<Rightarrow> byte list option"
  ref_enc :: "consumable_ref \<Rightarrow> byte list option"
  ref_dec :: "byte list \<Rightarrow> consumable_ref option"
  current_profile :: "string + string"
  derive_subkey :: "byte list \<Rightarrow> byte list \<Rightarrow> access_error + byte list"

definition encrypt_xchacha_raw ::
  "cipher_prims \<Rightarrow> byte list \<Rightarrow> byte list \<Rightarrow> byte list \<Rightarrow> byte list \<Rightarrow>
   aead_error + (byte list \<times> byte list)" where
  "encrypt_xchacha_raw C nonce key plaintext aad =
     (if length key \<noteq> 32 then Inl InvalidKey
      else (case aead_seal C key nonce plaintext aad of
              None \<Rightarrow> Inl EncryptFailed
            | Some ct \<Rightarrow> Inr (nonce, ct)))"

definition decrypt_xchacha_raw ::
  "cipher_prims \<Rightarrow> byte list \<Rightarrow> byte list \<Rightarrow> byte list \<Rightarrow> byte list \<Rightarrow> aead_error + byte list" where
  "decrypt_xchacha_raw C key nonce ciphertext aad =
     (if length nonce \<noteq> 24 then Inl DecryptFailed
      else if length key \<noteq> 32 then Inl InvalidKey
      else (case aead_open C key nonce ciphertext aad of
              None \<Rightarrow> Inl DecryptFailed
            | Some pt \<Rightarrow> Inr pt))"

datatype envelope_error =
  Truncated | BadMagic | UnsupportedVersion byte | SerializeE | EncryptE | DecryptE | DeserializeE

definition envelope_magic :: "byte list" where "envelope_magic = str_bytes ''UCAR''"
definition envelope_version :: byte where "envelope_version = 1"
definition nonce_len :: nat where "nonce_len = 24"
definition header_len :: nat where "header_len = length envelope_magic + 1 + nonce_len"
definition consumable_hkdf_info :: "byte list" where
  "consumable_hkdf_info = str_bytes ''uniclipboard-active-register-consumable/v1#hkdf''"
definition envelope_aad :: "byte list" where
  "envelope_aad = str_bytes ''uniclipboard-active-register-consumable/v1#aad''"

definition seal_ref ::
  "cipher_prims \<Rightarrow> byte list \<Rightarrow> byte list \<Rightarrow> consumable_ref \<Rightarrow> envelope_error + byte list" where
  "seal_ref C nonce key r =
     (case ref_enc C r of
        None \<Rightarrow> Inl SerializeE
      | Some plaintext \<Rightarrow>
          (case encrypt_xchacha_raw C nonce key plaintext envelope_aad of
             Inl _ \<Rightarrow> Inl EncryptE
           | Inr (n, ct) \<Rightarrow> Inr (envelope_magic @ [envelope_version] @ n @ ct)))"

definition open_ref :: "cipher_prims \<Rightarrow> byte list \<Rightarrow> byte list \<Rightarrow> envelope_error + consumable_ref"
  where
  "open_ref C key envelope =
     (if length envelope < header_len then Inl Truncated
      else if take (length envelope_magic) envelope \<noteq> envelope_magic then Inl BadMagic
      else if envelope ! length envelope_magic \<noteq> envelope_version
      then Inl (UnsupportedVersion (envelope ! length envelope_magic))
      else (let nonce_start = length envelope_magic + 1 in
        case decrypt_xchacha_raw C key
               (take (header_len - nonce_start) (drop nonce_start envelope))
               (drop header_len envelope) envelope_aad of
          Inl _ \<Rightarrow> Inl DecryptE
        | Inr plaintext \<Rightarrow>
            (case ref_dec C plaintext of
               None \<Rightarrow> Inl DeserializeE
             | Some r \<Rightarrow> Inr r)))"

section \<open>The register\<close>

datatype register_error = StorageE string | RegisterNotUnlocked

record register_row =
  row_hash :: string
  row_entry :: string
  row_at :: int
  row_by :: string
  row_envelope :: "byte list option"

type_synonym register = "register_row option"

definition register_cipher :: "cipher_prims \<Rightarrow> register_error + byte list" where
  "register_cipher C =
     (case current_profile C of
        Inl err \<Rightarrow> Inl (StorageE (''current profile unavailable: '' @ err))
      | Inr profile \<Rightarrow>
          (case derive_subkey C (str_bytes profile) consumable_hkdf_info of
             Inl NotUnlocked \<Rightarrow> Inl RegisterNotUnlocked
           | Inl (OtherAccess other) \<Rightarrow>
               Inl (StorageE (''derive active-register consumable key: '' @ other))
           | Inr key \<Rightarrow> Inr key))"

definition seal_for_register ::
  "cipher_prims \<Rightarrow> byte list \<Rightarrow> consumable_ref \<Rightarrow> register_error + byte list" where
  "seal_for_register C nonce r =
     (case register_cipher C of
        Inl e \<Rightarrow> Inl e
      | Inr key \<Rightarrow>
          (case seal_ref C nonce key r of
             Inl _ \<Rightarrow> Inl (StorageE ''seal'')
           | Inr env \<Rightarrow> Inr env))"

text \<open>The transaction of \<^verbatim>\<open>advance\<close>: compare with the stored key, then write.\<close>

definition cas_row :: "register_row \<Rightarrow> register \<Rightarrow> bool \<times> register" where
  "cas_row row reg =
     (let should_advance =
        (case reg of
           None \<Rightarrow> True
         | Some cur \<Rightarrow>
             row_at cur < row_at row \<or> (row_at row = row_at cur \<and> row_by cur < row_by row)) in
      if \<not> should_advance then (False, reg)
      else (case reg of
              None \<Rightarrow> (True, Some row)
            | Some cur \<Rightarrow>
                (case row_envelope row of
                   Some ct \<Rightarrow>
                     (True, Some (cur\<lparr>row_hash := row_hash row, row_entry := row_entry row,
                       row_at := row_at row, row_by := row_by row, row_envelope := Some ct\<rparr>))
                 | None \<Rightarrow>
                     (True, Some (cur\<lparr>row_hash := row_hash row, row_entry := row_entry row,
                       row_at := row_at row, row_by := row_by row\<rparr>)))))"

definition advance_register ::
  "cipher_prims \<Rightarrow> byte list \<Rightarrow> string option \<Rightarrow> active_state \<Rightarrow> bool \<Rightarrow> register \<Rightarrow>
   (register_error + bool) \<times> register" where
  "advance_register C nonce fail s mobile_consumable reg =
     (case (if mobile_consumable
            then map_sum id Some
              (seal_for_register C nonce \<lparr>ref_hash = act_hash s, ref_entry = act_entry s\<rparr>)
            else Inr None) of
        Inl e \<Rightarrow> (Inl e, reg)
      | Inr env \<Rightarrow>
          (case fail of
             Some msg \<Rightarrow> (Inl (StorageE msg), reg)
           | None \<Rightarrow>
               (case cas_row \<lparr>row_hash = act_hash s, row_entry = act_entry s, row_at = act_at s,
                              row_by = act_by s, row_envelope = env\<rparr> reg of
                  (advanced, reg') \<Rightarrow> (Inr advanced, reg'))))"

definition load_register :: "string option \<Rightarrow> register \<Rightarrow> (register_error + active_state option) run"
  where
  "load_register fail reg =
     (case fail of
        Some msg \<Rightarrow> Done (Inl (StorageE msg))
      | None \<Rightarrow>
          (case reg of
             None \<Rightarrow> Done (Inr None)
           | Some row \<Rightarrow>
               (case device_id_new (row_by row) of
                  Panic \<Rightarrow> Panic
                | Done d \<Rightarrow>
                    Done (Inr (Some \<lparr>act_hash = row_hash row, act_entry = row_entry row,
                                     act_at = row_at row, act_by = d\<rparr>)))))"

definition reset_register :: "string option \<Rightarrow> register \<Rightarrow> (register_error + unit) \<times> register" where
  "reset_register fail reg =
     (case fail of
        Some msg \<Rightarrow> (Inl (StorageE msg), reg)
      | None \<Rightarrow> (Inr (), None))"

text \<open>
  Clearing an unreadable envelope touches the row only while it still holds that envelope:
  a compare-and-swap against a writer that came in between.
\<close>

definition clear_envelope :: "byte list \<Rightarrow> register \<Rightarrow> register" where
  "clear_envelope ct reg =
     (case reg of
        None \<Rightarrow> None
      | Some row \<Rightarrow>
          if row_envelope row = Some ct then Some (row\<lparr>row_envelope := None\<rparr>) else Some row)"

text \<open>
  \<^verbatim>\<open>load_mobile_consumable\<close> reads the envelope, opens it, and runs a second statement when it
  cannot. \<open>between\<close> is what other tasks do to the row after the first statement and before
  the second one, where there is one.
\<close>

definition load_mobile_consumable ::
  "cipher_prims \<Rightarrow> string option \<Rightarrow> string option \<Rightarrow> (register \<Rightarrow> register) \<Rightarrow> register \<Rightarrow>
   (register_error + consumable_ref option) \<times> register" where
  "load_mobile_consumable C fail_read fail_clear between reg =
     (case fail_read of
        Some msg \<Rightarrow> (Inl (StorageE msg), between reg)
      | None \<Rightarrow>
          (case (case reg of None \<Rightarrow> None | Some row \<Rightarrow> row_envelope row) of
             None \<Rightarrow> (Inr None, between reg)
           | Some ct \<Rightarrow>
               (case register_cipher C of
                  Inl e \<Rightarrow> (Inl e, between reg)
                | Inr key \<Rightarrow>
                    (case open_ref C key ct of
                       Inr r \<Rightarrow> (Inr (Some r), between reg)
                     | Inl _ \<Rightarrow>
                         (Inr None,
                          (if fail_clear = None then clear_envelope ct (between reg)
                           else between reg))))))"

definition backfill_if_current ::
  "cipher_prims \<Rightarrow> byte list \<Rightarrow> string option \<Rightarrow> consumable_ref \<Rightarrow> register \<Rightarrow>
   (register_error + bool) \<times> register" where
  "backfill_if_current C nonce fail r reg =
     (case seal_for_register C nonce r of
        Inl e \<Rightarrow> (Inl e, reg)
      | Inr ct \<Rightarrow>
          (case fail of
             Some msg \<Rightarrow> (Inl (StorageE msg), reg)
           | None \<Rightarrow>
               (case reg of
                  None \<Rightarrow> (Inr False, None)
                | Some row \<Rightarrow>
                    if row_envelope row = None \<and> row_hash row = ref_hash r \<and>
                       row_entry row = ref_entry r
                    then (Inr True, Some (row\<lparr>row_envelope := Some ct\<rparr>))
                    else (Inr False, reg))))"

section \<open>Writes made on this device\<close>

text \<open>
  \<open>file_sets\<close> is what the file-set repository returns for an entry, \<open>Inl\<close> a storage error.
\<close>

definition is_mobile_consumable :: "(string \<Rightarrow> string + file_set option) \<Rightarrow> string \<Rightarrow> bool" where
  "is_mobile_consumable file_sets entry =
     (case file_sets entry of
        Inr None \<Rightarrow> True
      | Inr (Some fs) \<Rightarrow> \<not> has_directory_structure fs
      | Inl _ \<Rightarrow> False)"

definition advance_local ::
  "cipher_prims \<Rightarrow> byte list \<Rightarrow> string option \<Rightarrow> (string \<Rightarrow> string + file_set option) \<Rightarrow> int \<Rightarrow> string \<Rightarrow>
   string \<Rightarrow> string \<Rightarrow> register \<Rightarrow> active_state \<times> register" where
  "advance_local C nonce fail file_sets now device hash entry reg =
     (let s = \<lparr>act_hash = hash, act_entry = entry, act_at = now, act_by = device\<rparr> in
      (s, snd (advance_register C nonce fail s (is_mobile_consumable file_sets entry) reg)))"

definition backfill_execute ::
  "cipher_prims \<Rightarrow> byte list \<Rightarrow> string option \<Rightarrow> string option \<Rightarrow> (string \<Rightarrow> string + file_set option) \<Rightarrow>
   register \<Rightarrow> ((register_error + bool) \<times> register) run" where
  "backfill_execute C nonce fail_load fail_write file_sets reg =
     (case load_register fail_load reg of
        Panic \<Rightarrow> Panic
      | Done (Inl e) \<Rightarrow> Done (Inl e, reg)
      | Done (Inr None) \<Rightarrow> Done (Inr False, reg)
      | Done (Inr (Some s)) \<Rightarrow>
          if \<not> is_mobile_consumable file_sets (act_entry s) then Done (Inr False, reg)
          else Done (backfill_if_current C nonce fail_write
                 \<lparr>ref_hash = act_hash s, ref_entry = act_entry s\<rparr> reg))"


section \<open>Last-writer-wins registers\<close>

text \<open>
  The contract of an advance: an empty register takes the write, a strictly greater key takes
  it over, any other key leaves the register as it is. \<open>content\<close> reads the key and the value
  the register holds.
\<close>

fun advance_seq :: "('s \<Rightarrow> 'r \<Rightarrow> bool \<times> 'r) \<Rightarrow> 's list \<Rightarrow> 'r \<Rightarrow> 'r" where
  "advance_seq adv [] r = r"
| "advance_seq adv (s # ss) r = advance_seq adv ss (snd (adv s r))"

fun accepted :: "('s \<Rightarrow> 'r \<Rightarrow> bool \<times> 'r) \<Rightarrow> 's list \<Rightarrow> 'r \<Rightarrow> 's list" where
  "accepted adv [] r = []"
| "accepted adv (s # ss) r =
     (case adv s r of (ok, r') \<Rightarrow> if ok then s # accepted adv ss r' else accepted adv ss r')"

locale lww_register =
  fixes key :: "'s \<Rightarrow> 'k :: linorder"
    and val :: "'s \<Rightarrow> 'v"
    and content :: "'r \<Rightarrow> ('k \<times> 'v) option"
    and adv :: "'s \<Rightarrow> 'r \<Rightarrow> bool \<times> 'r"
  assumes adv_empty:
      "content r = None \<Longrightarrow> \<exists>r'. adv s r = (True, r') \<and> content r' = Some (key s, val s)"
    and adv_newer:
      "\<lbrakk>content r = Some (k, v); k < key s\<rbrakk> \<Longrightarrow>
         \<exists>r'. adv s r = (True, r') \<and> content r' = Some (key s, val s)"
    and adv_stale: "\<lbrakk>content r = Some (k, v); key s \<le> k\<rbrakk> \<Longrightarrow> adv s r = (False, r)"
begin

lemma adv_cases:
  obtains (taken) r' where "adv s r = (True, r')" "content r' = Some (key s, val s)"
      "\<And>k v. content r = Some (k, v) \<Longrightarrow> k < key s"
  | (kept) k v where "adv s r = (False, r)" "content r = Some (k, v)" "key s \<le> k"
proof (cases "content r")
  case None
  from adv_empty [OF this, of s] show ?thesis using taken None by auto
next
  case (Some kv)
  then obtain k v where kv: "content r = Some (k, v)" by (cases kv) auto
  show ?thesis
  proof (cases "k < key s")
    case True
    from adv_newer [OF kv True] show ?thesis using taken True kv by auto
  next
    case False
    then have "key s \<le> k" by simp
    from adv_stale [OF kv this] show ?thesis using kept [OF _ kv] False by simp
  qed
qed

lemma seq_mono:
  "content r = Some (k, v) \<Longrightarrow> \<exists>k' v'. content (advance_seq adv ss r) = Some (k', v') \<and> k \<le> k'"
proof (induction ss arbitrary: r k v)
  case Nil
  then show ?case by simp
next
  case (Cons s ss)
  show ?case
  proof (cases rule: adv_cases [of s r])
    case (taken r')
    from Cons.IH [OF taken(2)] taken(1) taken(3) [OF Cons.prems] show ?thesis by fastforce
  next
    case (kept k' v')
    from Cons.IH [OF Cons.prems] kept(1) show ?thesis by simp
  qed
qed

lemma seq_covers:
  "s \<in> set ss \<Longrightarrow> \<exists>k v. content (advance_seq adv ss r) = Some (k, v) \<and> key s \<le> k"
proof (induction ss arbitrary: r)
  case Nil
  then show ?case by simp
next
  case (Cons x ss)
  show ?case
  proof (cases "s = x")
    case True
    show ?thesis
    proof (cases rule: adv_cases [of x r])
      case (taken r')
      from seq_mono [OF taken(2), of ss] taken(1) True show ?thesis by auto
    next
      case (kept k v)
      from seq_mono [OF kept(2), of ss] kept True show ?thesis by fastforce
    qed
  next
    case False
    with Cons show ?thesis by simp
  qed
qed

lemma seq_source:
  "content (advance_seq adv ss r) = Some (k, v) \<Longrightarrow>
   content r = Some (k, v) \<or> (\<exists>s \<in> set ss. key s = k \<and> val s = v)"
proof (induction ss arbitrary: r)
  case Nil
  then show ?case by simp
next
  case (Cons x ss)
  show ?case
    by (cases rule: adv_cases [of x r]; use Cons in fastforce)
qed

lemma seq_converges:
  assumes same: "(\<lambda>s. (key s, val s)) ` set xs = (\<lambda>s. (key s, val s)) ` set ys"
    and func: "\<And>s t. \<lbrakk>s \<in> set xs; t \<in> set xs; key s = key t\<rbrakk> \<Longrightarrow> val s = val t"
    and empty: "content r = None" "content q = None"
  shows "content (advance_seq adv xs r) = content (advance_seq adv ys q)"
proof -
  let ?p = "\<lambda>s. (key s, val s)"
  have pair: "\<exists>t \<in> set ys. key t = key s \<and> val t = val s" if "s \<in> set xs" for s
  proof -
    from that have "?p s \<in> ?p ` set xs" by (rule imageI)
    then have "?p s \<in> ?p ` set ys" by (simp only: same)
    then show ?thesis by auto
  qed
  have pair': "\<exists>t \<in> set xs. key t = key s \<and> val t = val s" if "s \<in> set ys" for s
  proof -
    from that have "?p s \<in> ?p ` set ys" by (rule imageI)
    then have "?p s \<in> ?p ` set xs" by (simp only: same)
    then show ?thesis by auto
  qed
  show ?thesis
  proof (cases "xs = []")
    case True
    with same have "ys = []" by auto
    with True empty show ?thesis by simp
  next
    case False
    then obtain x where x: "x \<in> set xs" by (cases xs) auto
    from pair [OF x] obtain y where y: "y \<in> set ys" by blast
    from seq_covers [OF x, of r] obtain k v where a: "content (advance_seq adv xs r) = Some (k, v)"
      by blast
    from seq_covers [OF y, of q] obtain k' v' where b: "content (advance_seq adv ys q) = Some (k', v')"
      by blast
    from seq_source [OF a] empty obtain s where s: "s \<in> set xs" "key s = k" "val s = v" by auto
    from seq_source [OF b] empty obtain t where t: "t \<in> set ys" "key t = k'" "val t = v'" by auto
    from pair [OF s(1)] obtain s' where "s' \<in> set ys" "key s' = k" using s by auto
    with seq_covers [of s' ys q] b have "k \<le> k'" by auto
    moreover from pair' [OF t(1)] obtain t' where t': "t' \<in> set xs" "key t' = k'" "val t' = v'"
      using t by auto
    with seq_covers [of t' xs r] a have "k' \<le> k" by auto
    ultimately have "k = k'" by simp
    moreover have "v = v'" using func [OF s(1) t'(1)] s t' \<open>k = k'\<close> by simp
    ultimately show ?thesis using a b by simp
  qed
qed

lemma accepted_increasing:
  "sorted_wrt (<) (map key (accepted adv ss r)) \<and>
   (\<forall>k v. content r = Some (k, v) \<longrightarrow> (\<forall>s \<in> set (accepted adv ss r). k < key s))"
proof (induction ss arbitrary: r)
  case Nil
  then show ?case by simp
next
  case (Cons x ss)
  show ?case
  proof (cases rule: adv_cases [of x r])
    case (taken r')
    with Cons.IH [of r'] show ?thesis by (auto dest: taken(3))
  next
    case (kept k v)
    with Cons.IH [of r] show ?thesis by simp
  qed
qed

lemma accepted_once: "distinct (map key (accepted adv ss r))"
  using accepted_increasing [of ss r] by (simp add: strict_sorted_iff)

end

section \<open>The register refines a last-writer-wins register\<close>

definition row_key :: "register_row \<Rightarrow> int \<times> string" where
  "row_key row = (row_at row, row_by row)"

definition register_content :: "register \<Rightarrow> ((int \<times> string) \<times> string) option" where
  "register_content reg = map_option (\<lambda>row. (row_key row, row_hash row)) reg"

interpretation active_register: lww_register row_key row_hash register_content cas_row
  by unfold_locales
     (auto simp: register_content_def row_key_def cas_row_def Let_def less_prod_def less_eq_prod_def
       split: option.splits)

text \<open>What the register says of the active content.\<close>

definition active_of :: "register \<Rightarrow> active_state option" where
  "active_of reg =
     map_option (\<lambda>row. \<lparr>act_hash = row_hash row, act_entry = row_entry row,
                        act_at = row_at row, act_by = row_by row\<rparr>) reg"

definition state_row :: "active_state \<Rightarrow> byte list option \<Rightarrow> register_row" where
  "state_row s env = \<lparr>row_hash = act_hash s, row_entry = act_entry s, row_at = act_at s,
                      row_by = act_by s, row_envelope = env\<rparr>"

lemma state_row_simps [simp]:
  "row_hash (state_row s env) = act_hash s" "row_entry (state_row s env) = act_entry s"
  "row_at (state_row s env) = act_at s" "row_by (state_row s env) = act_by s"
  "row_envelope (state_row s env) = env" "row_key (state_row s env) = (act_at s, act_by s)"
  by (simp_all add: state_row_def row_key_def)

lemma supersedes_key:
  "supersedes s t \<longleftrightarrow> (act_at t, act_by t) < (act_at s, act_by s)"
  by (auto simp: supersedes_def less_prod_def)

lemma cas_row_state:
  "cas_row (state_row s env) reg =
     (if (case active_of reg of None \<Rightarrow> True | Some cur \<Rightarrow> supersedes s cur)
      then (True, Some (state_row s
              (case env of Some ct \<Rightarrow> Some ct
               | None \<Rightarrow> (case reg of None \<Rightarrow> None | Some row \<Rightarrow> row_envelope row))))
      else (False, reg))"
  by (auto simp: cas_row_def active_of_def supersedes_def state_row_def Let_def
      split: option.splits)

lemma active_of_state_row [simp]: "active_of (Some (state_row s env)) = Some s"
  by (simp add: active_of_def state_row_def)

text \<open>The key derivation, the encoder and the AEAD work: nothing fails while sealing.\<close>

definition seal_ready :: "cipher_prims \<Rightarrow> bool" where
  "seal_ready C \<longleftrightarrow>
     (\<exists>key. register_cipher C = Inr key \<and> length key = 32) \<and>
     (\<forall>r. ref_enc C r \<noteq> None) \<and> (\<forall>k n p a. aead_seal C k n p a \<noteq> None)"

lemma seal_ready_Inr:
  assumes "seal_ready C"
  shows "\<exists>env. seal_for_register C nonce r = Inr env"
proof -
  from assms obtain key where key: "register_cipher C = Inr key" "length key = 32"
    by (auto simp: seal_ready_def)
  from assms obtain pt where pt: "ref_enc C r = Some pt"
    by (meson seal_ready_def not_None_eq)
  from assms obtain ct where "aead_seal C key nonce pt envelope_aad = Some ct"
    by (meson seal_ready_def not_None_eq)
  with key pt show ?thesis
    by (simp add: seal_for_register_def seal_ref_def encrypt_xchacha_raw_def)
qed

lemma advance_register_cases:
  obtains (refused) e where "advance_register C nonce fail s mc reg = (Inl e, reg)"
  | (ran) env where "fail = None" "mc \<longleftrightarrow> env \<noteq> None"
      "mc \<Longrightarrow> \<exists>ct. env = Some ct \<and>
         seal_for_register C nonce \<lparr>ref_hash = act_hash s, ref_entry = act_entry s\<rparr> = Inr ct"
      "advance_register C nonce fail s mc reg =
         (Inr (fst (cas_row (state_row s env) reg)), snd (cas_row (state_row s env) reg))"
  by (cases mc; cases fail;
      cases "seal_for_register C nonce \<lparr>ref_hash = act_hash s, ref_entry = act_entry s\<rparr>")
     (auto simp: advance_register_def state_row_def split_beta)

text \<open>The abstract register: the current activation, replaced by one that supersedes it.\<close>

definition spec_advance :: "active_state \<Rightarrow> active_state option \<Rightarrow> bool \<times> active_state option" where
  "spec_advance s cur =
     (if (case cur of None \<Rightarrow> True | Some c \<Rightarrow> supersedes s c) then (True, Some s)
      else (False, cur))"

lemma advance_register_active:
  assumes "advance_register C nonce fail s mc reg = (res, reg')"
  shows "(case res of
            Inl _ \<Rightarrow> reg' = reg
          | Inr b \<Rightarrow> spec_advance s (active_of reg) = (b, active_of reg'))"
proof (cases rule: advance_register_cases [of C nonce fail s mc reg])
  case (refused e)
  with assms show ?thesis by auto
next
  case (ran env)
  with assms show ?thesis by (auto simp: cas_row_state spec_advance_def split: if_splits)
qed

lemma advance_register_ready:
  assumes "seal_ready C"
  shows "\<exists>b. fst (advance_register C nonce None s mc reg) = Inr b"
  using seal_ready_Inr [OF assms, of nonce "\<lparr>ref_hash = act_hash s, ref_entry = act_entry s\<rparr>"]
  by (auto simp: advance_register_def split: prod.splits)

lemma advance_register_not_consumable:
  "advance_register C nonce None s False reg =
     (Inr (fst (cas_row (state_row s None) reg)), snd (cas_row (state_row s None) reg))"
  by (simp add: advance_register_def state_row_def split_beta)

text \<open>Nothing an advance does moves the register back.\<close>

lemma advance_register_mono:
  assumes "active_of reg = Some a"
    and "advance_register C nonce fail s mc reg = (res, reg')"
  shows "\<exists>b. active_of reg' = Some b \<and> (b = a \<or> supersedes b a)"
  using advance_register_active [OF assms(2)] assms(1)
  by (cases "active_of reg'") (auto simp: spec_advance_def split: sum.splits if_splits)

lemma supersedes_trans: "\<lbrakk>supersedes a b; supersedes b c\<rbrakk> \<Longrightarrow> supersedes a c"
  by (auto simp: supersedes_key intro: less_trans)

lemma supersedes_asym: "supersedes a b \<Longrightarrow> \<not> supersedes b a"
  by (auto simp: supersedes_key dest: order.asym)

lemma supersedes_total: "supersedes a b \<or> supersedes b a \<or> (act_at a, act_by a) = (act_at b, act_by b)"
  by (simp only: supersedes_key) (metis linorder_less_linear)

section \<open>Convergence\<close>

text \<open>A replica receives activations, each with the nonce and the consumability it finds.\<close>

type_synonym delivery = "active_state \<times> byte list \<times> bool"

fun deliver_all :: "cipher_prims \<Rightarrow> delivery list \<Rightarrow> register \<Rightarrow> register" where
  "deliver_all C [] reg = reg"
| "deliver_all C ((s, nonce, mc) # ds) reg =
     deliver_all C ds (snd (advance_register C nonce None s mc reg))"

fun deliver_accepted :: "cipher_prims \<Rightarrow> delivery list \<Rightarrow> register \<Rightarrow> active_state list" where
  "deliver_accepted C [] reg = []"
| "deliver_accepted C ((s, nonce, mc) # ds) reg =
     (case advance_register C nonce None s mc reg of
        (Inr True, reg') \<Rightarrow> s # deliver_accepted C ds reg'
      | (_, reg') \<Rightarrow> deliver_accepted C ds reg')"

definition wire_of :: "active_state \<Rightarrow> (int \<times> string) \<times> string" where
  "wire_of s = ((act_at s, act_by s), act_hash s)"

lemma deliver_all_rows:
  assumes "seal_ready C"
  shows "\<exists>rows. deliver_all C ds reg = advance_seq cas_row rows reg \<and>
           map (\<lambda>row. (row_key row, row_hash row)) rows = map (wire_of \<circ> fst) ds \<and>
           map row_key (accepted cas_row rows reg) =
             map (\<lambda>s. (act_at s, act_by s)) (deliver_accepted C ds reg)"
  using assms
proof (induction C ds reg rule: deliver_all.induct)
  case (1 C reg)
  then show ?case by (intro exI [of _ "[]"]) simp
next
  case (2 C s nonce mc ds reg)
  show ?case
  proof (cases rule: advance_register_cases [of C nonce None s mc reg])
    case (refused e)
    then show ?thesis using advance_register_ready [OF "2.prems", of nonce s mc reg] by simp
  next
    case (ran env)
    from 2 obtain rows where
      "deliver_all C ds (snd (advance_register C nonce None s mc reg)) =
         advance_seq cas_row rows (snd (advance_register C nonce None s mc reg))"
      "map (\<lambda>row. (row_key row, row_hash row)) rows = map (wire_of \<circ> fst) ds"
      "map row_key (accepted cas_row rows (snd (advance_register C nonce None s mc reg))) =
         map (\<lambda>s. (act_at s, act_by s))
           (deliver_accepted C ds (snd (advance_register C nonce None s mc reg)))"
      by auto
    with ran(4) show ?thesis
      by (intro exI [of _ "state_row s env # rows"])
         (auto simp: wire_of_def split: prod.split bool.split)
  qed
qed

lemma register_content_active:
  "register_content reg = map_option wire_of (active_of reg)"
  by (cases reg) (simp_all add: register_content_def active_of_def wire_of_def row_key_def)

lemma deliver_all_converges:
  assumes ready: "seal_ready C" "seal_ready D"
    and same: "(wire_of \<circ> fst) ` set xs = (wire_of \<circ> fst) ` set ys"
    and func: "\<And>s t. \<lbrakk>s \<in> fst ` set xs; t \<in> fst ` set xs; act_at s = act_at t; act_by s = act_by t\<rbrakk>
                  \<Longrightarrow> act_hash s = act_hash t"
  shows "map_option wire_of (active_of (deliver_all C xs None)) =
         map_option wire_of (active_of (deliver_all D ys None))"
proof -
  let ?w = "\<lambda>row. (row_key row, row_hash row)"
  from deliver_all_rows [OF ready(1), of xs None] obtain rs where
    rs: "deliver_all C xs None = advance_seq cas_row rs None" "map ?w rs = map (wire_of \<circ> fst) xs"
    by blast
  from deliver_all_rows [OF ready(2), of ys None] obtain qs where
    qs: "deliver_all D ys None = advance_seq cas_row qs None" "map ?w qs = map (wire_of \<circ> fst) ys"
    by blast
  have sets: "?w ` set rs = (wire_of \<circ> fst) ` set xs" "?w ` set qs = (wire_of \<circ> fst) ` set ys"
    using arg_cong [OF rs(2), of set] arg_cong [OF qs(2), of set] by simp_all
  have hash: "row_hash r = row_hash q" if "r \<in> set rs" "q \<in> set rs" "row_key r = row_key q" for r q
  proof -
    from imageI [OF that(1), of ?w] obtain s where s: "s \<in> fst ` set xs" "?w r = wire_of s"
      by (auto simp: sets(1))
    from imageI [OF that(2), of ?w] obtain t where t: "t \<in> fst ` set xs" "?w q = wire_of t"
      by (auto simp: sets(1))
    from func [OF s(1) t(1)] s(2) t(2) that(3) show ?thesis by (simp add: wire_of_def)
  qed
  have keys: "?w ` set rs = ?w ` set qs" by (simp only: sets same)
  have empty: "register_content None = None" by (simp add: register_content_def)
  have "register_content (advance_seq cas_row rs None) = register_content (advance_seq cas_row qs None)"
    by (rule active_register.seq_converges [OF keys hash empty empty])
  then show ?thesis by (simp only: rs qs register_content_active)
qed

lemma deliver_accepted_once:
  assumes "seal_ready C"
  shows "distinct (map (\<lambda>s. (act_at s, act_by s)) (deliver_accepted C ds reg))"
proof -
  from deliver_all_rows [OF assms, of ds reg] obtain rows where
    "map row_key (accepted cas_row rows reg) =
       map (\<lambda>s. (act_at s, act_by s)) (deliver_accepted C ds reg)" by blast
  with active_register.accepted_once [of rows reg] show ?thesis by simp
qed

section \<open>The mobile-consumable reference\<close>

definition envelope_of :: "register \<Rightarrow> byte list option" where
  "envelope_of reg = (case reg of None \<Rightarrow> None | Some row \<Rightarrow> row_envelope row)"

lemma envelope_of_simps [simp]:
  "envelope_of None = None" "envelope_of (Some row) = row_envelope row"
  by (simp_all add: envelope_of_def)

text \<open>The reference a phone is served: the content of an envelope that opens.\<close>

definition served_ref :: "cipher_prims \<Rightarrow> register \<Rightarrow> consumable_ref option" where
  "served_ref C reg =
     (case envelope_of reg of
        None \<Rightarrow> None
      | Some ct \<Rightarrow>
          (case register_cipher C of
             Inl _ \<Rightarrow> None
           | Inr key \<Rightarrow> (case open_ref C key ct of Inl _ \<Rightarrow> None | Inr r \<Rightarrow> Some r)))"

lemma load_mobile_result:
  "register_cipher C = Inr key \<Longrightarrow>
   fst (load_mobile_consumable C None fail_clear between reg) = Inr (served_ref C reg)"
  by (auto simp: load_mobile_consumable_def served_ref_def envelope_of_def
      split: option.splits sum.splits)

lemma load_mobile_state:
  "snd (load_mobile_consumable C fail_read fail_clear between reg) = between reg \<or>
   (\<exists>ct key. register_cipher C = Inr key \<and> envelope_of reg = Some ct \<and>
      (\<exists>e. open_ref C key ct = Inl e) \<and>
      snd (load_mobile_consumable C fail_read fail_clear between reg) =
        clear_envelope ct (between reg))"
  by (auto simp: load_mobile_consumable_def envelope_of_def split: option.splits sum.splits)

lemma served_clear_envelope:
  assumes "register_cipher C = Inr key" "open_ref C key ct = Inl e"
  shows "served_ref C (clear_envelope ct reg) = served_ref C reg"
  using assms by (auto simp: clear_envelope_def served_ref_def split: option.splits)

text \<open>Discarding an unreadable envelope never loses one that a concurrent writer put there.\<close>

lemma load_mobile_keeps_readable:
  "served_ref C (snd (load_mobile_consumable C fail_read fail_clear between reg)) =
   served_ref C (between reg)"
  using load_mobile_state [of C fail_read fail_clear between reg] served_clear_envelope [of C]
  by auto

lemma active_of_clear_envelope [simp]: "active_of (clear_envelope ct reg) = active_of reg"
  by (auto simp: clear_envelope_def active_of_def split: option.splits)

lemma load_mobile_keeps_active:
  "active_of (snd (load_mobile_consumable C fail_read fail_clear between reg)) =
   active_of (between reg)"
  using load_mobile_state [of C fail_read fail_clear between reg] by auto

text \<open>What the envelope relies on of the third-party code: what is sealed opens again.\<close>

definition cipher_sound :: "cipher_prims \<Rightarrow> bool" where
  "cipher_sound C \<longleftrightarrow>
     (\<forall>k n p a ct. aead_seal C k n p a = Some ct \<longrightarrow> aead_open C k n ct a = Some p) \<and>
     (\<forall>r b. ref_enc C r = Some b \<longrightarrow> ref_dec C b = Some r)"

lemma length_envelope_magic [simp]: "length envelope_magic = 4"
  by (simp add: envelope_magic_def)

lemma open_seal_ref:
  assumes "cipher_sound C" "length nonce = nonce_len" "seal_ref C nonce key r = Inr env"
  shows "open_ref C key env = Inr r"
proof -
  from assms(3) obtain pt ct where *: "ref_enc C r = Some pt" "length key = 32"
    "aead_seal C key nonce pt envelope_aad = Some ct"
    and env: "env = envelope_magic @ [envelope_version] @ nonce @ ct"
    by (auto simp: seal_ref_def encrypt_xchacha_raw_def split: option.splits if_splits)
  from assms(1) * have "aead_open C key nonce ct envelope_aad = Some pt" "ref_dec C pt = Some r"
    by (auto simp: cipher_sound_def)
  with * assms(2) show ?thesis
    by (simp add: open_ref_def env header_len_def nonce_len_def decrypt_xchacha_raw_def
        nth_append)
qed

text \<open>An envelope with a byte changed in magic or version is refused, as is a short one.\<close>

lemma open_ref_header:
  "open_ref C key env = Inr r \<Longrightarrow>
   header_len \<le> length env \<and> take 4 env = envelope_magic \<and> env ! 4 = envelope_version"
  by (auto simp: open_ref_def Let_def split: if_splits)

lemma seal_for_register_opens:
  assumes "cipher_sound C" "length nonce = nonce_len" "seal_for_register C nonce r = Inr env"
  shows "\<exists>key. register_cipher C = Inr key \<and> open_ref C key env = Inr r"
  using assms open_seal_ref [OF assms(1,2)]
  by (auto simp: seal_for_register_def split: sum.splits)

definition state_ref :: "active_state \<Rightarrow> consumable_ref" where
  "state_ref s = \<lparr>ref_hash = act_hash s, ref_entry = act_entry s\<rparr>"

text \<open>The abstract pair of the active content and the reference served to phones.\<close>

definition spec_consumable ::
  "active_state \<Rightarrow> bool \<Rightarrow> active_state option \<times> consumable_ref option \<Rightarrow>
   active_state option \<times> consumable_ref option" where
  "spec_consumable s mc cur =
     (case spec_advance s (fst cur) of
        (True, a) \<Rightarrow> (a, if mc then Some (state_ref s) else snd cur)
      | (False, _) \<Rightarrow> cur)"

definition register_abs ::
  "cipher_prims \<Rightarrow> register \<Rightarrow> active_state option \<times> consumable_ref option" where
  "register_abs C reg = (active_of reg, served_ref C reg)"

lemma served_state_row_None:
  "served_ref C (Some (state_row s (case reg of None \<Rightarrow> None | Some row \<Rightarrow> row_envelope row))) =
   served_ref C reg"
  by (simp add: served_ref_def envelope_of_def)

lemma advance_register_refines:
  assumes "cipher_sound C" "length nonce = nonce_len"
    and "advance_register C nonce fail s mc reg = (Inr b, reg')"
  shows "register_abs C reg' = spec_consumable s mc (register_abs C reg)"
proof (cases rule: advance_register_cases [of C nonce fail s mc reg])
  case (refused e)
  with assms show ?thesis by simp
next
  case (ran env)
  show ?thesis
  proof (cases env)
    case None
    with ran assms(3) show ?thesis
      by (auto simp: register_abs_def spec_consumable_def spec_advance_def cas_row_state
          served_state_row_None split: if_splits)
  next
    case (Some ct)
    with ran have mc: mc
      "seal_for_register C nonce \<lparr>ref_hash = act_hash s, ref_entry = act_entry s\<rparr> = Inr ct"
      by auto
    from seal_for_register_opens [OF assms(1,2) mc(2)]
    have "served_ref C (Some (state_row s (Some ct))) = Some (state_ref s)"
      by (auto simp: served_ref_def state_ref_def)
    with Some ran assms(3) mc(1) show ?thesis
      by (auto simp: register_abs_def spec_consumable_def spec_advance_def cas_row_state
          split: if_splits)
  qed
qed

lemma backfill_execute_served:
  assumes "cipher_sound C" "length nonce = nonce_len"
    and "backfill_execute C nonce f1 f2 file_sets reg = Done (Inr b, reg')"
  shows "active_of reg' = active_of reg \<and>
    (if b then \<exists>s. active_of reg = Some s \<and> envelope_of reg = None \<and>
                is_mobile_consumable file_sets (act_entry s) \<and>
                served_ref C reg' = Some (state_ref s)
     else reg' = reg)"
  using assms(3) seal_for_register_opens [OF assms(1,2)]
  by (fastforce simp: backfill_execute_def load_register_def backfill_if_current_def
      active_of_def served_ref_def state_ref_def device_id_new_def
      split: option.splits sum.splits if_splits run.splits)

section \<open>Loading never panics\<close>

definition register_wf :: "register \<Rightarrow> bool" where
  "register_wf reg =
     (case reg of None \<Rightarrow> True | Some row \<Rightarrow> length (row_by row) \<le> device_id_max_bytes)"

lemma load_register_wf:
  "register_wf reg \<Longrightarrow> load_register None reg = Done (Inr (active_of reg))"
  by (auto simp: load_register_def register_wf_def device_id_new_def active_of_def
      split: option.splits)

lemma register_wf_advance:
  assumes "register_wf reg" "length (act_by s) \<le> device_id_max_bytes"
  shows "register_wf (snd (advance_register C nonce fail s mc reg))"
  by (cases rule: advance_register_cases [of C nonce fail s mc reg])
     (use assms in \<open>auto simp: cas_row_state register_wf_def\<close>)

lemma register_wf_load_mobile:
  "register_wf (between reg) \<Longrightarrow>
   register_wf (snd (load_mobile_consumable C f1 f2 between reg))"
  using load_mobile_state [of C f1 f2 between reg]
  by (auto simp: register_wf_def clear_envelope_def split: option.splits if_splits)

lemma register_wf_backfill:
  "register_wf reg \<Longrightarrow> register_wf (snd (backfill_if_current C nonce fail r reg))"
  by (auto simp: backfill_if_current_def register_wf_def split: option.splits sum.splits)

lemma register_wf_reset: "register_wf reg \<Longrightarrow> register_wf (snd (reset_register fail reg))"
  by (auto simp: reset_register_def register_wf_def split: option.splits)

text \<open>The operations of the repository as a step relation.\<close>

inductive register_step :: "cipher_prims \<Rightarrow> register \<Rightarrow> register \<Rightarrow> bool" for C where
  advance: "device_id_new by_id = Done (act_by s) \<Longrightarrow>
     register_step C reg (snd (advance_register C nonce fail s mc reg))"
| reset: "register_step C reg (snd (reset_register fail reg))"
| load_mobile: "register_step C reg (snd (load_mobile_consumable C f1 f2 id reg))"
| backfill: "register_step C reg (snd (backfill_if_current C nonce fail r reg))"

inductive register_reach :: "cipher_prims \<Rightarrow> register \<Rightarrow> bool" for C where
  start: "register_reach C None"
| step: "\<lbrakk>register_reach C reg; register_step C reg reg'\<rbrakk> \<Longrightarrow> register_reach C reg'"

lemma register_wf_step: "\<lbrakk>register_step C reg reg'; register_wf reg\<rbrakk> \<Longrightarrow> register_wf reg'"
  by (induction rule: register_step.induct)
     (auto simp: device_id_new_def register_wf_advance register_wf_reset register_wf_load_mobile
       register_wf_backfill split: if_splits)

lemma register_reach_wf: "register_reach C reg \<Longrightarrow> register_wf reg"
proof (induction rule: register_reach.induct)
  case start
  then show ?case by (simp add: register_wf_def)
next
  case (step reg reg')
  from register_wf_step [OF step.hyps(2) step.IH] show ?case .
qed

section \<open>Local writes\<close>

lemma advance_local_latest:
  assumes "seal_ready C"
    and "\<And>a. active_of reg = Some a \<Longrightarrow> act_at a < now \<or> (act_at a = now \<and> act_by a < device)"
    and "advance_local C nonce None file_sets now device hash entry reg = (s, reg')"
  shows "active_of reg' = Some s"
proof -
  let ?s = "\<lparr>act_hash = hash, act_entry = entry, act_at = now, act_by = device\<rparr>"
  obtain res reg1 where adv1:
    "advance_register C nonce None ?s (is_mobile_consumable file_sets entry) reg = (res, reg1)"
    by (cases "advance_register C nonce None ?s (is_mobile_consumable file_sets entry) reg")
  with assms(3) have s: "s = ?s" and adv:
    "advance_register C nonce None ?s (is_mobile_consumable file_sets entry) reg = (res, reg')"
    by (simp_all add: advance_local_def Let_def)
  obtain b where b: "res = Inr b"
    using advance_register_ready [OF assms(1), of nonce ?s
        "is_mobile_consumable file_sets entry" reg] adv by auto
  have "case active_of reg of None \<Rightarrow> True | Some c \<Rightarrow> supersedes ?s c"
    using assms(2) by (auto simp: supersedes_def split: option.splits)
  with advance_register_active [OF adv] show ?thesis
    by (simp add: b s spec_advance_def)
qed

text \<open>With a register that holds a later key the local write is not the latest writer.\<close>

lemma advance_local_not_latest:
  assumes "active_of reg = Some a" "now < act_at a"
  shows "active_of (snd (advance_local C nonce fail file_sets now device hash entry reg)) = Some a"
proof -
  let ?s = "\<lparr>act_hash = hash, act_entry = entry, act_at = now, act_by = device\<rparr>"
  obtain res reg' where adv:
    "advance_register C nonce fail ?s (is_mobile_consumable file_sets entry) reg = (res, reg')"
    by (cases "advance_register C nonce fail ?s (is_mobile_consumable file_sets entry) reg")
  from advance_register_active [OF adv] assms adv show ?thesis
    by (auto simp: advance_local_def spec_advance_def supersedes_def split: sum.splits)
qed

end
