(* ===== verification/Active_Inbound.thy ===== *)
theory Active_Inbound
  imports Active_Register
begin

text \<open>
  What a device does with an activation another device announced, and with its own register at
  start-up: \<^verbatim>\<open>uc-application/usecases/clipboard_sync\<close>, files
  \<^verbatim>\<open>active_state/{apply_inbound,fanout,reconcile}.rs\<close>,
  \<^verbatim>\<open>{send_gate,receive_gate}.rs\<close> and \<^verbatim>\<open>dispatch_entry/target_selector.rs\<close>.

  The ports a use case calls are fields of \<open>inbound_env\<close>, functions from the port's arguments
  to its result (\<open>Inl\<close> an error). Ports may answer differently each time, so every step of
  the machine takes an environment of its own. Logging has no counterpart.
\<close>

section \<open>Member gates\<close>

record member =
  send_enabled :: bool
  receive_enabled :: bool
  send_content_types :: content_types
  receive_content_types :: content_types

type_synonym member_repo = "string \<Rightarrow> string + member option"

definition is_send_allowed :: "member_repo \<Rightarrow> string \<Rightarrow> category_set \<Rightarrow> bool" where
  "is_send_allowed repo peer categories =
     (case repo peer of
        Inr (Some m) \<Rightarrow>
          if \<not> send_enabled m then False
          else if \<not> cats_allowed_by categories (send_content_types m) then False
          else True
      | Inr None \<Rightarrow> True
      | Inl _ \<Rightarrow> True)"

definition is_receive_allowed :: "member_repo \<Rightarrow> string \<Rightarrow> bool" where
  "is_receive_allowed repo peer =
     (case repo peer of
        Inr (Some m) \<Rightarrow> if \<not> receive_enabled m then False else True
      | Inr None \<Rightarrow> True
      | Inl _ \<Rightarrow> True)"

definition is_receive_category_allowed :: "member_repo \<Rightarrow> string \<Rightarrow> category_set \<Rightarrow> bool" where
  "is_receive_category_allowed repo peer categories =
     (case repo peer of
        Inr (Some m) \<Rightarrow>
          if \<not> cats_allowed_by categories (receive_content_types m) then False else True
      | Inr None \<Rightarrow> True
      | Inl _ \<Rightarrow> True)"

section \<open>Fan-out\<close>

datatype reachability = Online | Offline | UnknownReach

text \<open>The peers \<^verbatim>\<open>dispatch\<close> is called for, in order; its errors are isolated per peer.\<close>

definition send_active_state_to :: "member_repo \<Rightarrow> category_set \<Rightarrow> string \<Rightarrow> string list" where
  "send_active_state_to repo categories target =
     (if \<not> is_send_allowed repo target categories then [] else [target])"

fun fan_out_loop ::
  "member_repo \<Rightarrow> (string \<Rightarrow> reachability) \<Rightarrow> active_state \<Rightarrow> category_set \<Rightarrow> string list \<Rightarrow> string list"
  where
  "fan_out_loop repo presence s categories [] = []"
| "fan_out_loop repo presence s categories (target # records) =
     (if target = act_by s then fan_out_loop repo presence s categories records
      else if presence target = Offline then fan_out_loop repo presence s categories records
      else send_active_state_to repo categories target @
           fan_out_loop repo presence s categories records)"

definition fan_out_active_state ::
  "member_repo \<Rightarrow> (string \<Rightarrow> reachability) \<Rightarrow> string + string list \<Rightarrow> active_state \<Rightarrow> category_set \<Rightarrow>
   string list" where
  "fan_out_active_state repo presence peers s categories =
     (case peers of
        Inl _ \<Rightarrow> []
      | Inr records \<Rightarrow> fan_out_loop repo presence s categories records)"

text \<open>The targets of a full dispatch of an entry.\<close>

definition select_targets ::
  "member_repo \<Rightarrow> string + string list \<Rightarrow> string list option \<Rightarrow> category_set \<Rightarrow> string \<Rightarrow>
   string + string list" where
  "select_targets repo peers target_filter categories local_device =
     (case peers of
        Inl err \<Rightarrow> Inl (''peer_addr_repo.list: '' @ err)
      | Inr records \<Rightarrow>
          Inr (filter (\<lambda>d. d \<noteq> local_device \<and>
                 (case target_filter of None \<Rightarrow> True | Some ids \<Rightarrow> list_ex (\<lambda>x. x = d) ids) \<and>
                 is_send_allowed repo d categories) records))"

section \<open>Handling one announcement\<close>

record inbound_activation =
  in_peer :: string
  in_hash :: string
  in_entry :: string
  in_at :: int
  in_by :: string

datatype pull_error = Unreachable | NotAvailable | PullIo string

record inbound_env =
  unlocked :: bool
  now_ms :: int
  load_fail :: "string option"
  members :: member_repo
  entry_lookup :: "string \<Rightarrow> string + string option"
  availability :: "(string \<Rightarrow> string + bool) option"
  pull_client :: "(string \<Rightarrow> string \<Rightarrow> pull_error + byte list) option"
  content_store :: "(string \<Rightarrow> string \<Rightarrow> byte list \<Rightarrow> string + string) option"
  reconstruct :: "string \<Rightarrow> string + snapshot"
  file_set_of :: "string \<Rightarrow> string + file_set option"
  url_parser :: url_scheme
  peer_list :: "string + string list"
  presence_of :: "string \<Rightarrow> reachability"

definition future_timestamp_tolerance_ms :: int where
  "future_timestamp_tolerance_ms = 300000"

definition is_entry_available :: "inbound_env \<Rightarrow> string \<Rightarrow> bool" where
  "is_entry_available env entry =
     (case availability env of
        Some check \<Rightarrow> (case check entry of Inr b \<Rightarrow> b | Inl _ \<Rightarrow> False)
      | None \<Rightarrow> True)"

definition pull_and_store :: "inbound_env \<Rightarrow> string \<Rightarrow> string \<Rightarrow> string option" where
  "pull_and_store env peer hash =
     (case (pull_client env, content_store env) of
        (Some pull, Some store) \<Rightarrow>
          (case pull peer hash of
             Inl _ \<Rightarrow> None
           | Inr envelope \<Rightarrow>
               (case store peer hash envelope of Inr entry \<Rightarrow> Some entry | Inl _ \<Rightarrow> None))
      | _ \<Rightarrow> None)"

text \<open>The detached task that \<^verbatim>\<open>spawn_write_then_converge\<close> starts.\<close>

record write_task =
  task_snapshot :: snapshot
  task_state :: active_state
  task_categories :: category_set
  task_consumable :: bool

datatype drop_reason =
    SpaceLocked | LoadFailed | SameActivation | Stale | TooFarInFuture | ReceiveDisabled
  | LookupFailed | NotPulled | NotReconstructed | CategoryDenied

definition converge_with_entry ::
  "inbound_env \<Rightarrow> string \<Rightarrow> active_state \<Rightarrow> string \<Rightarrow> drop_reason + write_task" where
  "converge_with_entry env peer incoming entry =
     (case reconstruct env entry of
        Inl _ \<Rightarrow> Inl NotReconstructed
      | Inr snap \<Rightarrow>
          (let categories = categories_from_snapshot (url_parser env) snap in
           if \<not> is_receive_category_allowed (members env) peer categories then Inl CategoryDenied
           else Inr \<lparr>task_snapshot = snap,
                     task_state = \<lparr>act_hash = act_hash incoming, act_entry = entry,
                                   act_at = act_at incoming, act_by = act_by incoming\<rparr>,
                     task_categories = categories,
                     task_consumable = is_mobile_consumable (file_set_of env) entry\<rparr>))"

definition handle_one ::
  "inbound_env \<Rightarrow> inbound_activation \<Rightarrow> register \<Rightarrow> (drop_reason + write_task) run" where
  "handle_one env inbound reg =
     (let peer = in_peer inbound;
          incoming = \<lparr>act_hash = in_hash inbound, act_entry = in_entry inbound,
                      act_at = in_at inbound, act_by = in_by inbound\<rparr> in
      if \<not> unlocked env then Done (Inl SpaceLocked)
      else (case load_register (load_fail env) reg of
        Panic \<Rightarrow> Panic
      | Done (Inl _) \<Rightarrow> Done (Inl LoadFailed)
      | Done (Inr current) \<Rightarrow>
          if (case current of None \<Rightarrow> False | Some c \<Rightarrow> is_same_activation incoming c)
          then Done (Inl SameActivation)
          else if (case current of None \<Rightarrow> False | Some c \<Rightarrow> \<not> supersedes incoming c)
          then Done (Inl Stale)
          else if i64_wrap (now_ms env + future_timestamp_tolerance_ms) < act_at incoming
          then Done (Inl TooFarInFuture)
          else if \<not> is_receive_allowed (members env) peer then Done (Inl ReceiveDisabled)
          else (case (case entry_lookup env (act_hash incoming) of
                  Inl _ \<Rightarrow> Inl LookupFailed
                | Inr (Some entry) \<Rightarrow>
                    if is_entry_available env entry then Inr entry
                    else (case pull_and_store env peer (act_hash incoming) of
                            Some entry \<Rightarrow> Inr entry | None \<Rightarrow> Inl NotPulled)
                | Inr None \<Rightarrow>
                    (case pull_and_store env peer (act_hash incoming) of
                       Some entry \<Rightarrow> Inr entry | None \<Rightarrow> Inl NotPulled)) of
                  Inl r \<Rightarrow> Done (Inl r)
                | Inr entry \<Rightarrow> Done (converge_with_entry env peer incoming entry))))"

section \<open>The device as a state machine\<close>

text \<open>
  The receive loop and the detached tasks interleave: a task first writes the OS clipboard,
  later advances the register and announces the activation. The lists record, newest first,
  what was written, what converged since the register was last cleared, and what was
  announced to whom.
\<close>

datatype phase = ToWrite | Written

record node =
  n_reg :: register
  n_tasks :: "(phase \<times> write_task) list"
  n_written :: "active_state list"
  n_converged :: "active_state list"
  n_sent :: "(string \<times> active_state) list"

definition node_init :: "register \<Rightarrow> node" where
  "node_init reg = \<lparr>n_reg = reg, n_tasks = [], n_written = [], n_converged = [], n_sent = []\<rparr>"

definition recv_step :: "inbound_env \<Rightarrow> inbound_activation \<Rightarrow> node \<Rightarrow> node" where
  "recv_step env inbound n =
     (case handle_one env inbound (n_reg n) of
        Done (Inr task) \<Rightarrow> n\<lparr>n_tasks := n_tasks n @ [(ToWrite, task)]\<rparr>
      | _ \<Rightarrow> n)"

definition write_step :: "bool \<Rightarrow> nat \<Rightarrow> node \<Rightarrow> node" where
  "write_step os_ok i n =
     (if i < length (n_tasks n) \<and> fst (n_tasks n ! i) = ToWrite
      then if \<not> os_ok then n\<lparr>n_tasks := remove_index i (n_tasks n)\<rparr>
           else n\<lparr>n_tasks := (n_tasks n)[i := (Written, snd (n_tasks n ! i))],
                  n_written := task_state (snd (n_tasks n ! i)) # n_written n\<rparr>
      else n)"

definition advance_step ::
  "inbound_env \<Rightarrow> cipher_prims \<Rightarrow> byte list \<Rightarrow> string option \<Rightarrow> nat \<Rightarrow> node \<Rightarrow> node" where
  "advance_step env C nonce fail i n =
     (if i < length (n_tasks n) \<and> fst (n_tasks n ! i) = Written
      then (let t = snd (n_tasks n ! i); n' = n\<lparr>n_tasks := remove_index i (n_tasks n)\<rparr> in
        case advance_register C nonce fail (task_state t) (task_consumable t) (n_reg n) of
          (Inr True, reg') \<Rightarrow>
            n'\<lparr>n_reg := reg', n_converged := task_state t # n_converged n,
               n_sent := map (\<lambda>d. (d, task_state t))
                   (fan_out_active_state (members env) (presence_of env) (peer_list env)
                      (task_state t) (task_categories t)) @ n_sent n\<rparr>
        | (_, reg') \<Rightarrow> n'\<lparr>n_reg := reg'\<rparr>)
      else n)"

section \<open>Reconciliation at start-up\<close>

datatype reconcile_outcome = AlreadyEmpty | Kept | Cleared

text \<open>\<open>os\<close> is the OS clipboard as read, \<open>reset_fail\<close> a failure of the reset statement.\<close>

definition reconcile_run ::
  "hash_prims \<Rightarrow> file_system \<Rightarrow> string option \<Rightarrow> string option \<Rightarrow> (string \<Rightarrow> string + snapshot) \<Rightarrow>
   string + snapshot \<Rightarrow> register \<Rightarrow> (reconcile_outcome \<times> register) run" where
  "reconcile_run H files fail reset_fail recon os reg =
     (let cleared = (Cleared, snd (reset_register reset_fail reg)) in
      case load_register fail reg of
        Panic \<Rightarrow> Panic
      | Done (Inr None) \<Rightarrow> Done (AlreadyEmpty, reg)
      | Done (Inl _) \<Rightarrow> Done cleared
      | Done (Inr (Some stored)) \<Rightarrow>
          (case recon (act_entry stored) of
             Inl _ \<Rightarrow> Done cleared
           | Inr snap \<Rightarrow>
               (case snapshot_identity H files snap of
                  Panic \<Rightarrow> Panic
                | Done a \<Rightarrow>
                    (case os of
                       Inl _ \<Rightarrow> Done cleared
                     | Inr os_snap \<Rightarrow>
                         (case snapshot_identity H files os_snap of
                            Panic \<Rightarrow> Panic
                          | Done b \<Rightarrow>
                              if format_blake3v1 H a = format_blake3v1 H b then Done (Kept, reg)
                              else Done cleared)))))"

section \<open>Gates and fan-out\<close>

lemma fan_out_loop_set:
  "set (fan_out_loop repo presence s categories records) =
   {d \<in> set records. d \<noteq> act_by s \<and> presence d \<noteq> Offline \<and> is_send_allowed repo d categories}"
  by (induction records) (auto simp: send_active_state_to_def)

lemma fan_out_loop_filter:
  "fan_out_loop repo presence s categories records =
   filter (\<lambda>d. d \<noteq> act_by s \<and> presence d \<noteq> Offline \<and> is_send_allowed repo d categories) records"
  by (induction records) (auto simp: send_active_state_to_def)

lemma is_send_allowed_member:
  "repo d = Inr (Some m) \<Longrightarrow>
   is_send_allowed repo d cs \<longleftrightarrow> send_enabled m \<and> cats_allowed_by cs (send_content_types m)"
  by (simp add: is_send_allowed_def)

section \<open>An accepted announcement\<close>

lemma pull_and_store_SomeD:
  "pull_and_store env peer hash = Some e \<Longrightarrow>
   \<exists>pull store envelope. pull_client env = Some pull \<and> content_store env = Some store \<and>
     pull peer hash = Inr envelope \<and> store peer hash envelope = Inr e"
  by (auto simp: pull_and_store_def split: option.splits sum.splits)

definition entry_obtained :: "inbound_env \<Rightarrow> inbound_activation \<Rightarrow> string \<Rightarrow> bool" where
  "entry_obtained env inb e \<longleftrightarrow>
     (entry_lookup env (in_hash inb) = Inr (Some e) \<and> is_entry_available env e) \<or>
     ((entry_lookup env (in_hash inb) = Inr None \<or>
       (\<exists>i. entry_lookup env (in_hash inb) = Inr (Some i) \<and> \<not> is_entry_available env i)) \<and>
      pull_and_store env (in_peer inb) (in_hash inb) = Some e)"

lemma converge_with_entry_InrD:
  assumes "converge_with_entry env peer incoming e = Inr t"
  shows "reconstruct env e = Inr (task_snapshot t)"
    and "task_categories t = categories_from_snapshot (url_parser env) (task_snapshot t)"
    and "is_receive_category_allowed (members env) peer (task_categories t)"
    and "task_state t = incoming\<lparr>act_entry := e\<rparr>"
    and "task_consumable t = is_mobile_consumable (file_set_of env) e"
  using assms by (auto simp: converge_with_entry_def Let_def split: sum.splits if_splits)

lemma handle_one_accepted:
  assumes "handle_one env inb reg = Done (Inr t)"
  obtains e where "unlocked env" "entry_obtained env inb e"
    "is_receive_allowed (members env) (in_peer inb)"
    "in_at inb \<le> i64_wrap (now_ms env + future_timestamp_tolerance_ms)"
    "\<And>a. active_of reg = Some a \<Longrightarrow> supersedes (task_state t) a"
    "converge_with_entry env (in_peer inb)
       \<lparr>act_hash = in_hash inb, act_entry = in_entry inb, act_at = in_at inb, act_by = in_by inb\<rparr>
       e = Inr t"
proof -
  let ?in = "\<lparr>act_hash = in_hash inb, act_entry = in_entry inb, act_at = in_at inb,
    act_by = in_by inb\<rparr>"
  from assms have unlocked: "unlocked env"
    by (auto simp: handle_one_def Let_def split: if_splits)
  with assms obtain cur where cur: "load_register (load_fail env) reg = Done (Inr cur)"
    by (auto simp: handle_one_def Let_def split: run.splits sum.splits)
  then have active: "cur = active_of reg"
    by (auto simp: load_register_def active_of_def device_id_new_def
        split: option.splits run.splits if_splits)
  from assms unlocked cur have rest: "\<not> (case cur of None \<Rightarrow> False | Some c \<Rightarrow> \<not> supersedes ?in c)"
    "in_at inb \<le> i64_wrap (now_ms env + future_timestamp_tolerance_ms)"
    "is_receive_allowed (members env) (in_peer inb)"
    by (auto simp: handle_one_def Let_def not_less split: if_splits)
  from assms unlocked cur obtain e where e: "entry_obtained env inb e"
    "converge_with_entry env (in_peer inb) ?in e = Inr t"
    by (fastforce simp: handle_one_def Let_def entry_obtained_def
        split: if_splits sum.splits option.splits)
  have newer: "supersedes (task_state t) a" if "active_of reg = Some a" for a
    using rest(1) that converge_with_entry_InrD(4) [OF e(2)]
    by (auto simp: active supersedes_def split: if_splits)
  show thesis
    by (rule that [OF unlocked e(1) rest(3) rest(2) newer e(2)])
qed

section \<open>Reachable nodes\<close>

inductive node_step :: "cipher_prims \<Rightarrow> node \<Rightarrow> node \<Rightarrow> bool" for C where
  recv: "device_id_new raw = Done (in_by inb) \<Longrightarrow> node_step C n (recv_step env inb n)"
| os_write: "node_step C n (write_step os_ok i n)"
| advance: "node_step C n (advance_step env C nonce fail i n)"
| local: "device_id_new raw = Done device \<Longrightarrow>
     node_step C n (n\<lparr>n_reg := snd (advance_local C nonce fail fs now device hash entry (n_reg n))\<rparr>)"
| reset: "node_step C n (n\<lparr>n_reg := snd (reset_register fail (n_reg n)),
     n_converged := (if fail = None then [] else n_converged n)\<rparr>)"
| mobile: "node_step C n (n\<lparr>n_reg := snd (load_mobile_consumable C f1 f2 id (n_reg n))\<rparr>)"
| backfill: "node_step C n (n\<lparr>n_reg := snd (backfill_if_current C nonce fail r (n_reg n))\<rparr>)"

inductive node_reach :: "cipher_prims \<Rightarrow> node \<Rightarrow> node \<Rightarrow> bool" for C n0 where
  start: "node_reach C n0 n0"
| step: "\<lbrakk>node_reach C n0 n; node_step C n n'\<rbrakk> \<Longrightarrow> node_reach C n0 n'"

definition dominated :: "active_state list \<Rightarrow> register \<Rightarrow> bool" where
  "dominated ss reg \<longleftrightarrow>
     (\<forall>s \<in> set ss. \<exists>a. active_of reg = Some a \<and> (a = s \<or> supersedes a s))"

definition tasks_ok :: "(phase \<times> write_task) list \<Rightarrow> active_state list \<Rightarrow> bool" where
  "tasks_ok ts written \<longleftrightarrow>
     (\<forall>(p, t) \<in> set ts. length (act_by (task_state t)) \<le> device_id_max_bytes \<and>
        (p = Written \<longrightarrow> task_state t \<in> set written))"

definition node_inv :: "node \<Rightarrow> bool" where
  "node_inv n \<longleftrightarrow>
     register_wf (n_reg n) \<and> tasks_ok (n_tasks n) (n_written n) \<and>
     sorted_wrt supersedes (n_converged n) \<and> dominated (n_converged n) (n_reg n) \<and>
     set (n_converged n) \<subseteq> set (n_written n) \<and>
     (\<forall>(d, s) \<in> set (n_sent n). d \<noteq> act_by s \<and> s \<in> set (n_written n))"

lemma node_inv_init: "register_wf reg \<Longrightarrow> node_inv (node_init reg)"
  by (simp add: node_inv_def node_init_def tasks_ok_def dominated_def)

lemma tasks_ok_remove: "tasks_ok ts w \<Longrightarrow> tasks_ok (remove_index i ts) w"
  using set_remove_index [of i ts] by (fastforce simp: tasks_ok_def)

lemma dominated_mono:
  assumes "dominated ss reg"
    and "\<And>a. active_of reg = Some a \<Longrightarrow> \<exists>b. active_of reg' = Some b \<and> (b = a \<or> supersedes b a)"
  shows "dominated ss reg'"
  unfolding dominated_def
proof
  fix s assume "s \<in> set ss"
  with assms(1) obtain a where a: "active_of reg = Some a" "a = s \<or> supersedes a s"
    by (auto simp: dominated_def)
  from assms(2) [OF a(1)] obtain b where "active_of reg' = Some b" "b = a \<or> supersedes b a" by auto
  with a(2) show "\<exists>a. active_of reg' = Some a \<and> (a = s \<or> supersedes a s)"
    by (auto intro: supersedes_trans)
qed

lemma dominated_advance:
  "dominated ss reg \<Longrightarrow> dominated ss (snd (advance_register C nonce fail s mc reg))"
  by (erule dominated_mono) (erule advance_register_mono, rule surjective_pairing)

lemma device_id_new_Done: "device_id_new raw = Done d \<longleftrightarrow> d = raw \<and> length d \<le> device_id_max_bytes"
  by (auto simp: device_id_new_def)

lemma node_inv_recv:
  assumes "node_inv n" "length (in_by inb) \<le> device_id_max_bytes"
  shows "node_inv (recv_step env inb n)"
proof (cases "\<exists>t. handle_one env inb (n_reg n) = Done (Inr t)")
  case True
  then obtain t where t: "handle_one env inb (n_reg n) = Done (Inr t)" by auto
  from t have "act_by (task_state t) = in_by inb"
    by (rule handle_one_accepted) (auto dest: converge_with_entry_InrD)
  with assms t show ?thesis by (auto simp: node_inv_def recv_step_def tasks_ok_def)
next
  case False
  with assms(1) show ?thesis by (auto simp: recv_step_def split: run.splits sum.splits)
qed

lemma tasks_ok_written:
  assumes "tasks_ok ts w" "i < length ts"
  shows "tasks_ok (ts[i := (Written, snd (ts ! i))]) (task_state (snd (ts ! i)) # w)"
proof -
  have mem: "(fst (ts ! i), snd (ts ! i)) \<in> set ts" using assms(2) by simp
  then have "length (act_by (task_state (snd (ts ! i)))) \<le> device_id_max_bytes"
    using assms(1) unfolding tasks_ok_def by blast
  with assms(1) set_update_subset_insert [of ts i "(Written, snd (ts ! i))"]
  show ?thesis unfolding tasks_ok_def by fastforce
qed

lemma node_inv_write:
  assumes "node_inv n"
  shows "node_inv (write_step os_ok i n)"
  using assms tasks_ok_written [of "n_tasks n" "n_written n" i]
  by (auto simp: node_inv_def write_step_def tasks_ok_remove)

lemma node_inv_advance:
  assumes inv: "node_inv n"
  shows "node_inv (advance_step env C nonce fail i n)"
proof (cases "i < length (n_tasks n) \<and> fst (n_tasks n ! i) = Written")
  case False
  with inv show ?thesis by (auto simp: advance_step_def)
next
  case True
  define t where "t = snd (n_tasks n ! i)"
  have mem: "(Written, t) \<in> set (n_tasks n)"
    using True nth_mem [of i "n_tasks n"] by (metis prod.collapse t_def)
  with inv have t: "task_state t \<in> set (n_written n)"
    "length (act_by (task_state t)) \<le> device_id_max_bytes"
    by (auto simp: node_inv_def tasks_ok_def)
  obtain res reg' where adv: "advance_register C nonce fail (task_state t) (task_consumable t) (n_reg n)
      = (res, reg')" by fastforce
  have wf: "register_wf reg'"
    using register_wf_advance [of "n_reg n" "task_state t"] inv t adv
    by (metis node_inv_def snd_conv)
  have dom: "dominated (n_converged n) reg'"
    using dominated_advance [of "n_converged n" "n_reg n"] inv adv
    by (metis node_inv_def snd_conv)
  have tasks: "tasks_ok (remove_index i (n_tasks n)) (n_written n)"
    using inv by (simp add: node_inv_def tasks_ok_remove)
  show ?thesis
  proof (cases "res = Inr True")
    case False
    with True adv inv wf dom tasks show ?thesis
      by (auto simp: advance_step_def Let_def t_def [symmetric] node_inv_def
          split: sum.splits bool.splits)
  next
    case ok: True
    from advance_register_active [OF adv] ok
    have "spec_advance (task_state t) (active_of (n_reg n)) = (True, active_of reg')" by simp
    then have now: "active_of reg' = Some (task_state t)"
      "\<And>a. active_of (n_reg n) = Some a \<Longrightarrow> supersedes (task_state t) a"
      by (auto simp: spec_advance_def split: if_splits)
    have "\<forall>s \<in> set (n_converged n). supersedes (task_state t) s"
      using inv now(2) by (fastforce simp: node_inv_def dominated_def intro: supersedes_trans)
    with ok True adv inv wf dom tasks t now(1) show ?thesis
      by (auto simp: advance_step_def Let_def t_def [symmetric] node_inv_def dominated_def
          fan_out_active_state_def fan_out_loop_set split: sum.splits)
  qed
qed

lemma node_inv_reg:
  assumes "node_inv n" "register_wf reg'" "active_of reg' = active_of (n_reg n)"
  shows "node_inv (n\<lparr>n_reg := reg'\<rparr>)"
  using assms by (simp add: node_inv_def dominated_def)

lemma active_of_backfill: "active_of (snd (backfill_if_current C nonce fail r reg)) = active_of reg"
  by (auto simp: backfill_if_current_def active_of_def split: option.splits sum.splits)

lemma node_inv_step:
  assumes "node_step C n n'" "node_inv n"
  shows "node_inv n'"
  using assms(1)
proof cases
  case (recv raw inb env)
  then show ?thesis using node_inv_recv [OF assms(2), of inb env] by (auto simp: device_id_new_Done)
next
  case (os_write os_ok i)
  with node_inv_write [OF assms(2)] show ?thesis by simp
next
  case (advance env nonce fail i)
  with node_inv_advance [OF assms(2)] show ?thesis by simp
next
  case (local raw device nonce fail fs now hash entry)
  with assms(2) show ?thesis
    by (auto simp: node_inv_def advance_local_def Let_def register_wf_advance dominated_advance
        device_id_new_Done)
next
  case (reset fail)
  with assms(2) show ?thesis
    by (auto simp: node_inv_def register_wf_def dominated_def reset_register_def
        split: option.splits)
next
  case (mobile f1 f2)
  with assms(2) show ?thesis
    using node_inv_reg [OF assms(2) register_wf_load_mobile [of id "n_reg n" C f1 f2]]
    by (simp add: node_inv_def load_mobile_keeps_active)
next
  case (backfill nonce fail r)
  with assms(2) show ?thesis
    using node_inv_reg [OF assms(2) register_wf_backfill [of "n_reg n" C nonce fail r]]
    by (simp add: node_inv_def active_of_backfill)
qed

lemma node_reach_inv: "\<lbrakk>node_reach C n0 n; node_inv n0\<rbrakk> \<Longrightarrow> node_inv n"
  by (induction rule: node_reach.induct) (auto intro: node_inv_step)

lemma sorted_supersedes_distinct:
  assumes "sorted_wrt supersedes ss"
  shows "distinct (map (\<lambda>s. (act_at s, act_by s)) ss)"
  using assms by (induction ss) (auto simp: supersedes_def)

end
