(* ===== verification/Write_Guard.thy ===== *)
theory Write_Guard
  imports Content_Identity
begin

text \<open>
  Writing the OS clipboard without mistaking the echo of the write for a fresh copy:
  the self-write ledger (\<^verbatim>\<open>uc-infra/clipboard/change_origin.rs\<close>) and the coordinator with
  its circuit breaker (\<^verbatim>\<open>uc-application/clipboard_write/coordinator.rs\<close>).

  Instants and durations are milliseconds as integers; the instant at which a mutex-protected
  operation reads the clock is an argument. The OS clipboard is the boolean a write answers.
\<close>

section \<open>The ledger\<close>

datatype attribution = LocalA | RemoteA

datatype change_origin = LocalCapture | LocalRestore | RemotePush

datatype self_write_match = ByContent string | ByNextChange string

text \<open>A record of either queue: its key, its attribution and when it expires.\<close>

record guard_record =
  guard_key :: string
  attribution :: attribution
  expires_at :: int

record ledger =
  next_changes :: "guard_record list"
  content_records :: "guard_record list"

definition content_record_max :: nat where "content_record_max = 256"
definition next_change_max :: nat where "next_change_max = 64"

fun attribution_to_origin :: "attribution \<Rightarrow> change_origin" where
  "attribution_to_origin LocalA = LocalRestore"
| "attribution_to_origin RemoteA = RemotePush"

definition ledger_new :: ledger where
  "ledger_new = \<lparr>next_changes = [], content_records = []\<rparr>"

definition prune_expired :: "int \<Rightarrow> ledger \<Rightarrow> ledger" where
  "prune_expired now l =
     l\<lparr>next_changes := filter (\<lambda>r. now \<le> expires_at r) (next_changes l),
       content_records := filter (\<lambda>r. now \<le> expires_at r) (content_records l)\<rparr>"

text \<open>The eviction loop: drop from the front until the queue fits.\<close>

fun evict_front :: "nat \<Rightarrow> 'a list \<Rightarrow> 'a list" where
  "evict_front cap [] = []"
| "evict_front cap (x # xs) = (if cap < length (x # xs) then evict_front cap xs else x # xs)"

definition upsert_record ::
  "nat \<Rightarrow> string \<Rightarrow> attribution \<Rightarrow> int \<Rightarrow> guard_record list \<Rightarrow> guard_record list" where
  "upsert_record cap key a expiry rs =
     (case find_index (\<lambda>r. guard_key r = key \<and> attribution r = a) rs of
        Some i \<Rightarrow> rs[i := (rs ! i)\<lparr>expires_at := expiry\<rparr>]
      | None \<Rightarrow>
          evict_front cap (rs @ [\<lparr>guard_key = key, attribution = a, expires_at = expiry\<rparr>]))"

definition remember_content_record :: "string \<Rightarrow> attribution \<Rightarrow> int \<Rightarrow> ledger \<Rightarrow> ledger" where
  "remember_content_record key a expiry l =
     l\<lparr>content_records := upsert_record content_record_max key a expiry (content_records l)\<rparr>"

definition record_self_write ::
  "int \<Rightarrow> self_write_match \<Rightarrow> attribution \<Rightarrow> int \<Rightarrow> ledger \<Rightarrow> ledger" where
  "record_self_write now matching a ttl l =
     (let l' = prune_expired now l in
      case matching of
        ByContent key \<Rightarrow> remember_content_record key a (now + ttl) l'
      | ByNextChange key \<Rightarrow>
          l'\<lparr>next_changes :=
               upsert_record next_change_max key a (now + ttl) (next_changes l')\<rparr>)"

definition attribute_observed_change :: "int \<Rightarrow> string \<Rightarrow> ledger \<Rightarrow> change_origin \<times> ledger" where
  "attribute_observed_change now hash l0 =
     (let l = prune_expired now l0 in
      case find_index (\<lambda>r. guard_key r = hash) (content_records l) of
        Some i \<Rightarrow>
          (let stored = content_records l ! i in
           (attribution_to_origin (attribution stored),
            l\<lparr>content_records := remove_index i (content_records l),
              next_changes :=
                remove_first (\<lambda>r. guard_key r = hash \<and> attribution r = attribution stored)
                  (next_changes l)\<rparr>))
      | None \<Rightarrow>
          (case next_changes l of
             stored # rest \<Rightarrow>
               (attribution_to_origin (attribution stored), l\<lparr>next_changes := rest\<rparr>)
           | [] \<Rightarrow> (LocalCapture, l)))"

section \<open>The coordinator\<close>

datatype write_intent = RestoreIntent | PushIntent

definition local_echo_rtt_max :: int where "local_echo_rtt_max = 2000"
definition remote_echo_rtt_max :: int where "remote_echo_rtt_max = 60000"
definition circuit_failure_threshold :: nat where "circuit_failure_threshold = 5"
definition default_circuit_open_duration :: int where "default_circuit_open_duration = 30000"

fun intent_attribution :: "write_intent \<Rightarrow> attribution" where
  "intent_attribution RestoreIntent = LocalA"
| "intent_attribution PushIntent = RemoteA"

fun intent_ttl :: "write_intent \<Rightarrow> int" where
  "intent_ttl RestoreIntent = local_echo_rtt_max"
| "intent_ttl PushIntent = remote_echo_rtt_max"

record coordinator =
  co_ledger :: ledger
  co_writing :: bool
  co_failures :: nat
  co_open_until :: "int option"
  co_cooldown :: int

definition coordinator_new :: coordinator where
  "coordinator_new =
     \<lparr>co_ledger = ledger_new, co_writing = False, co_failures = 0, co_open_until = None,
      co_cooldown = default_circuit_open_duration\<rparr>"

definition circuit_check :: "int \<Rightarrow> coordinator \<Rightarrow> int option \<times> coordinator" where
  "circuit_check now c =
     (case co_open_until c of
        Some until \<Rightarrow>
          if until \<le> now then (None, c\<lparr>co_open_until := None\<rparr>) else (Some (until - now), c)
      | None \<Rightarrow> (None, c))"

definition record_failure :: "int \<Rightarrow> coordinator \<Rightarrow> nat \<times> coordinator" where
  "record_failure now c =
     (let new_count = co_failures c + 1; c' = c\<lparr>co_failures := new_count\<rparr> in
      (new_count,
       if circuit_failure_threshold \<le> new_count
       then c'\<lparr>co_open_until := Some (now + co_cooldown c), co_failures := 0\<rparr> else c'))"

definition record_success :: "coordinator \<Rightarrow> coordinator" where
  "record_success c =
     (let prev = co_failures c; c' = c\<lparr>co_failures := 0\<rparr> in
      if 0 < prev then c'\<lparr>co_open_until := None\<rparr> else c')"

datatype write_error = CircuitOpen int | OsWriteFailed

text \<open>
  \<open>t1\<close> is when the circuit is checked, \<open>t2\<close> when the content record is armed and \<open>t3\<close> when the
  OS write has answered \<open>os_ok\<close>. The guard key is \<open>Content_Identity.origin_guard_key\<close> of the
  snapshot. The boolean of the result says whether the OS clipboard was called.
\<close>

definition write_with_key ::
  "int \<Rightarrow> int \<Rightarrow> int \<Rightarrow> bool \<Rightarrow> string \<Rightarrow> write_intent \<Rightarrow> coordinator \<Rightarrow>
   (write_error + unit) \<times> bool \<times> coordinator" where
  "write_with_key t1 t2 t3 os_ok key intent c =
     (case circuit_check t1 c of
        (Some remaining, c1) \<Rightarrow> (Inl (CircuitOpen (remaining div 1000)), False, c1)
      | (None, c1) \<Rightarrow>
          (let a = intent_attribution intent; ttl = intent_ttl intent;
               c2 = c1\<lparr>co_ledger :=
                      record_self_write t2 (ByContent key) a ttl (co_ledger c1)\<rparr> in
           if \<not> os_ok
           then (let c3 = c2\<lparr>co_ledger := snd (attribute_observed_change t3 key (co_ledger c2))\<rparr> in
                 (Inl OsWriteFailed, True, snd (record_failure t3 c3)))
           else (let c3 = record_success c2 in
                 (Inr (), True,
                  c3\<lparr>co_ledger :=
                       record_self_write t3 (ByNextChange key) a ttl (co_ledger c3)\<rparr>))))"

definition write_inner ::
  "hash_prims \<Rightarrow> file_system \<Rightarrow> int \<Rightarrow> int \<Rightarrow> int \<Rightarrow> bool \<Rightarrow> snapshot \<Rightarrow> write_intent \<Rightarrow> coordinator \<Rightarrow>
   ((write_error + unit) \<times> bool \<times> coordinator) run" where
  "write_inner H files t1 t2 t3 os_ok s intent c =
     (case origin_guard_key H files s of
        Panic \<Rightarrow> Panic
      | Done key \<Rightarrow> Done (write_with_key t1 t2 t3 os_ok key intent c))"

text \<open>
  \<^verbatim>\<open>write\<close> raises the flag, runs \<open>write_inner\<close> and lowers it. Calls can overlap (the
  coordinator is shared), so its two stores are separate operations too.
\<close>

definition begin_write :: "coordinator \<Rightarrow> coordinator" where
  "begin_write c = c\<lparr>co_writing := True\<rparr>"

definition end_write :: "coordinator \<Rightarrow> coordinator" where
  "end_write c = c\<lparr>co_writing := False\<rparr>"

definition write_clipboard ::
  "hash_prims \<Rightarrow> file_system \<Rightarrow> int \<Rightarrow> int \<Rightarrow> int \<Rightarrow> bool \<Rightarrow> snapshot \<Rightarrow> write_intent \<Rightarrow> coordinator \<Rightarrow>
   ((write_error + unit) \<times> bool \<times> coordinator) run" where
  "write_clipboard H files t1 t2 t3 os_ok s intent c =
     (case write_inner H files t1 t2 t3 os_ok s intent (begin_write c) of
        Panic \<Rightarrow> Panic
      | Done (res, called, c') \<Rightarrow> Done (res, called, end_write c'))"

definition is_write_in_progress :: "coordinator \<Rightarrow> bool" where
  "is_write_in_progress c = co_writing c"

section \<open>The queues stay bounded and without duplicates\<close>

definition record_id :: "guard_record \<Rightarrow> string \<times> attribution" where
  "record_id r = (guard_key r, attribution r)"

definition queue_ok :: "nat \<Rightarrow> guard_record list \<Rightarrow> bool" where
  "queue_ok cap rs \<longleftrightarrow> length rs \<le> cap \<and> distinct (map record_id rs)"

definition ledger_inv :: "ledger \<Rightarrow> bool" where
  "ledger_inv l \<longleftrightarrow>
     queue_ok next_change_max (next_changes l) \<and> queue_ok content_record_max (content_records l)"

lemma evict_front_suffix: "\<exists>n. evict_front cap xs = drop n xs"
proof (induction xs)
  case Nil
  then show ?case by simp
next
  case (Cons x xs)
  then obtain n where "evict_front cap xs = drop n xs" by auto
  then show ?case by (cases "cap < length (x # xs)") (auto intro: exI [of _ "Suc n"] exI [of _ 0])
qed

lemma evict_front_length: "length (evict_front cap xs) \<le> cap"
  by (induction xs) auto

lemma evict_front_id: "length xs \<le> cap \<Longrightarrow> evict_front cap xs = xs"
  by (cases xs) auto

lemma queue_ok_filter: "queue_ok cap rs \<Longrightarrow> queue_ok cap (filter P rs)"
  by (auto simp: queue_ok_def distinct_map_filter intro: le_trans [OF length_filter_le])

lemma queue_ok_remove_index: "queue_ok cap rs \<Longrightarrow> queue_ok cap (remove_index i rs)"
  using length_remove_index [of i rs] by (auto simp: queue_ok_def distinct_remove_index)

lemma queue_ok_remove_first: "queue_ok cap rs \<Longrightarrow> queue_ok cap (remove_first P rs)"
  by (auto simp: remove_first_def queue_ok_remove_index split: option.splits)

lemma queue_ok_drop: "queue_ok cap rs \<Longrightarrow> queue_ok cap (drop n rs)"
  by (auto simp: queue_ok_def drop_map [symmetric])

lemma queue_ok_upsert:
  assumes "queue_ok cap rs"
  shows "queue_ok cap (upsert_record cap key a expiry rs)"
proof (cases "find_index (\<lambda>r. guard_key r = key \<and> attribution r = a) rs")
  case None
  let ?rs = "rs @ [\<lparr>guard_key = key, attribution = a, expires_at = expiry\<rparr>]"
  from None have "distinct (map record_id ?rs)"
    using assms by (auto simp: queue_ok_def find_index_None_iff record_id_def)
  moreover obtain n where "evict_front cap ?rs = drop n ?rs" using evict_front_suffix by blast
  ultimately have "distinct (map record_id (evict_front cap ?rs))"
    by (simp only: drop_map [symmetric] distinct_drop)
  with None evict_front_length [of cap ?rs] show ?thesis
    by (simp add: upsert_record_def queue_ok_def)
next
  case (Some i)
  have "map record_id (rs[i := (rs ! i)\<lparr>expires_at := expiry\<rparr>]) = map record_id rs"
    using find_index_SomeD [OF Some]
    by (simp add: map_update list_update_same_conv) (simp add: record_id_def)
  with Some assms show ?thesis by (simp add: upsert_record_def queue_ok_def)
qed

lemma ledger_inv_prune: "ledger_inv l \<Longrightarrow> ledger_inv (prune_expired now l)"
  by (simp add: ledger_inv_def prune_expired_def queue_ok_filter)

lemma ledger_inv_record: "ledger_inv l \<Longrightarrow> ledger_inv (record_self_write now m a ttl l)"
  using ledger_inv_prune [of l now]
  by (cases m) (simp_all add: record_self_write_def Let_def remember_content_record_def
      ledger_inv_def queue_ok_upsert)

lemma ledger_inv_attribute: "ledger_inv l \<Longrightarrow> ledger_inv (snd (attribute_observed_change now h l))"
  using ledger_inv_prune [of l now] queue_ok_drop [of next_change_max "next_changes (prune_expired now l)" 1]
  by (auto simp: attribute_observed_change_def Let_def ledger_inv_def queue_ok_remove_index
      queue_ok_remove_first split: option.splits list.splits)

definition coordinator_inv :: "coordinator \<Rightarrow> bool" where
  "coordinator_inv c \<longleftrightarrow>
     ledger_inv (co_ledger c) \<and> co_failures c < circuit_failure_threshold \<and>
     (co_open_until c \<noteq> None \<longrightarrow> co_failures c = 0)"

lemma coordinator_inv_new: "coordinator_inv coordinator_new"
  by (simp add: coordinator_inv_def coordinator_new_def ledger_new_def ledger_inv_def queue_ok_def
      circuit_failure_threshold_def)

lemma coordinator_inv_write:
  assumes "coordinator_inv c"
  shows "coordinator_inv (snd (snd (write_with_key t1 t2 t3 os_ok key intent c)))"
  using assms
  by (auto simp: coordinator_inv_def write_with_key_def circuit_check_def Let_def
      record_failure_def record_success_def ledger_inv_record ledger_inv_attribute
      circuit_failure_threshold_def split: option.splits)

section \<open>Echoes\<close>

definition unguarded :: "string \<Rightarrow> ledger \<Rightarrow> bool" where
  "unguarded key l \<longleftrightarrow>
     (\<forall>r \<in> set (content_records l). guard_key r \<noteq> key) \<and>
     (\<forall>r \<in> set (next_changes l). guard_key r \<noteq> key)"

definition has_room :: "ledger \<Rightarrow> bool" where
  "has_room l \<longleftrightarrow> length (content_records l) < content_record_max \<and>
                length (next_changes l) < next_change_max"

lemma prune_prune:
  "t \<le> u \<Longrightarrow> prune_expired u (prune_expired t l) = prune_expired u l"
proof -
  assume "t \<le> u"
  then have "(\<lambda>r :: guard_record. t \<le> expires_at r \<and> u \<le> expires_at r) = (\<lambda>r. u \<le> expires_at r)" by auto
  then show ?thesis by (simp add: prune_expired_def)
qed

lemma length_prune:
  "length (next_changes (prune_expired t l)) \<le> length (next_changes l)"
  "length (content_records (prune_expired t l)) \<le> length (content_records l)"
  by (simp_all add: prune_expired_def)

lemma unguarded_prune: "unguarded key l \<Longrightarrow> unguarded key (prune_expired t l)"
  by (auto simp: unguarded_def prune_expired_def)

lemma has_room_prune: "has_room l \<Longrightarrow> has_room (prune_expired t l)"
  using length_prune [of t l] by (auto simp: has_room_def)

lemma find_key_None:
  "\<forall>r \<in> set rs. guard_key r \<noteq> key \<Longrightarrow> find_index (\<lambda>r. guard_key r = key \<and> Q r) rs = None"
  by (auto simp: find_index_None_iff)

text \<open>A ledger with the two records of one write added at the end.\<close>

definition armed :: "string \<Rightarrow> attribution \<Rightarrow> int option \<Rightarrow> int option \<Rightarrow> ledger \<Rightarrow> ledger" where
  "armed key a c f l =
     l\<lparr>content_records := content_records l @
         (case c of None \<Rightarrow> [] | Some e \<Rightarrow> [\<lparr>guard_key = key, attribution = a, expires_at = e\<rparr>]),
       next_changes := next_changes l @
         (case f of None \<Rightarrow> [] | Some e \<Rightarrow> [\<lparr>guard_key = key, attribution = a, expires_at = e\<rparr>])\<rparr>"

lemma record_content_armed:
  assumes "unguarded key l" "has_room l"
  shows "record_self_write t (ByContent key) a ttl l = armed key a (Some (t + ttl)) None (prune_expired t l)"
  using unguarded_prune [OF assms(1), of t] has_room_prune [OF assms(2), of t]
  by (simp add: record_self_write_def remember_content_record_def upsert_record_def armed_def
      Let_def unguarded_def has_room_def find_key_None evict_front_id)

lemma prune_armed:
  "\<lbrakk>t \<le> e; f = None \<or> (\<exists>e'. f = Some e' \<and> t \<le> e')\<rbrakk> \<Longrightarrow>
   prune_expired t (armed key a (Some e) f l) = armed key a (Some e) f (prune_expired t l)"
  by (auto simp: prune_expired_def armed_def)

lemma record_next_armed:
  assumes "unguarded key l" "has_room l" "t \<le> e"
  shows "record_self_write t (ByNextChange key) a ttl (armed key a (Some e) None l) =
         armed key a (Some e) (Some (t + ttl)) (prune_expired t l)"
  using unguarded_prune [OF assms(1), of t] has_room_prune [OF assms(2), of t] assms(3)
  by (simp add: record_self_write_def prune_armed upsert_record_def)
     (simp add: armed_def unguarded_def has_room_def find_key_None evict_front_id)

lemma attribute_armed:
  assumes "unguarded key l" "t \<le> e" "f = None \<or> (\<exists>e'. f = Some e' \<and> t \<le> e')"
  shows "attribute_observed_change t key (armed key a (Some e) f l) =
         (attribution_to_origin a, prune_expired t l)"
proof -
  let ?l = "prune_expired t l"
  have free: "find_index (\<lambda>r. guard_key r = key) (content_records ?l) = None"
    "find_index (\<lambda>r. guard_key r = key \<and> attribution r = a) (next_changes ?l) = None"
    using unguarded_prune [OF assms(1), of t] by (auto simp: unguarded_def find_index_None_iff)
  show ?thesis
    unfolding attribute_observed_change_def prune_armed [OF assms(2,3)] Let_def
    using assms(3) free by (auto simp: armed_def find_index_snoc remove_first_def)
qed

text \<open>A write that reached the OS, then its echo: attributed to it, and no record is left.\<close>

lemma write_then_echo:
  assumes "co_open_until c = None" "unguarded key (co_ledger c)" "has_room (co_ledger c)"
    and "t2 \<le> t3" "t3 \<le> t4" "t4 \<le> t2 + intent_ttl intent"
    and "write_with_key t1 t2 t3 True key intent c = (res, called, c')"
  shows "attribute_observed_change t4 key (co_ledger c') =
         (attribution_to_origin (intent_attribution intent), prune_expired t4 (co_ledger c))"
proof -
  let ?a = "intent_attribution intent" and ?ttl = "intent_ttl intent"
  have "co_ledger c' =
      record_self_write t3 (ByNextChange key) ?a ?ttl
        (record_self_write t2 (ByContent key) ?a ?ttl (co_ledger c))"
    using assms(1,7)
    by (auto simp: write_with_key_def circuit_check_def Let_def record_success_def)
  also have "\<dots> = armed key ?a (Some (t2 + ?ttl)) (Some (t3 + ?ttl))
      (prune_expired t3 (prune_expired t2 (co_ledger c)))"
    using assms by (simp add: record_content_armed record_next_armed unguarded_prune has_room_prune)
  finally show ?thesis
    using assms by (simp add: attribute_armed unguarded_prune prune_prune)
qed

text \<open>A failed write leaves no record behind.\<close>

lemma failed_write_ledger:
  assumes "co_open_until c = None" "unguarded key (co_ledger c)" "has_room (co_ledger c)"
    and "t2 \<le> t3" "t3 \<le> t2 + intent_ttl intent"
    and "write_with_key t1 t2 t3 False key intent c = (res, called, c')"
  shows "co_ledger c' = prune_expired t3 (co_ledger c)"
proof -
  have "co_ledger c' = snd (attribute_observed_change t3 key
      (record_self_write t2 (ByContent key) (intent_attribution intent) (intent_ttl intent)
        (co_ledger c)))"
    using assms(1,6)
    by (auto simp: write_with_key_def circuit_check_def Let_def record_failure_def)
  with assms show ?thesis
    by (simp add: record_content_armed attribute_armed unguarded_prune prune_prune)
qed

text \<open>An echo whose bytes the OS re-encoded is caught by the fallback.\<close>

lemma write_then_reencoded_echo:
  assumes "co_open_until c = None" "unguarded key (co_ledger c)" "has_room (co_ledger c)"
    and "next_changes (co_ledger c) = []" "key' \<noteq> key" "unguarded key' (co_ledger c)"
    and "t2 \<le> t3" "t3 \<le> t4" "t4 \<le> t2 + intent_ttl intent"
    and "write_with_key t1 t2 t3 True key intent c = (res, called, c')"
  shows "fst (attribute_observed_change t4 key' (co_ledger c')) =
         attribution_to_origin (intent_attribution intent)"
proof -
  let ?a = "intent_attribution intent" and ?ttl = "intent_ttl intent"
  have "co_ledger c' =
      record_self_write t3 (ByNextChange key) ?a ?ttl
        (record_self_write t2 (ByContent key) ?a ?ttl (co_ledger c))"
    using assms(1,10)
    by (auto simp: write_with_key_def circuit_check_def Let_def record_success_def)
  also have "\<dots> = armed key ?a (Some (t2 + ?ttl)) (Some (t3 + ?ttl)) (prune_expired t3 (co_ledger c))"
    using assms
    by (simp add: record_content_armed record_next_armed unguarded_prune has_room_prune prune_prune)
  finally have *: "prune_expired t4 (co_ledger c') =
      armed key ?a (Some (t2 + ?ttl)) (Some (t3 + ?ttl)) (prune_expired t4 (co_ledger c))"
    using assms by (simp add: prune_armed prune_prune)
  have "find_index (\<lambda>r. guard_key r = key') (content_records (prune_expired t4 (co_ledger c))) = None"
    using unguarded_prune [OF assms(6), of t4] by (auto simp: unguarded_def find_index_None_iff)
  moreover have "next_changes (prune_expired t4 (co_ledger c)) = []"
    using assms(4) by (simp add: prune_expired_def)
  ultimately show ?thesis
    using assms(5)
    by (simp add: attribute_observed_change_def * Let_def) (simp add: armed_def find_index_snoc)
qed

section \<open>The circuit breaker\<close>

lemma open_circuit_rejects:
  "\<lbrakk>co_open_until c = Some u; t1 < u\<rbrakk> \<Longrightarrow>
   write_with_key t1 t2 t3 os_ok key intent c = (Inl (CircuitOpen ((u - t1) div 1000)), False, c)"
  by (simp add: write_with_key_def circuit_check_def)

lemma closed_circuit_writes:
  "co_open_until c = None \<or> (\<exists>u. co_open_until c = Some u \<and> u \<le> t1) \<Longrightarrow>
   fst (snd (write_with_key t1 t2 t3 os_ok key intent c))"
  by (auto simp: write_with_key_def circuit_check_def Let_def)

lemma failing_write_counts:
  assumes "co_open_until c = None"
  shows "co_failures (snd (snd (write_with_key t1 t2 t3 False key intent c))) =
           (if co_failures c + 1 < circuit_failure_threshold then co_failures c + 1 else 0)"
    and "co_open_until (snd (snd (write_with_key t1 t2 t3 False key intent c))) =
           (if co_failures c + 1 < circuit_failure_threshold then None
            else Some (t3 + co_cooldown c))"
    and "co_cooldown (snd (snd (write_with_key t1 t2 t3 os_ok key intent c))) = co_cooldown c"
  using assms
  by (auto simp: write_with_key_def circuit_check_def record_failure_def record_success_def Let_def)

text \<open>Writes that all fail: each with its instants, key and intent.\<close>

fun fail_all :: "(int \<times> int \<times> int \<times> string \<times> write_intent) list \<Rightarrow> coordinator \<Rightarrow> coordinator" where
  "fail_all [] c = c"
| "fail_all ((t1, t2, t3, key, intent) # ws) c =
     fail_all ws (snd (snd (write_with_key t1 t2 t3 False key intent c)))"

lemma fail_all_below:
  "\<lbrakk>co_open_until c = None; co_failures c + length ws < circuit_failure_threshold\<rbrakk> \<Longrightarrow>
   co_open_until (fail_all ws c) = None \<and> co_failures (fail_all ws c) = co_failures c + length ws \<and>
   co_cooldown (fail_all ws c) = co_cooldown c"
  by (induction ws c rule: fail_all.induct) (simp_all add: failing_write_counts)

lemma fail_all_trips:
  assumes "co_open_until c = None" "co_failures c = 0" "length ws = 4"
  shows "co_open_until (fail_all (ws @ [(t1, t2, t3, key, intent)]) c) = Some (t3 + co_cooldown c)"
proof -
  have "fail_all (ws @ [(t1, t2, t3, key, intent)]) c =
      snd (snd (write_with_key t1 t2 t3 False key intent (fail_all ws c)))"
    by (induction ws c rule: fail_all.induct) simp_all
  with fail_all_below [of c ws] assms show ?thesis
    by (simp add: failing_write_counts circuit_failure_threshold_def)
qed

end
