(* ===== verification/Wire_Codec.thy ===== *)
theory Wire_Codec
  imports Prelude
begin

text \<open>
  What the stream codecs of the program share: the readers of fixed-size fields, the loop that
  reads a counted list, and the contract of a codec as two locales. A reader maps the bytes
  still in the stream to an error or to the value and the bytes left.
\<close>

type_synonym ('e, 'a) reader = "byte list \<Rightarrow> 'e + 'a \<times> byte list"

definition bind_read :: "('e, 'a) reader \<Rightarrow> ('a \<Rightarrow> ('e, 'b) reader) \<Rightarrow> ('e, 'b) reader" where
  "bind_read p f s = (case p s of Inl e \<Rightarrow> Inl e | Inr (a, r) \<Rightarrow> f a r)"

definition return_read :: "'a \<Rightarrow> ('e, 'a) reader" where
  "return_read a s = Inr (a, s)"

definition fail_read :: "'e \<Rightarrow> ('e, 'a) reader" where
  "fail_read e s = Inl e"

text \<open>A result of the code, as a reader that reads nothing.\<close>

definition lift_result :: "'e + 'a \<Rightarrow> ('e, 'a) reader" where
  "lift_result x = (case x of Inl e \<Rightarrow> fail_read e | Inr a \<Rightarrow> return_read a)"

text \<open>\<^verbatim>\<open>read_exact\<close> into a buffer of \<open>n\<close> bytes; \<open>eof\<close> is the error of a stream that ends.\<close>

definition read_exact :: "'e \<Rightarrow> nat \<Rightarrow> ('e, byte list) reader" where
  "read_exact eof n s = (case take_exact n s of None \<Rightarrow> Inl eof | Some (b, r) \<Rightarrow> Inr (b, r))"

fun read_many :: "('e, 'a) reader \<Rightarrow> nat \<Rightarrow> ('e, 'a list) reader" where
  "read_many p 0 s = Inr ([], s)"
| "read_many p (Suc n) s =
     (case p s of
        Inl e \<Rightarrow> Inl e
      | Inr (a, r) \<Rightarrow>
          (case read_many p n r of Inl e \<Rightarrow> Inl e | Inr (as, q) \<Rightarrow> Inr (a # as, q)))"

lemma bind_read_Inr_iff:
  "bind_read p f s = Inr y \<longleftrightarrow> (\<exists>a r. p s = Inr (a, r) \<and> f a r = Inr y)"
  by (auto simp: bind_read_def split: sum.splits)

lemma bind_read_step [wire_simps]: "p s = Inr (a, r) \<Longrightarrow> bind_read p f s = f a r"
  by (simp add: bind_read_def)

lemma return_read_Inr_iff: "return_read a s = Inr (b, r) \<longleftrightarrow> b = a \<and> r = s"
  by (auto simp: return_read_def)

lemma fail_read_Inr [simp]: "fail_read e s \<noteq> Inr y"
  by (simp add: fail_read_def)

lemma lift_result_Inr_iff: "lift_result x s = Inr (a, rest) \<longleftrightarrow> x = Inr a \<and> rest = s"
  by (auto simp: lift_result_def return_read_Inr_iff split: sum.splits)

lemma read_exact_append [wire_simps]: "length b = n \<Longrightarrow> read_exact e n (b @ r) = Inr (b, r)"
  by (simp add: read_exact_def)

lemma read_exact_Cons [wire_simps]: "read_exact e (Suc 0) (x # r) = Inr ([x], r)"
  using read_exact_append [of "[x]" "Suc 0" e r] by simp

lemma read_exact_Inr_iff:
  "read_exact e n s = Inr (b, r) \<longleftrightarrow> s = b @ r \<and> length b = n"
  by (auto simp: read_exact_def take_exact_Some_iff split: option.splits)

text \<open>Big- and little-endian lengths, as the sender writes them after checking the bound.\<close>

lemma le_val_le_bytes_2 [wire_simps]: "n < 65536 \<Longrightarrow> le_val (le_bytes 2 n) = n"
  using le_val_le_bytes_id [of n 2] by simp

lemma le_val_le_bytes_4 [wire_simps]: "n < 4294967296 \<Longrightarrow> le_val (le_bytes 4 n) = n"
  using le_val_le_bytes_id [of n 4] by simp

lemma be_val_be_bytes_2 [wire_simps]: "n < 65536 \<Longrightarrow> be_val (be_bytes 2 n) = n"
  using be_val_be_bytes_id [of n 2] by simp

lemma be_val_be_bytes_4 [wire_simps]: "n < 4294967296 \<Longrightarrow> be_val (be_bytes 4 n) = n"
  using be_val_be_bytes_id [of n 4] by simp

section \<open>The contract of a codec\<close>

text \<open>
  A self-delimiting codec: what is written for a valid value is read back, whatever follows.
\<close>

locale prefix_codec =
  fixes enc :: "'a \<Rightarrow> byte list"
    and dec :: "byte list \<Rightarrow> 'e + 'a \<times> byte list"
    and valid :: "'a \<Rightarrow> bool"
  assumes dec_enc: "valid x \<Longrightarrow> dec (enc x @ rest) = Inr (x, rest)"
begin

lemma prefix_free:
  assumes "valid x" "valid y" "enc x @ r = enc y @ q"
  shows "x = y \<and> r = q"
proof -
  from dec_enc [OF assms(1), of r] have "dec (enc y @ q) = Inr (x, r)" by (simp only: assms(3))
  with dec_enc [OF assms(2), of q] show ?thesis by simp
qed

lemma enc_inj: "\<lbrakk>valid x; valid y; enc x = enc y\<rbrakk> \<Longrightarrow> x = y"
  using prefix_free [of x y "[]" "[]"] by simp

lemma dec_enc_all: "valid x \<Longrightarrow> dec (enc x) = Inr (x, [])"
  using dec_enc [of x "[]"] by simp

lemma read_many_enc:
  "\<forall>x \<in> set xs. valid x \<Longrightarrow>
   read_many dec (length xs) (concat (map enc xs) @ rest) = Inr (xs, rest)"
  by (induction xs) (simp_all add: dec_enc)

end

text \<open>A codec that also accepts nothing but what it writes.\<close>

locale canonical_codec = prefix_codec +
  assumes enc_dec: "dec s = Inr (x, rest) \<Longrightarrow> valid x \<and> s = enc x @ rest"
begin

lemma dec_iff: "dec s = Inr (x, rest) \<longleftrightarrow> valid x \<and> s = enc x @ rest"
  using enc_dec dec_enc by auto

lemma same_value_same_bytes:
  "\<lbrakk>dec s = Inr (x, r); dec t = Inr (x, r)\<rbrakk> \<Longrightarrow> s = t"
  by (auto dest: enc_dec)

text \<open>A stream cut short is never taken for a value.\<close>

lemma truncated_rejected:
  assumes "valid x" "enc x = s @ t" "t \<noteq> []"
  shows "\<exists>e. dec s = Inl e"
proof (cases "dec s")
  case (Inl e)
  then show ?thesis by blast
next
  case (Inr yr)
  obtain y r where "yr = (y, r)" by (cases yr)
  with Inr have y: "valid y" "s = enc y @ r" using enc_dec [of s y r] by auto
  with assms have "enc x @ [] = enc y @ (r @ t)" by simp
  with prefix_free [OF assms(1) y(1)] assms(3) show ?thesis by auto
qed

lemma read_many_dec:
  "read_many dec n s = Inr (xs, rest) \<Longrightarrow>
   length xs = n \<and> (\<forall>x \<in> set xs. valid x) \<and> s = concat (map enc xs) @ rest"
proof (induction n arbitrary: s xs)
  case 0
  then show ?case by simp
next
  case (Suc n)
  from Suc.prems obtain a r as where
    "dec s = Inr (a, r)" "read_many dec n r = Inr (as, rest)" "xs = a # as"
    by (auto split: sum.splits)
  with Suc.IH [of r as] enc_dec [of s a r] show ?case by simp
qed

end

end
