(* ===== verification/Payload_Codec.thy ===== *)
theory Payload_Codec
  imports Wire_Codec
begin

text \<open>
  The V3 binary codec of a clipboard payload with several representations:
  \<^verbatim>\<open>uc-core/network/protocol/clipboard_payload_v3.rs\<close>. Strings are byte strings; a Rust
  \<^verbatim>\<open>String\<close> holds well-formed UTF-8, which is the hypothesis \<open>wf_str\<close> where it matters.
  The writer is a byte buffer, returned with what was written before an error.
\<close>

datatype io_error = InvalidInput | InvalidData | UnexpectedEof

record bin_rep =
  br_format_id :: string
  br_mime :: "string option"
  br_data :: "byte list"

record bin_payload =
  bp_ts_ms :: int
  bp_reps :: "bin_rep list"

definition max_representations :: nat where "max_representations = 1024"
definition max_format_id_len :: nat where "max_format_id_len = 1024"
definition max_mime_len :: nat where "max_mime_len = 1024"
definition max_data_len :: nat where "max_data_len = 256 * 1024 * 1024"

section \<open>Encoding\<close>

fun encode_mime :: "string option \<Rightarrow> byte list \<Rightarrow> (io_error + unit) \<times> byte list" where
  "encode_mime None buf = (Inr (), buf @ [0])"
| "encode_mime (Some mime) buf =
     (let buf1 = buf @ [1] in
      if max_mime_len < length mime then (Inl InvalidInput, buf1)
      else if 2 ^ 16 \<le> length mime then (Inl InvalidInput, buf1)
      else (Inr (), buf1 @ le_bytes 2 (length mime) @ str_bytes mime))"

definition encode_rep :: "bin_rep \<Rightarrow> byte list \<Rightarrow> (io_error + unit) \<times> byte list" where
  "encode_rep r buf =
     (if max_format_id_len < length (br_format_id r) then (Inl InvalidInput, buf)
      else if 2 ^ 16 \<le> length (br_format_id r) then (Inl InvalidInput, buf)
      else (case encode_mime (br_mime r)
               (buf @ le_bytes 2 (length (br_format_id r)) @ str_bytes (br_format_id r)) of
              (Inl e, buf1) \<Rightarrow> (Inl e, buf1)
            | (Inr _, buf1) \<Rightarrow>
                if max_data_len < length (br_data r) then (Inl InvalidInput, buf1)
                else if 2 ^ 32 \<le> length (br_data r) then (Inl InvalidInput, buf1)
                else (Inr (), buf1 @ le_bytes 4 (length (br_data r)) @ br_data r)))"

fun encode_reps :: "bin_rep list \<Rightarrow> byte list \<Rightarrow> (io_error + unit) \<times> byte list" where
  "encode_reps [] buf = (Inr (), buf)"
| "encode_reps (r # rs) buf =
     (case encode_rep r buf of
        (Inl e, buf1) \<Rightarrow> (Inl e, buf1)
      | (Inr _, buf1) \<Rightarrow> encode_reps rs buf1)"

definition encode_to :: "bin_payload \<Rightarrow> byte list \<Rightarrow> (io_error + unit) \<times> byte list" where
  "encode_to p buf =
     (let buf1 = buf @ i64_le_bytes (bp_ts_ms p) in
      if max_representations < length (bp_reps p) then (Inl InvalidInput, buf1)
      else if 2 ^ 16 \<le> length (bp_reps p) then (Inl InvalidInput, buf1)
      else encode_reps (bp_reps p) (buf1 @ le_bytes 2 (length (bp_reps p))))"

definition encode_to_vec :: "bin_payload \<Rightarrow> io_error + byte list" where
  "encode_to_vec p =
     (case encode_to p [] of (Inl e, _) \<Rightarrow> Inl e | (Inr _, buf) \<Rightarrow> Inr buf)"

section \<open>Decoding\<close>

definition read_le :: "nat \<Rightarrow> (io_error, nat) reader" where
  "read_le n = bind_read (read_exact UnexpectedEof n) (\<lambda>b. return_read (le_val b))"

definition decode_string :: "byte list \<Rightarrow> (io_error, string) reader" where
  "decode_string b =
     (case from_utf8 b of None \<Rightarrow> fail_read InvalidData | Some s \<Rightarrow> return_read s)"

definition decode_mime :: "(io_error, string option) reader" where
  "decode_mime =
     bind_read (read_exact UnexpectedEof 1) (\<lambda>flag.
       if hd flag = 1 then
         bind_read (read_le 2) (\<lambda>mime_len.
           if max_mime_len < mime_len then fail_read InvalidData
           else bind_read (read_exact UnexpectedEof mime_len) (\<lambda>b.
             bind_read (decode_string b) (\<lambda>m. return_read (Some m))))
       else if hd flag = 0 then return_read None
       else fail_read InvalidData)"

definition decode_rep :: "(io_error, bin_rep) reader" where
  "decode_rep =
     bind_read (read_le 2) (\<lambda>format_id_len.
       if max_format_id_len < format_id_len then fail_read InvalidData
       else bind_read (read_exact UnexpectedEof format_id_len) (\<lambda>fb.
         bind_read (decode_string fb) (\<lambda>format_id.
         bind_read decode_mime (\<lambda>mime.
         bind_read (read_le 4) (\<lambda>data_len.
           if max_data_len < data_len then fail_read InvalidData
           else bind_read (read_exact UnexpectedEof data_len) (\<lambda>data.
             return_read \<lparr>br_format_id = format_id, br_mime = mime, br_data = data\<rparr>))))))"

definition decode_from :: "(io_error, bin_payload) reader" where
  "decode_from =
     bind_read (read_exact UnexpectedEof 8) (\<lambda>tb.
     bind_read (read_le 2) (\<lambda>rep_count.
       if max_representations < rep_count then fail_read InvalidData
       else bind_read (read_many decode_rep rep_count) (\<lambda>reps.
         return_read \<lparr>bp_ts_ms = i64_of_le tb, bp_reps = reps\<rparr>)))"

section \<open>The wire format\<close>

text \<open>The bytes of a value within the limits, in one expression: the specification.\<close>

definition wf_str :: "string \<Rightarrow> bool" where
  "wf_str s \<longleftrightarrow> utf8_valid (str_bytes s)"

definition wf_rep :: "bin_rep \<Rightarrow> bool" where
  "wf_rep r \<longleftrightarrow>
     wf_str (br_format_id r) \<and> length (br_format_id r) \<le> max_format_id_len \<and>
     (case br_mime r of None \<Rightarrow> True | Some m \<Rightarrow> wf_str m \<and> length m \<le> max_mime_len) \<and>
     length (br_data r) \<le> max_data_len"

definition wf_payload :: "bin_payload \<Rightarrow> bool" where
  "wf_payload p \<longleftrightarrow>
     in_i64 (bp_ts_ms p) \<and> length (bp_reps p) \<le> max_representations \<and>
     (\<forall>r \<in> set (bp_reps p). wf_rep r)"

definition mime_bytes :: "string option \<Rightarrow> byte list" where
  "mime_bytes m = (case m of None \<Rightarrow> [0] | Some s \<Rightarrow> [1] @ le_bytes 2 (length s) @ str_bytes s)"

definition rep_bytes :: "bin_rep \<Rightarrow> byte list" where
  "rep_bytes r =
     le_bytes 2 (length (br_format_id r)) @ str_bytes (br_format_id r) @ mime_bytes (br_mime r) @
     le_bytes 4 (length (br_data r)) @ br_data r"

definition payload_bytes :: "bin_payload \<Rightarrow> byte list" where
  "payload_bytes p =
     i64_le_bytes (bp_ts_ms p) @ le_bytes 2 (length (bp_reps p)) @
     concat (map rep_bytes (bp_reps p))"

lemmas payload_limits =
  max_representations_def max_format_id_len_def max_mime_len_def max_data_len_def

lemma encode_rep_ok:
  "wf_rep r \<Longrightarrow> encode_rep r buf = (Inr (), buf @ rep_bytes r)"
  by (auto simp: encode_rep_def wf_rep_def rep_bytes_def mime_bytes_def payload_limits Let_def
      split: option.splits)

lemma encode_reps_ok:
  "\<forall>r \<in> set rs. wf_rep r \<Longrightarrow> encode_reps rs buf = (Inr (), buf @ concat (map rep_bytes rs))"
  by (induction rs arbitrary: buf) (simp_all add: encode_rep_ok)

lemma encode_to_ok: "wf_payload p \<Longrightarrow> encode_to p buf = (Inr (), buf @ payload_bytes p)"
  by (simp add: encode_to_def wf_payload_def payload_bytes_def encode_reps_ok Let_def
      max_representations_def)

lemma encode_to_vec_ok: "wf_payload p \<Longrightarrow> encode_to_vec p = Inr (payload_bytes p)"
  by (simp add: encode_to_vec_def encode_to_ok)

text \<open>What the encoder refuses is exactly what is over a limit.\<close>

definition in_limits :: "bin_rep \<Rightarrow> bool" where
  "in_limits r \<longleftrightarrow>
     length (br_format_id r) \<le> max_format_id_len \<and>
     (case br_mime r of None \<Rightarrow> True | Some m \<Rightarrow> length m \<le> max_mime_len) \<and>
     length (br_data r) \<le> max_data_len"

lemma encode_rep_limits: "(\<exists>buf'. encode_rep r buf = (Inr (), buf')) \<longleftrightarrow> in_limits r"
  by (cases "br_mime r") (auto simp: encode_rep_def in_limits_def payload_limits Let_def)

lemma encode_reps_limits:
  "(\<exists>buf'. encode_reps rs buf = (Inr (), buf')) \<longleftrightarrow> (\<forall>r \<in> set rs. in_limits r)"
proof (induction rs arbitrary: buf)
  case Nil
  then show ?case by simp
next
  case (Cons r rs)
  show ?case
  proof (cases "encode_rep r buf")
    case (Pair res buf1)
    then show ?thesis
      using Cons.IH [of buf1] encode_rep_limits [of r buf] by (cases res) auto
  qed
qed

lemma encode_to_vec_limits:
  "(\<exists>b. encode_to_vec p = Inr b) \<longleftrightarrow>
   length (bp_reps p) \<le> max_representations \<and> (\<forall>r \<in> set (bp_reps p). in_limits r)"
proof -
  have "(\<exists>b. encode_to_vec p = Inr b) \<longleftrightarrow> (\<exists>buf. encode_to p [] = (Inr (), buf))"
    by (auto simp: encode_to_vec_def split: prod.splits sum.splits)
  also have "\<dots> \<longleftrightarrow> length (bp_reps p) \<le> max_representations \<and> (\<forall>r \<in> set (bp_reps p). in_limits r)"
    by (auto simp: encode_to_def Let_def encode_reps_limits max_representations_def)
  finally show ?thesis .
qed

section \<open>The codec contract\<close>

lemma read_le_le_bytes [wire_simps]:
  "n < 256 ^ k \<Longrightarrow> read_le k (le_bytes k n @ rest) = Inr (n, rest)"
  by (simp add: read_le_def bind_read_def read_exact_append return_read_def le_val_le_bytes_id)

lemma read_le_Inr_iff:
  "read_le k s = Inr (n, rest) \<longleftrightarrow> n < 256 ^ k \<and> s = le_bytes k n @ rest"
proof
  assume "read_le k s = Inr (n, rest)"
  then obtain b where b: "s = b @ rest" "length b = k" "n = le_val b"
    by (auto simp: read_le_def bind_read_Inr_iff read_exact_Inr_iff return_read_Inr_iff)
  with le_bytes_le_val [of b] le_val_bound [of b] show "n < 256 ^ k \<and> s = le_bytes k n @ rest"
    by simp
next
  assume "n < 256 ^ k \<and> s = le_bytes k n @ rest"
  then show "read_le k s = Inr (n, rest)" by (simp add: read_le_le_bytes)
qed

lemma decode_string_Inr_iff:
  "decode_string b s = Inr (t, rest) \<longleftrightarrow> wf_str t \<and> b = str_bytes t \<and> rest = s"
  by (auto simp: decode_string_def from_utf8_def wf_str_def return_read_Inr_iff)

lemma flag_iff: "length (b :: byte list) = Suc 0 \<longleftrightarrow> b = [hd b]"
  by (cases b) auto

lemma decode_mime_Inr_iff:
  "decode_mime s = Inr (m, rest) \<longleftrightarrow>
   (case m of None \<Rightarrow> True | Some t \<Rightarrow> wf_str t \<and> length t \<le> max_mime_len) \<and>
   s = mime_bytes m @ rest"
proof
  assume "decode_mime s = Inr (m, rest)"
  then obtain b s1 where b: "s = b @ s1" "length b = Suc 0"
    and m: "(if hd b = 1 then
         bind_read (read_le 2) (\<lambda>mime_len.
           if max_mime_len < mime_len then fail_read InvalidData
           else bind_read (read_exact UnexpectedEof mime_len) (\<lambda>b.
             bind_read (decode_string b) (\<lambda>m. return_read (Some m))))
       else if hd b = 0 then return_read None
       else fail_read InvalidData) s1 = Inr (m, rest)"
    by (auto simp: decode_mime_def bind_read_Inr_iff read_exact_Inr_iff)
  from b(2) have "b = [hd b]" by (simp add: flag_iff)
  with b m show "(case m of None \<Rightarrow> True | Some t \<Rightarrow> wf_str t \<and> length t \<le> max_mime_len) \<and>
      s = mime_bytes m @ rest"
    by (cases "hd b = 1"; cases "hd b = 0")
       (auto simp: bind_read_Inr_iff read_le_Inr_iff read_exact_Inr_iff decode_string_Inr_iff
         return_read_Inr_iff mime_bytes_def not_less split: if_splits)
next
  assume *: "(case m of None \<Rightarrow> True | Some t \<Rightarrow> wf_str t \<and> length t \<le> max_mime_len) \<and>
      s = mime_bytes m @ rest"
  show "decode_mime s = Inr (m, rest)"
  proof (cases m)
    case None
    with * show ?thesis
      by (simp add: decode_mime_def mime_bytes_def bind_read_def read_exact_Cons return_read_def)
  next
    case (Some t)
    with * have "length t < 256 ^ 2" by (simp add: max_mime_len_def)
    with Some * show ?thesis
      by (simp add: decode_mime_def mime_bytes_def bind_read_def read_exact_Cons return_read_def
          read_le_le_bytes read_exact_append decode_string_def from_utf8_def wf_str_def)
  qed
qed

lemma decode_rep_Inr_iff:
  "decode_rep s = Inr (r, rest) \<longleftrightarrow> wf_rep r \<and> s = rep_bytes r @ rest"
proof
  assume "decode_rep s = Inr (r, rest)"
  then show "wf_rep r \<and> s = rep_bytes r @ rest"
    by (auto simp: decode_rep_def bind_read_Inr_iff read_le_Inr_iff read_exact_Inr_iff
        decode_string_Inr_iff decode_mime_Inr_iff return_read_Inr_iff wf_rep_def rep_bytes_def
        not_less split: if_splits)
next
  assume *: "wf_rep r \<and> s = rep_bytes r @ rest"
  then have "length (br_format_id r) < 256 ^ 2" "length (br_data r) < 256 ^ 4"
    by (auto simp: wf_rep_def max_format_id_len_def max_data_len_def)
  moreover have "decode_mime (mime_bytes (br_mime r) @ q) = Inr (br_mime r, q)" for q
    using * by (simp add: decode_mime_Inr_iff wf_rep_def)
  ultimately show "decode_rep s = Inr (r, rest)"
    using * by (simp add: decode_rep_def rep_bytes_def wf_rep_def bind_read_def read_le_le_bytes
        read_exact_append decode_string_def from_utf8_def wf_str_def return_read_def)
qed

interpretation rep_codec: canonical_codec rep_bytes decode_rep wf_rep
  by unfold_locales (simp_all add: decode_rep_Inr_iff)

lemma decode_from_Inr_iff:
  "decode_from s = Inr (p, rest) \<longleftrightarrow> wf_payload p \<and> s = payload_bytes p @ rest"
proof
  assume "decode_from s = Inr (p, rest)"
  then obtain tb n reps s1 s2 where
    tb: "s = tb @ s1" "length tb = 8" and n: "read_le 2 s1 = Inr (n, s2)"
    "n \<le> max_representations" and reps: "read_many decode_rep n s2 = Inr (reps, rest)"
    and p: "p = \<lparr>bp_ts_ms = i64_of_le tb, bp_reps = reps\<rparr>"
    by (auto simp: decode_from_def bind_read_Inr_iff read_exact_Inr_iff return_read_Inr_iff
        not_less split: if_splits)
  from rep_codec.read_many_dec [OF reps] n tb p show "wf_payload p \<and> s = payload_bytes p @ rest"
    by (simp add: wf_payload_def payload_bytes_def read_le_Inr_iff i64_le_bytes_of_le)
next
  assume *: "wf_payload p \<and> s = payload_bytes p @ rest"
  then have "length (bp_reps p) < 256 ^ 2" by (simp add: wf_payload_def max_representations_def)
  with * show "decode_from s = Inr (p, rest)"
    by (simp add: decode_from_def payload_bytes_def wf_payload_def bind_read_def read_exact_append
        read_le_le_bytes rep_codec.read_many_enc return_read_def i64_of_le_bytes)
qed

interpretation payload_codec: canonical_codec payload_bytes decode_from wf_payload
  by unfold_locales (simp_all add: decode_from_Inr_iff)

end
