(* ===== verification/Stream_Frames.thy ===== *)
theory Stream_Frames
  imports Wire_Codec
begin

text \<open>
  The frames devices exchange on their streams, from
  \<^verbatim>\<open>uc-infra/network/iroh\<close>: clipboard content (\<^verbatim>\<open>clipboard_wire.rs\<close>, magic C1), the
  active-clipboard announcement (\<^verbatim>\<open>active_clipboard/wire.rs\<close>, C3) and the pull of active
  content (\<^verbatim>\<open>active_clipboard/pull_wire.rs\<close>, C2).

  The bodies are encoded by postcard, which is third-party: \<open>clip_postcard\<close> and
  \<open>state_postcard\<close> hold its functions at the types used here. A writer yields the bytes it
  sends or the error it returns before it sends any; a failing stream is not modelled on the
  writing side, and is \<open>IoE\<close> (the stream ends) on the reading side.
\<close>

section \<open>Clipboard content\<close>

definition clipboard_magic :: byte where "clipboard_magic = 193"
definition max_header_size :: nat where "max_header_size = 4 * 1024"
definition max_payload_size :: nat where "max_payload_size = 2 * 1024 * 1024"

datatype ack_code = Accepted | DuplicateIgnored | Rejected

fun ack_byte :: "ack_code \<Rightarrow> byte" where
  "ack_byte Accepted = 1"
| "ack_byte DuplicateIgnored = 2"
| "ack_byte Rejected = 255"

definition ack_of_byte :: "byte \<Rightarrow> byte + ack_code" where
  "ack_of_byte b =
     (if b = 1 then Inr Accepted
      else if b = 2 then Inr DuplicateIgnored
      else if b = 255 then Inr Rejected
      else Inl b)"

record clip_header =
  h_version :: byte
  h_snapshot_hash :: string
  h_captured_at_ms :: int
  h_origin_device_id :: string
  h_origin_device_name :: string
  h_payload_version :: byte
  h_flow_id :: "string option"

definition current_version :: byte where "current_version = 2"
definition directory_version :: byte where "directory_version = 3"

text \<open>
  \<open>to_v2\<close> serialises a \<^verbatim>\<open>WireHeaderV2\<close>; \<open>of_v1\<close> and \<open>of_v2\<close> deserialise the two versions
  (the record holds the fields of either, \<open>of_v1\<close> leaves the flow id open).
\<close>

record clip_postcard =
  to_v2 :: "clip_header \<Rightarrow> byte list option"
  of_v1 :: "byte list \<Rightarrow> clip_header option"
  of_v2 :: "byte list \<Rightarrow> clip_header option"

datatype wire_encode_error =
  PostcardE | HeaderTooLarge nat | PayloadTooLarge nat | EncUnsupportedVersion byte

datatype wire_decode_error =
    PostcardD | UnsupportedVersion byte | BadMagic byte | HeaderSizeExceeds nat
  | PayloadSizeExceeds nat | IoE

definition encode_header :: "clip_postcard \<Rightarrow> clip_header \<Rightarrow> wire_encode_error + byte list" where
  "encode_header P h =
     (if h_version h \<noteq> current_version \<and> h_version h \<noteq> directory_version
      then Inl (EncUnsupportedVersion (h_version h))
      else (case to_v2 P h of
        None \<Rightarrow> Inl PostcardE
      | Some bytes \<Rightarrow>
          if max_header_size < length bytes then Inl (HeaderTooLarge (length bytes))
          else Inr bytes))"

definition decode_header :: "clip_postcard \<Rightarrow> byte list \<Rightarrow> wire_decode_error + clip_header" where
  "decode_header P bytes =
     (case bytes of
        [] \<Rightarrow> Inl PostcardD
      | version # _ \<Rightarrow>
          if version = 1 then
            (case of_v1 P bytes of
               None \<Rightarrow> Inl PostcardD
             | Some w \<Rightarrow> Inr (w\<lparr>h_flow_id := None\<rparr>))
          else if version = 2 \<or> version = 3 then
            (case of_v2 P bytes of
               None \<Rightarrow> Inl PostcardD
             | Some w \<Rightarrow> Inr w)
          else Inl (UnsupportedVersion version))"

definition write_clip_frame ::
  "clip_postcard \<Rightarrow> clip_header \<Rightarrow> byte list \<Rightarrow> wire_encode_error + byte list" where
  "write_clip_frame P h payload =
     (if max_payload_size < length payload then Inl (PayloadTooLarge (length payload))
      else (case encode_header P h of
        Inl e \<Rightarrow> Inl e
      | Inr header_bytes \<Rightarrow>
          Inr ([clipboard_magic] @ be_bytes 4 (length header_bytes mod 2 ^ 32) @ header_bytes @
               be_bytes 4 (length payload mod 2 ^ 32) @ payload)))"

definition read_be :: "'e \<Rightarrow> nat \<Rightarrow> ('e, nat) reader" where
  "read_be eof n = bind_read (read_exact eof n) (\<lambda>b. return_read (be_val b))"

definition read_magic :: "byte \<Rightarrow> 'e \<Rightarrow> (byte \<Rightarrow> 'e) \<Rightarrow> ('e, unit) reader" where
  "read_magic magic eof bad =
     bind_read (read_exact eof 1) (\<lambda>b.
       if hd b \<noteq> magic then fail_read (bad (hd b)) else return_read ())"

definition read_clip_frame ::
  "clip_postcard \<Rightarrow> (wire_decode_error, clip_header \<times> byte list) reader" where
  "read_clip_frame P =
     bind_read (read_magic clipboard_magic IoE BadMagic) (\<lambda>_.
     bind_read (read_be IoE 4) (\<lambda>header_len.
       if max_header_size < header_len then fail_read (HeaderSizeExceeds header_len)
       else bind_read (read_exact IoE header_len) (\<lambda>header_bytes.
         bind_read (lift_result (decode_header P header_bytes)) (\<lambda>header.
         bind_read (read_be IoE 4) (\<lambda>payload_len.
           if max_payload_size < payload_len then fail_read (PayloadSizeExceeds payload_len)
           else bind_read (read_exact IoE payload_len) (\<lambda>payload.
             return_read (header, payload)))))))"

section \<open>The active-clipboard announcement\<close>

definition active_clipboard_magic :: byte where "active_clipboard_magic = 195"
definition active_state_wire_version :: byte where "active_state_wire_version = 1"
definition max_body_size :: nat where "max_body_size = 4 * 1024"

record wire_message =
  m_snapshot_hash :: string
  m_entry_id :: string
  m_activated_at_ms :: int
  m_activated_by :: string

record state_postcard =
  to_state_v1 :: "byte \<Rightarrow> wire_message \<Rightarrow> byte list option"
  of_state_v1 :: "byte list \<Rightarrow> wire_message option"

datatype active_wire_error =
  APostcard | AUnsupportedVersion byte | ABadMagic byte | ABodyTooLarge nat | AIo

definition encode_body :: "state_postcard \<Rightarrow> wire_message \<Rightarrow> active_wire_error + byte list" where
  "encode_body P m =
     (case to_state_v1 P active_state_wire_version m of
        None \<Rightarrow> Inl APostcard
      | Some bytes \<Rightarrow>
          if max_body_size < length bytes then Inl (ABodyTooLarge (length bytes)) else Inr bytes)"

definition decode_body :: "state_postcard \<Rightarrow> byte list \<Rightarrow> active_wire_error + wire_message" where
  "decode_body P bytes =
     (case bytes of
        [] \<Rightarrow> Inl APostcard
      | version # _ \<Rightarrow>
          if version = 1 then
            (case of_state_v1 P bytes of None \<Rightarrow> Inl APostcard | Some w \<Rightarrow> Inr w)
          else Inl (AUnsupportedVersion version))"

definition write_state_frame :: "state_postcard \<Rightarrow> wire_message \<Rightarrow> active_wire_error + byte list"
  where
  "write_state_frame P m =
     (case encode_body P m of
        Inl e \<Rightarrow> Inl e
      | Inr body \<Rightarrow>
          Inr ([active_clipboard_magic] @ be_bytes 4 (length body mod 2 ^ 32) @ body))"

definition read_state_frame :: "state_postcard \<Rightarrow> (active_wire_error, wire_message) reader" where
  "read_state_frame P =
     bind_read (read_magic active_clipboard_magic AIo ABadMagic) (\<lambda>_.
     bind_read (read_be AIo 4) (\<lambda>body_len.
       if max_body_size < body_len then fail_read (ABodyTooLarge body_len)
       else bind_read (read_exact AIo body_len) (\<lambda>body. lift_result (decode_body P body))))"

section \<open>Pulling active content\<close>

definition active_pull_magic :: byte where "active_pull_magic = 194"
definition max_snapshot_hash_len :: nat where "max_snapshot_hash_len = 1024"
definition max_envelope_len :: nat where "max_envelope_len = 16 * 1024 * 1024"

datatype pull_status = StOk | StNotAvailable | StLocked | StInternal

fun status_byte :: "pull_status \<Rightarrow> byte" where
  "status_byte StOk = 0"
| "status_byte StNotAvailable = 1"
| "status_byte StLocked = 2"
| "status_byte StInternal = 3"

definition status_of_byte :: "byte \<Rightarrow> pull_status option" where
  "status_of_byte b =
     (if b = 0 then Some StOk
      else if b = 1 then Some StNotAvailable
      else if b = 2 then Some StLocked
      else if b = 3 then Some StInternal
      else None)"

datatype pull_response = Envelope "byte list" | RespNotAvailable | RespLocked | RespInternal

datatype pull_wire_error =
    PBadMagic byte | SnapshotHashTooLong nat | SnapshotHashNotUtf8 | EnvelopeTooLong nat
  | UnknownStatus byte | PIo

definition write_request :: "string \<Rightarrow> pull_wire_error + byte list" where
  "write_request hash =
     (if max_snapshot_hash_len < length hash
      then Inl (SnapshotHashTooLong (min (length hash) 65535))
      else Inr ([active_pull_magic] @ be_bytes 2 (length hash mod 2 ^ 16) @ str_bytes hash))"

definition read_request :: "(pull_wire_error, string) reader" where
  "read_request =
     bind_read (read_magic active_pull_magic PIo PBadMagic) (\<lambda>_.
     bind_read (read_be PIo 2) (\<lambda>len.
       if max_snapshot_hash_len < len then fail_read (SnapshotHashTooLong len)
       else bind_read (read_exact PIo len) (\<lambda>body.
         case from_utf8 body of
           None \<Rightarrow> fail_read SnapshotHashNotUtf8
         | Some s \<Rightarrow> return_read s)))"

fun write_response :: "pull_response \<Rightarrow> pull_wire_error + byte list" where
  "write_response (Envelope bytes) =
     (if max_envelope_len < length bytes
      then Inl (EnvelopeTooLong (min (length bytes) 4294967295))
      else Inr ([status_byte StOk] @ be_bytes 4 (length bytes mod 2 ^ 32) @ bytes))"
| "write_response RespNotAvailable = Inr [status_byte StNotAvailable]"
| "write_response RespLocked = Inr [status_byte StLocked]"
| "write_response RespInternal = Inr [status_byte StInternal]"

definition read_response :: "(pull_wire_error, pull_response) reader" where
  "read_response =
     bind_read (read_exact PIo 1) (\<lambda>b.
       case status_of_byte (hd b) of
         None \<Rightarrow> fail_read (UnknownStatus (hd b))
       | Some StOk \<Rightarrow>
           bind_read (read_be PIo 4) (\<lambda>len.
             if max_envelope_len < len then fail_read (EnvelopeTooLong len)
             else bind_read (read_exact PIo len) (\<lambda>body. return_read (Envelope body)))
       | Some StNotAvailable \<Rightarrow> return_read RespNotAvailable
       | Some StLocked \<Rightarrow> return_read RespLocked
       | Some StInternal \<Rightarrow> return_read RespInternal)"

section \<open>Fields\<close>

lemma ack_roundtrip: "ack_of_byte (ack_byte a) = Inr a"
  by (cases a) (simp_all add: ack_of_byte_def)

lemma ack_of_byte_Inr_iff: "ack_of_byte b = Inr a \<longleftrightarrow> b = ack_byte a"
  by (cases a) (auto simp: ack_of_byte_def)

lemma status_of_byte_Some_iff: "status_of_byte b = Some s \<longleftrightarrow> b = status_byte s"
  by (cases s) (auto simp: status_of_byte_def)

lemma read_be_append [wire_simps]:
  "n < 256 ^ k \<Longrightarrow> read_be e k (be_bytes k n @ rest) = Inr (n, rest)"
  by (simp add: read_be_def bind_read_def read_exact_append return_read_def be_val_be_bytes_id)

lemma read_be_Inr_iff:
  "read_be e k s = Inr (n, rest) \<longleftrightarrow> n < 256 ^ k \<and> s = be_bytes k n @ rest"
proof
  assume "read_be e k s = Inr (n, rest)"
  then obtain b where b: "s = b @ rest" "length b = k" "n = be_val b"
    by (auto simp: read_be_def bind_read_Inr_iff read_exact_Inr_iff return_read_Inr_iff)
  with be_bytes_be_val [of b] be_val_bound [of b] show "n < 256 ^ k \<and> s = be_bytes k n @ rest"
    by simp
next
  assume "n < 256 ^ k \<and> s = be_bytes k n @ rest"
  then show "read_be e k s = Inr (n, rest)" by (simp add: read_be_append)
qed

lemma read_magic_Inr_iff: "read_magic m e bad s = Inr (u, rest) \<longleftrightarrow> s = m # rest"
proof
  assume "read_magic m e bad s = Inr (u, rest)"
  then obtain b where "s = b @ rest" "length b = Suc 0" "hd b = m"
    by (auto simp: read_magic_def bind_read_Inr_iff read_exact_Inr_iff return_read_Inr_iff
        split: if_splits)
  then show "s = m # rest" by (cases b) auto
next
  assume "s = m # rest"
  then show "read_magic m e bad s = Inr (u, rest)"
    by (simp add: read_magic_def bind_read_def read_exact_Cons return_read_def)
qed

lemma read_magic_Cons [wire_simps]: "read_magic m e bad (m # rest) = Inr ((), rest)"
  by (simp add: read_magic_Inr_iff)

lemmas frame_defs =
  bind_read_def return_read_def read_exact_append read_be_append read_magic_Cons lift_result_def

section \<open>Pull frames are canonical codecs\<close>

definition request_bytes :: "string \<Rightarrow> byte list" where
  "request_bytes hash = [active_pull_magic] @ be_bytes 2 (length hash) @ str_bytes hash"

definition request_valid :: "string \<Rightarrow> bool" where
  "request_valid hash \<longleftrightarrow> length hash \<le> max_snapshot_hash_len \<and> utf8_valid (str_bytes hash)"

lemma write_request_ok: "length hash \<le> max_snapshot_hash_len \<Longrightarrow> write_request hash = Inr (request_bytes hash)"
  by (simp add: write_request_def request_bytes_def max_snapshot_hash_len_def)

lemma read_request_Inr_iff:
  "read_request s = Inr (h, rest) \<longleftrightarrow> request_valid h \<and> s = request_bytes h @ rest"
proof
  assume "read_request s = Inr (h, rest)"
  then show "request_valid h \<and> s = request_bytes h @ rest"
    by (auto simp: read_request_def bind_read_Inr_iff read_be_Inr_iff read_magic_Inr_iff
        read_exact_Inr_iff from_utf8_def return_read_Inr_iff request_valid_def request_bytes_def
        not_less split: if_splits option.splits)
next
  assume *: "request_valid h \<and> s = request_bytes h @ rest"
  then have "length h < 256 ^ 2" by (simp add: request_valid_def max_snapshot_hash_len_def)
  with * show "read_request s = Inr (h, rest)"
    by (simp add: read_request_def request_bytes_def request_valid_def frame_defs from_utf8_def)
qed

interpretation pull_request: canonical_codec request_bytes read_request request_valid
  by unfold_locales (simp_all add: read_request_Inr_iff)

fun response_bytes :: "pull_response \<Rightarrow> byte list" where
  "response_bytes (Envelope bytes) = [0] @ be_bytes 4 (length bytes) @ bytes"
| "response_bytes RespNotAvailable = [1]"
| "response_bytes RespLocked = [2]"
| "response_bytes RespInternal = [3]"

fun response_valid :: "pull_response \<Rightarrow> bool" where
  "response_valid (Envelope bytes) \<longleftrightarrow> length bytes \<le> max_envelope_len"
| "response_valid _ \<longleftrightarrow> True"

lemma write_response_Inr_iff: "write_response r = Inr b \<longleftrightarrow> response_valid r \<and> b = response_bytes r"
  by (cases r) (auto simp: max_envelope_len_def)

lemma read_response_enc: "response_valid r \<Longrightarrow> read_response (response_bytes r @ rest) = Inr (r, rest)"
  by (cases r)
     (simp_all add: read_response_def status_of_byte_def frame_defs read_exact_Cons
       max_envelope_len_def)

lemma read_response_dec:
  assumes "read_response s = Inr (r, rest)"
  shows "response_valid r \<and> s = response_bytes r @ rest"
proof -
  from assms obtain b s1 where b: "s = b @ s1" "length b = Suc 0"
    and rest: "(case status_of_byte (hd b) of
         None \<Rightarrow> fail_read (UnknownStatus (hd b))
       | Some StOk \<Rightarrow>
           bind_read (read_be PIo 4) (\<lambda>len.
             if max_envelope_len < len then fail_read (EnvelopeTooLong len)
             else bind_read (read_exact PIo len) (\<lambda>body. return_read (Envelope body)))
       | Some StNotAvailable \<Rightarrow> return_read RespNotAvailable
       | Some StLocked \<Rightarrow> return_read RespLocked
       | Some StInternal \<Rightarrow> return_read RespInternal) s1 = Inr (r, rest)"
    by (auto simp: read_response_def bind_read_Inr_iff read_exact_Inr_iff)
  from b(2) have "b = [hd b]" by (cases b) auto
  with b rest show ?thesis
    by (auto simp: bind_read_Inr_iff read_be_Inr_iff read_exact_Inr_iff return_read_Inr_iff
        status_of_byte_Some_iff not_less split: option.splits pull_status.splits if_splits)
qed

interpretation pull_response: canonical_codec response_bytes read_response response_valid
  by unfold_locales (simp_all add: read_response_enc read_response_dec)

section \<open>Frames around postcard\<close>

text \<open>What the frames rely on of postcard: what it serialises begins with the version byte (a
  \<^verbatim>\<open>u8\<close> field is one byte) and deserialises again.\<close>

definition clip_postcard_ok :: "clip_postcard \<Rightarrow> bool" where
  "clip_postcard_ok P \<longleftrightarrow>
     (\<forall>h b. to_v2 P h = Some b \<longrightarrow> (\<exists>t. b = h_version h # t) \<and> of_v2 P b = Some h)"

definition state_postcard_ok :: "state_postcard \<Rightarrow> bool" where
  "state_postcard_ok P \<longleftrightarrow>
     (\<forall>v m b. to_state_v1 P v m = Some b \<longrightarrow> (\<exists>t. b = v # t) \<and> of_state_v1 P b = Some m)"

lemma decode_encode_header:
  "\<lbrakk>clip_postcard_ok P; encode_header P h = Inr b\<rbrakk> \<Longrightarrow> decode_header P b = Inr h"
  by (fastforce simp: clip_postcard_ok_def encode_header_def decode_header_def current_version_def
      directory_version_def split: if_splits option.splits)

lemma encode_header_length: "encode_header P h = Inr b \<Longrightarrow> length b \<le> max_header_size"
  by (auto simp: encode_header_def not_less split: if_splits option.splits)

lemma read_write_clip_frame:
  assumes "clip_postcard_ok P" "write_clip_frame P h payload = Inr b"
  shows "read_clip_frame P (b @ rest) = Inr ((h, payload), rest)"
proof -
  from assms(2) obtain hb where hb: "encode_header P h = Inr hb"
    and len: "length payload \<le> max_payload_size"
    and b: "b = [clipboard_magic] @ be_bytes 4 (length hb mod 2 ^ 32) @ hb @
                be_bytes 4 (length payload mod 2 ^ 32) @ payload"
    by (auto simp: write_clip_frame_def not_less split: if_splits sum.splits)
  from len have "length payload < 256 ^ 4" by (simp add: max_payload_size_def)
  moreover from encode_header_length [OF hb] have "length hb < 256 ^ 4" "\<not> max_header_size < length hb"
    by (simp_all add: max_header_size_def)
  ultimately show ?thesis
    using len decode_encode_header [OF assms(1) hb]
    by (simp add: read_clip_frame_def b frame_defs)
qed

lemma read_clip_frame_bounds:
  assumes "read_clip_frame P s = Inr ((h, payload), rest)"
  shows "length payload \<le> max_payload_size \<and>
         (\<exists>hb. length hb \<le> max_header_size \<and> decode_header P hb = Inr h \<and>
            s = [clipboard_magic] @ be_bytes 4 (length hb) @ hb @
                be_bytes 4 (length payload) @ payload @ rest)"
  using assms
  by (auto simp: read_clip_frame_def bind_read_Inr_iff read_magic_Inr_iff read_be_Inr_iff
      read_exact_Inr_iff lift_result_Inr_iff return_read_Inr_iff not_less split: if_splits)

lemma decode_encode_body:
  "\<lbrakk>state_postcard_ok P; encode_body P m = Inr b\<rbrakk> \<Longrightarrow> decode_body P b = Inr m"
  by (fastforce simp: state_postcard_ok_def encode_body_def decode_body_def
      active_state_wire_version_def split: if_splits option.splits)

lemma read_write_state_frame:
  assumes "state_postcard_ok P" "write_state_frame P m = Inr b"
  shows "read_state_frame P (b @ rest) = Inr (m, rest)"
proof -
  from assms(2) obtain body where body: "encode_body P m = Inr body"
    and b: "b = [active_clipboard_magic] @ be_bytes 4 (length body mod 2 ^ 32) @ body"
    by (auto simp: write_state_frame_def split: sum.splits)
  from body have len: "length body \<le> max_body_size"
    by (auto simp: encode_body_def not_less split: if_splits option.splits)
  then have "length body < 256 ^ 4" by (simp add: max_body_size_def)
  with len decode_encode_body [OF assms(1) body] show ?thesis
    by (simp add: read_state_frame_def b frame_defs)
qed

text \<open>The magic bytes tell the protocols apart: a frame of one is an error for the others.\<close>

lemma magic_distinct:
  "clipboard_magic \<noteq> active_clipboard_magic" "clipboard_magic \<noteq> active_pull_magic"
  "active_clipboard_magic \<noteq> active_pull_magic"
  by (simp_all add: clipboard_magic_def active_clipboard_magic_def active_pull_magic_def)

end
