(* ===== verification/Loop_Guard.thy ===== *)
theory Loop_Guard
  imports Prelude "HOL-Library.Multiset"
begin

text \<open>
  The cycle detector of the mobile auto-sync loop,
  \<^verbatim>\<open>uc-mobile-proto/loop_guard.rs\<close>: the engine records every apply and every push; a
  content hash that flips between the two too often inside a window trips the guard.
  \<^verbatim>\<open>to_uppercase\<close> is modelled on its ASCII part (hashes are hexadecimal).
\<close>

datatype loop_direction = Pulled | Pushed

record loop_event =
  ev_hash :: string
  ev_direction :: loop_direction
  ev_at_millis :: int

definition default_window_secs :: real where "default_window_secs = 30"
definition default_flip_threshold :: int where "default_flip_threshold = 3"

definition loop_record ::
  "loop_event list \<Rightarrow> loop_direction \<Rightarrow> string option \<Rightarrow> int \<Rightarrow> real \<Rightarrow> loop_event list" where
  "loop_record events direction hash at_millis window_secs =
     (case hash of
        Some h \<Rightarrow>
          if h \<noteq> [] then
            (let cutoff = i64_wrap (at_millis - f64_as_i64 (window_secs * 1000)) in
             filter (\<lambda>e. cutoff \<le> ev_at_millis e) events @
             [\<lparr>ev_hash = str_upper h, ev_direction = direction, ev_at_millis = at_millis\<rparr>])
          else events
      | None \<Rightarrow> events)"

text \<open>One pass over a group in time order, with the last direction seen.\<close>

fun count_flips :: "loop_event list \<Rightarrow> loop_direction option \<Rightarrow> int \<Rightarrow> int" where
  "count_flips [] last_dir flips = flips"
| "count_flips (e # es) last_dir flips =
     count_flips es (Some (ev_direction e))
       (case last_dir of
          Some prev \<Rightarrow> if prev \<noteq> ev_direction e then flips + 1 else flips
        | None \<Rightarrow> flips)"

definition group_flips :: "string \<Rightarrow> loop_event list \<Rightarrow> int" where
  "group_flips h events =
     count_flips (sort_key ev_at_millis (filter (\<lambda>e. ev_hash e = h) events)) None 0"

text \<open>
  The groups are the values of a hash map, visited in no particular order: some group must
  reach the threshold.
\<close>

definition tripped :: "loop_event list \<Rightarrow> int \<Rightarrow> bool" where
  "tripped events flip_threshold =
     list_ex (\<lambda>h. flip_threshold \<le> group_flips h events) (remdups (map ev_hash events))"

section \<open>Flips\<close>

text \<open>The number of changes of direction in a sequence.\<close>

fun changes :: "loop_direction list \<Rightarrow> nat" where
  "changes [] = 0"
| "changes [d] = 0"
| "changes (d # e # ds) = (if d \<noteq> e then 1 else 0) + changes (e # ds)"

lemma count_flips_changes:
  "count_flips es (Some d) n = n + int (changes (d # map ev_direction es))"
  by (induction es arbitrary: d n) auto

lemma group_flips_changes:
  "group_flips h events =
   int (changes (map ev_direction (sort_key ev_at_millis (filter (\<lambda>e. ev_hash e = h) events))))"
proof -
  have "count_flips es None 0 = int (changes (map ev_direction es))" for es
    by (cases es) (simp_all add: count_flips_changes)
  then show ?thesis by (simp add: group_flips_def)
qed

lemma changes_replicate: "(\<forall>x \<in> set ds. x = d) \<Longrightarrow> changes ds = 0"
  by (induction ds rule: changes.induct) auto

lemma changes_le_length: "ds \<noteq> [] \<Longrightarrow> changes ds < length ds"
  by (induction ds rule: changes.induct) auto

lemma group_flips_absent: "h \<notin> ev_hash ` set events \<Longrightarrow> group_flips h events = 0"
proof -
  assume "h \<notin> ev_hash ` set events"
  then have "filter (\<lambda>e. ev_hash e = h) events = []" by (auto simp: filter_empty_conv)
  then show ?thesis by (simp add: group_flips_changes)
qed

lemma tripped_iff:
  assumes "0 < threshold"
  shows "tripped events threshold \<longleftrightarrow> (\<exists>h. threshold \<le> group_flips h events)"
proof -
  have "tripped events threshold \<longleftrightarrow>
      (\<exists>h \<in> ev_hash ` set events. threshold \<le> group_flips h events)"
    by (auto simp: tripped_def list_ex_iff)
  also have "\<dots> \<longleftrightarrow> (\<exists>h. threshold \<le> group_flips h events)"
  proof
    assume "\<exists>h. threshold \<le> group_flips h events"
    then obtain h where h: "threshold \<le> group_flips h events" ..
    with assms group_flips_absent [of h events] have "h \<in> ev_hash ` set events" by fastforce
    with h show "\<exists>h \<in> ev_hash ` set events. threshold \<le> group_flips h events" ..
  qed blast
  finally show ?thesis .
qed

text \<open>Events of one direction never trip the guard, however many there are.\<close>

lemma one_way_never_trips:
  assumes "0 < threshold"
    and "\<And>h. \<exists>d. \<forall>e \<in> set events. ev_hash e = h \<longrightarrow> ev_direction e = d"
  shows "\<not> tripped events threshold"
proof -
  have "group_flips h events = 0" for h
  proof -
    from assms(2) [of h] obtain d where "\<forall>e \<in> set events. ev_hash e = h \<longrightarrow> ev_direction e = d"
      by blast
    then have "\<forall>x \<in> set (map ev_direction
        (sort_key ev_at_millis (filter (\<lambda>e. ev_hash e = h) events))). x = d" by auto
    from changes_replicate [OF this] show ?thesis by (simp add: group_flips_changes)
  qed
  with assms(1) show ?thesis by (simp add: tripped_iff)
qed

lemma trip_needs_events:
  assumes "tripped events threshold" "0 < threshold"
  shows "threshold < int (length events)"
proof -
  from assms obtain h where h: "threshold \<le> group_flips h events" by (auto simp: tripped_iff)
  let ?ds = "map ev_direction (sort_key ev_at_millis (filter (\<lambda>e. ev_hash e = h) events))"
  from h assms(2) have "?ds \<noteq> []" by (auto simp: group_flips_changes)
  from changes_le_length [OF this] have "changes ?ds < length (filter (\<lambda>e. ev_hash e = h) events)"
    by simp
  also have "\<dots> \<le> length events" by (rule length_filter_le)
  finally show ?thesis using h by (simp add: group_flips_changes)
qed

section \<open>The buffer\<close>

lemma loop_record_window:
  assumes "e \<in> set (loop_record events d (Some h) t w)" "h \<noteq> []"
  shows "e = \<lparr>ev_hash = str_upper h, ev_direction = d, ev_at_millis = t\<rparr> \<or>
         (e \<in> set events \<and> i64_wrap (t - f64_as_i64 (w * 1000)) \<le> ev_at_millis e)"
  using assms by (auto simp: loop_record_def Let_def)

lemma loop_record_length: "length (loop_record events d h t w) \<le> Suc (length events)"
  by (auto simp: loop_record_def Let_def split: option.split intro: le_SucI)

text \<open>Recording an alternating sequence of one hash, inside the window.\<close>

fun ping_pong :: "nat \<Rightarrow> loop_direction \<Rightarrow> loop_direction list" where
  "ping_pong 0 d = []"
| "ping_pong (Suc n) d = d # ping_pong n (case d of Pulled \<Rightarrow> Pushed | Pushed \<Rightarrow> Pulled)"

fun record_all ::
  "loop_event list \<Rightarrow> string \<Rightarrow> real \<Rightarrow> (loop_direction \<times> int) list \<Rightarrow> loop_event list" where
  "record_all events h w [] = events"
| "record_all events h w ((d, t) # rest) = record_all (loop_record events d (Some h) t w) h w rest"

lemma changes_ping_pong: "changes (ping_pong (Suc n) d) = n"
  by (induction n arbitrary: d) (auto split: loop_direction.split)

lemma length_ping_pong [simp]: "length (ping_pong n d) = n"
  by (induction n arbitrary: d) auto

lemma record_all_window:
  assumes "h \<noteq> []"
    and "\<And>t u. \<lbrakk>t \<in> snd ` set ps; u \<in> snd ` set ps \<union> ev_at_millis ` set events\<rbrakk> \<Longrightarrow>
           i64_wrap (t - f64_as_i64 (w * 1000)) \<le> u"
  shows "record_all events h w ps =
         events @ map (\<lambda>(d, t). \<lparr>ev_hash = str_upper h, ev_direction = d, ev_at_millis = t\<rparr>) ps"
  using assms(2)
proof (induction ps arbitrary: events)
  case Nil
  then show ?case by simp
next
  case (Cons p ps)
  obtain d t where p: "p = (d, t)" by (cases p)
  let ?e = "\<lparr>ev_hash = str_upper h, ev_direction = d, ev_at_millis = t\<rparr>"
  have "filter (\<lambda>e. i64_wrap (t - f64_as_i64 (w * 1000)) \<le> ev_at_millis e) events = events"
    using Cons.prems [of t] by (auto simp: p intro!: filter_True)
  then have step: "loop_record events d (Some h) t w = events @ [?e]"
    using assms(1) by (simp add: loop_record_def Let_def)
  have "record_all (events @ [?e]) h w ps =
      (events @ [?e]) @ map (\<lambda>(d, t). \<lparr>ev_hash = str_upper h, ev_direction = d, ev_at_millis = t\<rparr>) ps"
  proof (rule Cons.IH)
    fix t' u assume "t' \<in> snd ` set ps"
      "u \<in> snd ` set ps \<union> ev_at_millis ` set (events @ [?e])"
    then show "i64_wrap (t' - f64_as_i64 (w * 1000)) \<le> u"
      by (intro Cons.prems) (auto simp: p)
  qed
  then show ?case by (simp add: p step)
qed

lemma ping_pong_flips:
  assumes "h \<noteq> []" "length ts = Suc n" "sorted ts"
    and "\<And>t u. \<lbrakk>t \<in> set ts; u \<in> set ts\<rbrakk> \<Longrightarrow> i64_wrap (t - f64_as_i64 (w * 1000)) \<le> u"
  shows "group_flips (str_upper h) (record_all [] h w (zip (ping_pong (Suc n) d) ts)) = int n"
proof -
  let ?ps = "zip (ping_pong (Suc n) d) ts"
  let ?f = "\<lambda>(d, t). \<lparr>ev_hash = str_upper h, ev_direction = d, ev_at_millis = t\<rparr>"
  have snds: "map snd ?ps = ts" "map fst ?ps = ping_pong (Suc n) d"
    using assms(2) by simp_all
  have "snd ` set ?ps = set ts" using arg_cong [OF snds(1), of set] by (simp only: set_map)
  then have "record_all [] h w ?ps = [] @ map ?f ?ps"
    using assms(4) by (intro record_all_window [OF assms(1)]) auto
  then have "record_all [] h w ?ps = map ?f ?ps" by simp
  moreover have "filter (\<lambda>e. ev_hash e = str_upper h) (map ?f ?ps) = map ?f ?ps"
    by (auto intro!: filter_True)
  moreover have "map ev_at_millis (map ?f ?ps) = ts"
    using snds(1) by (simp add: comp_def split_beta)
  then have "sort_key ev_at_millis (map ?f ?ps) = map ?f ?ps"
    using assms(3) by (intro sort_key_id_if_sorted) simp
  moreover have "map ev_direction (map ?f ?ps) = ping_pong (Suc n) d"
    using snds(2) by (simp add: comp_def split_beta)
  ultimately show ?thesis
    using changes_ping_pong [of n d] by (simp add: group_flips_changes del: ping_pong.simps)
qed

end
