(* ===== verification/Sync_Engine.thy ===== *)
theory Sync_Engine
  imports Loop_Guard
begin

text \<open>
  The decision core of the mobile sync engine, \<^verbatim>\<open>uc-mobile-proto/sync_engine.rs\<close>: a
  runtime state and pure transition functions the native shell drives once per tick (plan, do
  the I/O, commit). \<open>clip_doc\<close> is \<^verbatim>\<open>Clipboard\<close> of \<^verbatim>\<open>clipboard_doc.rs\<close>.

  \<^verbatim>\<open>f64\<close> values are exact reals, with the infinite cadence as a constructor of its own;
  \<^verbatim>\<open>i64\<close> arithmetic wraps, as in a release build.
\<close>

datatype clip_kind = TextK | ImageK | FileK | GroupK

record clip_doc =
  cd_kind :: clip_kind
  cd_hash :: "string option"
  cd_content_id :: "string option"
  cd_text :: string
  cd_has_data :: bool
  cd_data_name :: "string option"
  cd_size :: "int option"

datatype sync_state =
  Idle | Succeeded | HasNewUnwritten | OfflineRetrying | AuthFailed | LoopDetected

record sync_config =
  normal_cadence_secs :: real
  inactive_cadence_secs :: real
  offline_backoff_secs :: real
  offline_backoff_max_secs :: real
  history_sync_interval_secs :: real
  loop_window_secs :: real
  loop_flip_threshold :: int

definition default_config :: sync_config where
  "default_config =
     \<lparr>normal_cadence_secs = 1, inactive_cadence_secs = 5, offline_backoff_secs = 5,
      offline_backoff_max_secs = 60, history_sync_interval_secs = 30,
      loop_window_secs = default_window_secs, loop_flip_threshold = default_flip_threshold\<rparr>"

record runtime =
  st_state :: sync_state
  last_synced_hash :: "string option"
  last_synced_content_id :: "string option"
  last_applied_hash :: "string option"
  loop_events :: "loop_event list"
  staged_server_hash :: "string option"
  staged_content_id :: "string option"
  staged_entry :: "clip_doc option"
  consecutive_failures :: int
  next_attempt_ms :: "int option"
  last_history_sync_ms :: "int option"

definition default_runtime :: runtime where
  "default_runtime =
     \<lparr>st_state = Idle, last_synced_hash = None, last_synced_content_id = None,
      last_applied_hash = None, loop_events = [], staged_server_hash = None,
      staged_content_id = None, staged_entry = None, consecutive_failures = 0,
      next_attempt_ms = None, last_history_sync_ms = None\<rparr>"

section \<open>Helpers\<close>

definition hashes_equal :: "string option \<Rightarrow> string option \<Rightarrow> bool" where
  "hashes_equal a b =
     (case (a, b) of
        (None, None) \<Rightarrow> True
      | (Some l, Some r) \<Rightarrow> eq_ignore_ascii_case l r
      | _ \<Rightarrow> False)"

definition nonempty :: "string option \<Rightarrow> string option" where
  "nonempty s = (case s of Some t \<Rightarrow> if t \<noteq> [] then Some t else None | None \<Rightarrow> None)"

definition upper_nonempty :: "string option \<Rightarrow> string option" where
  "upper_nonempty h = map_option str_upper (nonempty h)"

definition advance_synced :: "string option \<Rightarrow> string option \<Rightarrow> runtime \<Rightarrow> runtime" where
  "advance_synced hash content_id st =
     (case hash of
        Some h \<Rightarrow>
          if h \<noteq> [] then
            st\<lparr>last_synced_hash := Some (str_upper h), last_synced_content_id := nonempty content_id\<rparr>
          else st
      | None \<Rightarrow> st)"

definition clear_staged :: "runtime \<Rightarrow> runtime" where
  "clear_staged st =
     st\<lparr>staged_server_hash := None, staged_content_id := None, staged_entry := None\<rparr>"

definition record_and_check ::
  "loop_direction \<Rightarrow> string option \<Rightarrow> int \<Rightarrow> sync_config \<Rightarrow> runtime \<Rightarrow> bool \<times> runtime" where
  "record_and_check direction hash now_ms cfg st =
     (let events = loop_record (loop_events st) direction hash now_ms (loop_window_secs cfg);
          st1 = st\<lparr>loop_events := events\<rparr>;
          trip = tripped events (loop_flip_threshold cfg) in
      (trip, if trip then st1\<lparr>st_state := LoopDetected\<rparr> else st1))"

definition backoff_secs :: "int \<Rightarrow> real \<Rightarrow> real \<Rightarrow> real \<Rightarrow> real" where
  "backoff_secs failures0 base max_secs jitter =
     (let failures = max failures0 1;
          exponent = min (failures - 1) 6;
          multiplier = 2 ^ nat exponent;
          capped = min (base * multiplier) max_secs in
      capped * jitter)"

datatype cadence = Every real | Never

definition cadence_secs :: "sync_state \<Rightarrow> bool \<Rightarrow> sync_config \<Rightarrow> cadence" where
  "cadence_secs s inactive cfg =
     (if s = AuthFailed \<or> s = LoopDetected then Never
      else if inactive then Every (inactive_cadence_secs cfg)
      else Every (normal_cadence_secs cfg))"

definition is_history_sync_due :: "int option \<Rightarrow> int \<Rightarrow> real \<Rightarrow> bool" where
  "is_history_sync_due last_sync now_ms interval =
     (case last_sync of
        None \<Rightarrow> True
      | Some t0 \<Rightarrow> interval \<le> real_of_int (i64_wrap (now_ms - t0)) / 1000)"

definition is_cold_start :: "int option \<Rightarrow> bool" where
  "is_cold_start watermark = (watermark = None)"

definition advance_watermark :: "int option \<Rightarrow> int \<Rightarrow> int option" where
  "advance_watermark current max_last_modified =
     (case current of
        Some c \<Rightarrow> if max_last_modified \<le> c then None else Some max_last_modified
      | None \<Rightarrow> Some max_last_modified)"

definition is_probe_conclusion_valid :: "nat \<Rightarrow> nat \<Rightarrow> bool" where
  "is_probe_conclusion_valid report_epoch current_epoch = (report_epoch = current_epoch)"

section \<open>Preamble\<close>

record preamble_snapshot =
  ps_explicit :: bool
  ps_auto_push :: bool
  has_active_server :: bool
  ps_device_hash :: "string option"
  history_head_hash :: "string option"
  persisted_synced_hash :: "string option"
  persisted_synced_content_id :: "string option"
  ps_now_ms :: int

datatype stop_reason = NoActiveServer | Paused | BackoffGate

datatype proceed = Stop stop_reason | ToNetwork

definition plan_preamble :: "preamble_snapshot \<Rightarrow> runtime \<Rightarrow> (bool \<times> proceed) \<times> runtime" where
  "plan_preamble snap st =
     (let record_local =
        ps_auto_push snap \<and>
        (case ps_device_hash snap of
           None \<Rightarrow> False
         | Some h \<Rightarrow> h \<noteq> [] \<and> \<not> hashes_equal (Some h) (last_applied_hash st) \<and>
                     \<not> hashes_equal (Some h) (history_head_hash snap)) in
      if \<not> has_active_server snap then
        ((record_local, Stop NoActiveServer), st\<lparr>st_state := Idle\<rparr>)
      else if st_state st = AuthFailed \<or> st_state st = LoopDetected then
        ((record_local, Stop Paused), st)
      else if \<not> ps_explicit snap \<and>
              (case next_attempt_ms st of None \<Rightarrow> False | Some t \<Rightarrow> ps_now_ms snap < t) then
        ((record_local, Stop BackoffGate), st)
      else
        (let hash_differs = \<not> hashes_equal (persisted_synced_hash snap) (last_synced_hash st);
             content_id_differs =
               nonempty (persisted_synced_content_id snap) \<noteq> nonempty (last_synced_content_id st);
             st' = (if hash_differs \<or> content_id_differs
                    then st\<lparr>last_synced_hash := map_option str_upper (persisted_synced_hash snap),
                            last_synced_content_id := nonempty (persisted_synced_content_id snap)\<rparr>
                    else st) in
         ((record_local, ToNetwork), st')))"

section \<open>Routing\<close>

record server_snapshot =
  ss_auto_apply :: bool
  ss_auto_push :: bool
  server_entry :: "clip_doc option"
  device_present :: bool
  ss_device_hash :: "string option"

datatype push_decision =
  SkipConsentMode | SkipNoDevice | SkipAlreadySynced | SkipSelfWritten | DoPush

datatype server_route =
    Converged string
  | ServerNew (already_staged: bool) (will_apply: bool)
  | Push push_decision

definition is_already_synced :: "clip_doc \<Rightarrow> runtime \<Rightarrow> bool" where
  "is_already_synced entry st =
     (case (nonempty (cd_content_id entry), nonempty (last_synced_content_id st)) of
        (Some a, Some b) \<Rightarrow> a = b
      | _ \<Rightarrow> hashes_equal (cd_hash entry) (last_synced_hash st))"

definition eq_ignoring_content_id :: "clip_doc \<Rightarrow> clip_doc \<Rightarrow> bool" where
  "eq_ignoring_content_id a b =
     ((cd_kind a, cd_hash a, cd_text a, cd_has_data a, cd_data_name a, cd_size a) =
      (cd_kind b, cd_hash b, cd_text b, cd_has_data b, cd_data_name b, cd_size b))"

definition plan_server_new :: "runtime \<Rightarrow> bool \<Rightarrow> clip_doc \<Rightarrow> server_route" where
  "plan_server_new st auto_apply entry =
     (let entry_has_hash = (case cd_hash entry of None \<Rightarrow> False | Some h \<Rightarrow> h \<noteq> []) in
      ServerNew
        (case (nonempty (cd_content_id entry), nonempty (staged_content_id st)) of
           (Some a, Some b) \<Rightarrow> a = b
         | _ \<Rightarrow>
             if entry_has_hash then
               (case staged_server_hash st of
                  None \<Rightarrow> False
                | Some s \<Rightarrow> hashes_equal (Some s) (cd_hash entry))
             else (case staged_entry st of
                     None \<Rightarrow> False
                   | Some s \<Rightarrow> eq_ignoring_content_id s entry))
        (auto_apply \<and> entry_has_hash))"

definition plan_push :: "runtime \<Rightarrow> server_snapshot \<Rightarrow> push_decision" where
  "plan_push st snap =
     (if \<not> ss_auto_push snap then SkipConsentMode
      else if \<not> device_present snap then SkipNoDevice
      else if hashes_equal (ss_device_hash snap) (last_synced_hash st) then SkipAlreadySynced
      else if hashes_equal (ss_device_hash snap) (last_applied_hash st) then SkipSelfWritten
      else DoPush)"

definition converged_hash :: "server_snapshot \<Rightarrow> string option" where
  "converged_hash snap =
     (case server_entry snap of
        None \<Rightarrow> None
      | Some entry \<Rightarrow>
          (case (nonempty (cd_hash entry), nonempty (ss_device_hash snap)) of
             (Some sh, Some dh) \<Rightarrow>
               if hashes_equal (Some sh) (Some dh) then Some (str_upper sh) else None
           | _ \<Rightarrow> None))"

definition plan_after_server_get :: "runtime \<Rightarrow> server_snapshot \<Rightarrow> server_route" where
  "plan_after_server_get st snap =
     (case converged_hash snap of
        Some sh \<Rightarrow> Converged sh
      | None \<Rightarrow>
          (case server_entry snap of
             Some entry \<Rightarrow>
               if \<not> is_already_synced entry st then plan_server_new st (ss_auto_apply snap) entry
               else Push (plan_push st snap)
           | None \<Rightarrow> Push (plan_push st snap)))"

section \<open>Commits\<close>

definition commit_converged :: "string \<Rightarrow> string option \<Rightarrow> runtime \<Rightarrow> runtime" where
  "commit_converged server_hash content_id st =
     (clear_staged ((advance_synced (Some server_hash) content_id st)
        \<lparr>last_applied_hash := upper_nonempty (Some server_hash)\<rparr>))\<lparr>st_state := Succeeded\<rparr>"

definition commit_apply ::
  "string option \<Rightarrow> string option \<Rightarrow> int \<Rightarrow> sync_config \<Rightarrow> runtime \<Rightarrow> bool \<times> runtime" where
  "commit_apply hash content_id now_ms cfg st =
     record_and_check Pulled hash now_ms cfg
       ((clear_staged ((advance_synced hash content_id st)
          \<lparr>last_applied_hash := upper_nonempty hash\<rparr>))\<lparr>st_state := Succeeded\<rparr>)"

definition stage :: "clip_doc \<Rightarrow> runtime \<Rightarrow> runtime" where
  "stage entry st =
     st\<lparr>staged_server_hash := cd_hash entry, staged_content_id := nonempty (cd_content_id entry),
        staged_entry := Some entry\<rparr>"

definition commit_apply_failed :: "clip_doc \<Rightarrow> runtime \<Rightarrow> runtime" where
  "commit_apply_failed entry st = stage entry st"

definition commit_stage :: "clip_doc \<Rightarrow> runtime \<Rightarrow> runtime" where
  "commit_stage entry st = (stage entry st)\<lparr>st_state := HasNewUnwritten\<rparr>"

definition commit_push ::
  "string option \<Rightarrow> string option \<Rightarrow> int \<Rightarrow> sync_config \<Rightarrow> runtime \<Rightarrow> bool \<times> runtime" where
  "commit_push pushed_hash content_id now_ms cfg st =
     (case nonempty pushed_hash of
        None \<Rightarrow> (False, st\<lparr>st_state := Succeeded\<rparr>)
      | Some h \<Rightarrow>
          record_and_check Pushed (Some h) now_ms cfg
            ((advance_synced (Some h) content_id st)\<lparr>st_state := Succeeded\<rparr>))"

definition commit_push_skipped :: "runtime \<Rightarrow> runtime" where
  "commit_push_skipped st = st\<lparr>st_state := Succeeded\<rparr>"

definition commit_consent_push ::
  "string option \<Rightarrow> int \<Rightarrow> sync_config \<Rightarrow> runtime \<Rightarrow> bool \<times> runtime" where
  "commit_consent_push pushed_hash now_ms cfg st =
     (let st1 = (advance_synced pushed_hash None st)
                  \<lparr>last_applied_hash := upper_nonempty pushed_hash\<rparr> in
      case record_and_check Pushed pushed_hash now_ms cfg st1 of
        (trip, st2) \<Rightarrow>
          (trip, if \<not> trip then st2\<lparr>st_state := Succeeded, consecutive_failures := 0\<rparr> else st2))"

definition commit_tick_success :: "runtime \<Rightarrow> runtime" where
  "commit_tick_success st = st\<lparr>consecutive_failures := 0, next_attempt_ms := None\<rparr>"

datatype tick_error =
    AuthFailedE | Cancelled | NetworkUnreachable | ConnectTimeout | ReceiveTimeout
  | OtherSyncError | Unexpected

text \<open>The pair returned: kick a probe, first offline transition.\<close>

definition commit_tick_failure ::
  "tick_error \<Rightarrow> real \<Rightarrow> int \<Rightarrow> sync_config \<Rightarrow> runtime \<Rightarrow> (bool \<times> bool) \<times> runtime" where
  "commit_tick_failure kind jitter now_ms cfg st =
     (if kind = Cancelled then ((False, False), st)
      else if kind = AuthFailedE then ((False, False), st\<lparr>st_state := AuthFailed\<rparr>)
      else
        (let failures = i64_wrap (consecutive_failures st + 1);
             backoff = backoff_secs failures (offline_backoff_secs cfg)
                         (offline_backoff_max_secs cfg) jitter;
             kick_probe = (kind = NetworkUnreachable \<or> kind = ConnectTimeout \<or>
                           kind = ReceiveTimeout \<or> kind = Unexpected) in
         ((kick_probe, failures = 1),
          st\<lparr>consecutive_failures := failures,
             next_attempt_ms := Some (i64_wrap (now_ms + f64_as_i64 (backoff * 1000))),
             st_state := OfflineRetrying\<rparr>)))"

definition commit_history_sync_done :: "int \<Rightarrow> runtime \<Rightarrow> runtime" where
  "commit_history_sync_done now_ms st = st\<lparr>last_history_sync_ms := Some now_ms\<rparr>"

section \<open>User and network transitions\<close>

definition mark_staged_applied :: "runtime \<Rightarrow> bool \<times> runtime" where
  "mark_staged_applied st =
     (case staged_server_hash st of
        None \<Rightarrow> (False, st)
      | Some hash \<Rightarrow>
          (True,
           (clear_staged ((advance_synced (Some hash) (staged_content_id st) st)
              \<lparr>last_applied_hash := upper_nonempty (Some hash)\<rparr>))\<lparr>st_state := Succeeded\<rparr>))"

definition acknowledge_loop_detection :: "runtime \<Rightarrow> runtime" where
  "acknowledge_loop_detection st = st\<lparr>loop_events := [], st_state := Idle\<rparr>"

definition reset_runtime_state :: "runtime \<Rightarrow> runtime" where
  "reset_runtime_state st =
     st\<lparr>staged_server_hash := None, staged_content_id := None, staged_entry := None,
        last_applied_hash := None, loop_events := [], st_state := Idle, next_attempt_ms := None,
        consecutive_failures := 0, last_history_sync_ms := None\<rparr>"

definition handle_active_server_changed :: "runtime \<Rightarrow> runtime" where
  "handle_active_server_changed st =
     (reset_runtime_state st)\<lparr>last_synced_hash := None, last_synced_content_id := None\<rparr>"

definition handle_network_route_changed :: "runtime \<Rightarrow> runtime" where
  "handle_network_route_changed st = st\<lparr>consecutive_failures := 0, next_attempt_ms := None\<rparr>"

section \<open>What counts as synced\<close>

lemma hashes_equal_upper [simp]: "hashes_equal (Some h) (Some (str_upper h))"
  by (simp add: hashes_equal_def eq_ignore_ascii_case_upper)

lemma hashes_equal_refl [simp]: "hashes_equal a a"
  by (simp add: hashes_equal_def split: option.split)

lemma nonempty_Some_iff: "nonempty s = Some t \<longleftrightarrow> s = Some t \<and> t \<noteq> []"
  by (auto simp: nonempty_def split: option.splits)

lemma nonempty_idem [simp]: "nonempty (nonempty s) = nonempty s"
  by (simp add: nonempty_def split: option.split)

lemma synced_after_advance:
  "\<lbrakk>cd_hash e = Some h; h \<noteq> []\<rbrakk> \<Longrightarrow> is_already_synced e (advance_synced (Some h) (cd_content_id e) st)"
  by (simp add: is_already_synced_def advance_synced_def split: option.split)

lemma synced_by_identity:
  "\<lbrakk>nonempty cid = Some c; nonempty (cd_content_id e) = Some c; h \<noteq> []\<rbrakk> \<Longrightarrow>
   is_already_synced e (advance_synced (Some h) cid st)"
  by (auto simp: is_already_synced_def advance_synced_def nonempty_def split: option.splits if_splits)

lemma is_already_synced_cong:
  "\<lbrakk>last_synced_hash st = last_synced_hash st';
    last_synced_content_id st = last_synced_content_id st'\<rbrakk> \<Longrightarrow>
   is_already_synced e st = is_already_synced e st'"
  by (simp add: is_already_synced_def split: option.split)

lemma clear_staged_fields [simp]:
  "last_synced_hash (clear_staged st) = last_synced_hash st"
  "last_synced_content_id (clear_staged st) = last_synced_content_id st"
  "last_applied_hash (clear_staged st) = last_applied_hash st"
  "loop_events (clear_staged st) = loop_events st"
  "st_state (clear_staged st) = st_state st"
  "consecutive_failures (clear_staged st) = consecutive_failures st"
  "staged_entry (clear_staged st) = None"
  "staged_server_hash (clear_staged st) = None"
  "staged_content_id (clear_staged st) = None"
  by (simp_all add: clear_staged_def)

lemma record_and_check_fields [simp]:
  "last_synced_hash (snd (record_and_check d h t cfg st)) = last_synced_hash st"
  "last_synced_content_id (snd (record_and_check d h t cfg st)) = last_synced_content_id st"
  "last_applied_hash (snd (record_and_check d h t cfg st)) = last_applied_hash st"
  "staged_entry (snd (record_and_check d h t cfg st)) = staged_entry st"
  "staged_server_hash (snd (record_and_check d h t cfg st)) = staged_server_hash st"
  "staged_content_id (snd (record_and_check d h t cfg st)) = staged_content_id st"
  "loop_events (snd (record_and_check d h t cfg st)) =
     loop_record (loop_events st) d h t (loop_window_secs cfg)"
  "st_state (snd (record_and_check d h t cfg st)) =
     (if fst (record_and_check d h t cfg st) then LoopDetected else st_state st)"
  by (simp_all add: record_and_check_def Let_def)

lemma advance_synced_fields [simp]:
  "last_applied_hash (advance_synced h c st) = last_applied_hash st"
  "loop_events (advance_synced h c st) = loop_events st"
  "st_state (advance_synced h c st) = st_state st"
  "staged_entry (advance_synced h c st) = staged_entry st"
  "staged_server_hash (advance_synced h c st) = staged_server_hash st"
  "staged_content_id (advance_synced h c st) = staged_content_id st"
  by (simp_all add: advance_synced_def split: option.split)

lemma commit_apply_synced:
  "last_synced_hash (snd (commit_apply h c t cfg st)) = last_synced_hash (advance_synced h c st)"
  "last_synced_content_id (snd (commit_apply h c t cfg st)) =
     last_synced_content_id (advance_synced h c st)"
  "last_applied_hash (snd (commit_apply h c t cfg st)) = upper_nonempty h"
  by (simp_all add: commit_apply_def)

lemma commit_push_synced:
  "h \<noteq> [] \<Longrightarrow> last_synced_hash (snd (commit_push (Some h) c t cfg st)) =
     last_synced_hash (advance_synced (Some h) c st)"
  "h \<noteq> [] \<Longrightarrow> last_synced_content_id (snd (commit_push (Some h) c t cfg st)) =
     last_synced_content_id (advance_synced (Some h) c st)"
  by (simp_all add: commit_push_def nonempty_def)

lemma already_synced_not_new:
  "is_already_synced e st \<Longrightarrow> server_entry snap = Some e \<Longrightarrow>
   plan_after_server_get st snap \<noteq> ServerNew a b"
  by (simp add: plan_after_server_get_def split: option.split)

lemma applied_not_pushed:
  assumes "upper_nonempty (Some h) = last_applied_hash st" "h \<noteq> []"
    and "ss_device_hash snap = Some d" "eq_ignore_ascii_case d h"
  shows "plan_push st snap \<noteq> DoPush"
proof -
  have "hashes_equal (ss_device_hash snap) (last_applied_hash st)"
    using assms by (simp add: upper_nonempty_def nonempty_def hashes_equal_def
        eq_ignore_ascii_case_upper assms(1) [symmetric])
  then show ?thesis by (simp add: plan_push_def)
qed

section \<open>Staging\<close>

lemma stage_already_staged:
  "plan_server_new (stage e st) auto e = ServerNew s w \<Longrightarrow> s"
  by (auto simp: plan_server_new_def stage_def Let_def eq_ignoring_content_id_def
      split: option.splits if_splits)

section \<open>The invariant of the runtime state\<close>

definition runtime_inv :: "runtime \<Rightarrow> bool" where
  "runtime_inv st \<longleftrightarrow>
     (\<forall>c. last_synced_content_id st = Some c \<longrightarrow> c \<noteq> [] \<and> last_synced_hash st \<noteq> None) \<and>
     (\<forall>h. last_synced_hash st = Some h \<longrightarrow> str_upper h = h) \<and>
     (\<forall>h. last_applied_hash st = Some h \<longrightarrow> h \<noteq> [] \<and> str_upper h = h) \<and>
     (staged_entry st = None \<longrightarrow> staged_server_hash st = None \<and> staged_content_id st = None) \<and>
     (\<forall>e. staged_entry st = Some e \<longrightarrow>
        staged_server_hash st = cd_hash e \<and> staged_content_id st = nonempty (cd_content_id e))"

text \<open>A transition the shell can make; the persisted watermark is written as a pair.\<close>

inductive engine_step :: "sync_config \<Rightarrow> runtime \<Rightarrow> runtime \<Rightarrow> bool" for cfg where
  preamble: "(nonempty (persisted_synced_content_id snap) \<noteq> None \<longrightarrow>
                persisted_synced_hash snap \<noteq> None) \<Longrightarrow>
     engine_step cfg st (snd (plan_preamble snap st))"
| converged: "engine_step cfg st (commit_converged h c st)"
| applied: "engine_step cfg st (snd (commit_apply ho c t cfg st))"
| apply_failed: "engine_step cfg st (commit_apply_failed e st)"
| staged: "engine_step cfg st (commit_stage e st)"
| pushed: "engine_step cfg st (snd (commit_push ho c t cfg st))"
| push_skipped: "engine_step cfg st (commit_push_skipped st)"
| consent: "engine_step cfg st (snd (commit_consent_push ho t cfg st))"
| success: "engine_step cfg st (commit_tick_success st)"
| failure: "engine_step cfg st (snd (commit_tick_failure k j t cfg st))"
| history: "engine_step cfg st (commit_history_sync_done t st)"
| mark: "engine_step cfg st (snd (mark_staged_applied st))"
| ack: "engine_step cfg st (acknowledge_loop_detection st)"
| reset: "engine_step cfg st (reset_runtime_state st)"
| server_changed: "engine_step cfg st (handle_active_server_changed st)"
| route_changed: "engine_step cfg st (handle_network_route_changed st)"

inductive engine_reach :: "sync_config \<Rightarrow> runtime \<Rightarrow> bool" for cfg where
  start: "engine_reach cfg default_runtime"
| step: "\<lbrakk>engine_reach cfg st; engine_step cfg st st'\<rbrakk> \<Longrightarrow> engine_reach cfg st'"

lemma upper_nonempty_Some: "upper_nonempty s = Some t \<Longrightarrow> t \<noteq> [] \<and> str_upper t = t"
  by (auto simp: upper_nonempty_def nonempty_Some_iff)

lemma runtime_inv_advance: "runtime_inv st \<Longrightarrow> runtime_inv (advance_synced h c st)"
  by (auto simp: runtime_inv_def advance_synced_def nonempty_Some_iff split: option.splits)

lemma runtime_inv_clear: "runtime_inv st \<Longrightarrow> runtime_inv (clear_staged st)"
  by (auto simp: runtime_inv_def split: option.splits)

lemma runtime_inv_applied: "runtime_inv st \<Longrightarrow> runtime_inv (st\<lparr>last_applied_hash := upper_nonempty h\<rparr>)"
  by (auto simp: runtime_inv_def dest: upper_nonempty_Some split: option.splits)

lemma runtime_inv_state [simp]:
  "runtime_inv (st\<lparr>st_state := s\<rparr>) = runtime_inv st"
  "runtime_inv (st\<lparr>consecutive_failures := n\<rparr>) = runtime_inv st"
  "runtime_inv (st\<lparr>next_attempt_ms := a\<rparr>) = runtime_inv st"
  "runtime_inv (st\<lparr>last_history_sync_ms := a\<rparr>) = runtime_inv st"
  "runtime_inv (st\<lparr>loop_events := es\<rparr>) = runtime_inv st"
  by (simp_all add: runtime_inv_def)

lemma runtime_inv_record [simp]:
  "runtime_inv (snd (record_and_check d h t cfg st)) = runtime_inv st"
  by (simp add: record_and_check_def Let_def)

lemma runtime_inv_stage: "runtime_inv st \<Longrightarrow> runtime_inv (stage e st)"
  by (auto simp: runtime_inv_def stage_def)

lemmas runtime_inv_intros =
  runtime_inv_advance runtime_inv_clear runtime_inv_applied runtime_inv_stage

lemma runtime_inv_preamble:
  assumes "nonempty (persisted_synced_content_id snap) \<noteq> None \<longrightarrow> persisted_synced_hash snap \<noteq> None"
    and "runtime_inv st"
  shows "runtime_inv (snd (plan_preamble snap st))"
  using assms
  by (auto simp: plan_preamble_def Let_def) (auto simp: runtime_inv_def nonempty_Some_iff)

lemma runtime_inv_step: "\<lbrakk>engine_step cfg st st'; runtime_inv st\<rbrakk> \<Longrightarrow> runtime_inv st'"
proof (induction rule: engine_step.induct)
  case (mark st)
  then show ?case
    by (auto simp: mark_staged_applied_def intro!: runtime_inv_intros split: option.split)
next
  case (consent st ho t)
  then show ?case
    by (auto simp: commit_consent_push_def Let_def split_beta intro!: runtime_inv_intros)
next
  case (pushed st ho c t)
  then show ?case
    by (auto simp: commit_push_def intro!: runtime_inv_intros split: option.split)
next
  case (failure st k j t)
  then show ?case by (simp add: commit_tick_failure_def Let_def)
next
  case (reset st)
  then show ?case by (simp add: reset_runtime_state_def runtime_inv_def)
next
  case (server_changed st)
  then show ?case
    by (simp add: handle_active_server_changed_def reset_runtime_state_def runtime_inv_def)
qed (auto simp: commit_converged_def commit_apply_def commit_apply_failed_def commit_stage_def
    commit_push_skipped_def commit_tick_success_def commit_history_sync_done_def
    acknowledge_loop_detection_def handle_network_route_changed_def runtime_inv_preamble
    intro!: runtime_inv_intros)

lemma engine_reach_inv: "engine_reach cfg st \<Longrightarrow> runtime_inv st"
proof (induction rule: engine_reach.induct)
  case start
  then show ?case by (simp add: runtime_inv_def default_runtime_def)
next
  case (step st st')
  from runtime_inv_step [OF step.hyps(2) step.IH] show ?case .
qed

section \<open>Backoff\<close>

lemma backoff_bounds:
  assumes "0 < base" "base \<le> max_secs" "0 \<le> jitter"
  shows "base * jitter \<le> backoff_secs n base max_secs jitter"
    and "backoff_secs n base max_secs jitter \<le> max_secs * jitter"
proof -
  have "1 \<le> (2 :: real) ^ nat (min (max n 1 - 1) 6)" by (rule one_le_power) simp
  then have "base \<le> base * 2 ^ nat (min (max n 1 - 1) 6)"
    using assms(1) by (simp add: mult_le_cancel_left1)
  then show "base * jitter \<le> backoff_secs n base max_secs jitter"
    using assms by (simp add: backoff_secs_def Let_def mult_right_mono)
  show "backoff_secs n base max_secs jitter \<le> max_secs * jitter"
    using assms(3) by (simp add: backoff_secs_def Let_def mult_right_mono)
qed

lemma backoff_mono:
  assumes "0 < base" "0 \<le> jitter" "m \<le> n"
  shows "backoff_secs m base max_secs jitter \<le> backoff_secs n base max_secs jitter"
proof -
  have "nat (min (max m 1 - 1) 6) \<le> nat (min (max n 1 - 1) 6)" using assms(3) by simp
  then have "(2 :: real) ^ nat (min (max m 1 - 1) 6) \<le> 2 ^ nat (min (max n 1 - 1) 6)"
    by (rule power_increasing) simp
  then have "base * 2 ^ nat (min (max m 1 - 1) 6) \<le> base * 2 ^ nat (min (max n 1 - 1) 6)"
    using assms(1) by simp
  then show ?thesis
    using assms(2) by (simp only: backoff_secs_def Let_def) (intro mult_right_mono min.mono order_refl)
qed

lemma i64_sat_between: "\<lbrakk>a \<le> x; x \<le> b; in_i64 a; in_i64 b\<rbrakk> \<Longrightarrow> a \<le> i64_sat x \<and> i64_sat x \<le> b"
  by (auto simp: i64_sat_def i64_bounds)

lemma failure_delay:
  assumes "k \<noteq> Cancelled" "k \<noteq> AuthFailedE" "4/5 \<le> jitter" "jitter \<le> 6/5"
    and "0 \<le> now" "in_i64 (now + 72000)"
    and "commit_tick_failure k jitter now default_config st = (out, st')"
  shows "\<exists>t. next_attempt_ms st' = Some t \<and> now + 4000 \<le> t \<and> t \<le> now + 72000"
proof -
  let ?b = "backoff_secs (i64_wrap (consecutive_failures st + 1)) 5 60 jitter"
  have "5 * jitter \<le> ?b" "?b \<le> 60 * jitter"
    using backoff_bounds [of 5 60 jitter "i64_wrap (consecutive_failures st + 1)"] assms by simp_all
  with assms(3,4) have b: "4000 \<le> ?b * 1000" "?b * 1000 \<le> 72000" by simp_all
  have "f64_as_i64 4000 \<le> f64_as_i64 (?b * 1000)" "f64_as_i64 (?b * 1000) \<le> f64_as_i64 72000"
    using b by (intro f64_as_i64_mono; simp)+
  then have d: "4000 \<le> f64_as_i64 (?b * 1000)" "f64_as_i64 (?b * 1000) \<le> 72000"
    by (simp_all add: i64_bounds)
  then have "in_i64 (now + f64_as_i64 (?b * 1000))"
    using assms(5,6) by (simp add: i64_bounds)
  with d assms(1,2,7) show ?thesis
    by (auto simp: commit_tick_failure_def Let_def default_config_def)
qed

section \<open>The loop breaker\<close>

text \<open>Content of one hash applied and pushed in turn.\<close>

definition flow_step ::
  "sync_config \<Rightarrow> string \<Rightarrow> string option \<Rightarrow> loop_direction \<times> int \<Rightarrow> runtime \<Rightarrow> runtime" where
  "flow_step cfg h cid p st =
     (case p of
        (Pulled, t) \<Rightarrow> snd (commit_apply (Some h) cid t cfg st)
      | (Pushed, t) \<Rightarrow> snd (commit_push (Some h) cid t cfg st))"

definition flows ::
  "sync_config \<Rightarrow> string \<Rightarrow> string option \<Rightarrow> (loop_direction \<times> int) list \<Rightarrow> runtime \<Rightarrow> runtime" where
  "flows cfg h cid ps st = fold (flow_step cfg h cid) ps st"

lemma flow_step_events:
  "h \<noteq> [] \<Longrightarrow> loop_events (flow_step cfg h cid (d, t) st) =
     loop_record (loop_events st) d (Some h) t (loop_window_secs cfg)"
  by (cases d) (simp_all add: flow_step_def commit_apply_def commit_push_def nonempty_def)

lemma flow_step_state:
  "h \<noteq> [] \<Longrightarrow> st_state (flow_step cfg h cid (d, t) st) =
     (if tripped (loop_events (flow_step cfg h cid (d, t) st)) (loop_flip_threshold cfg)
      then LoopDetected else Succeeded)"
  by (cases d)
     (simp_all add: flow_step_def commit_apply_def commit_push_def nonempty_def
       record_and_check_def Let_def)

lemma flows_events:
  "h \<noteq> [] \<Longrightarrow> loop_events (flows cfg h cid ps st) =
     record_all (loop_events st) h (loop_window_secs cfg) ps"
  by (induction ps arbitrary: st) (auto simp: flows_def flow_step_events)

lemma record_all_hashes:
  "e \<in> set (record_all events h w ps) \<Longrightarrow> e \<in> set events \<or> ev_hash e = str_upper h"
proof (induction ps arbitrary: events)
  case Nil
  then show ?case by simp
next
  case (Cons p ps)
  obtain d t where "p = (d, t)" by (cases p)
  with Cons.prems Cons.IH [of "loop_record events d (Some h) t w"]
  show ?case by (auto simp: loop_record_def Let_def split: if_splits)
qed

lemma ping_pong_state:
  assumes "h \<noteq> []" "loop_events st = []" "0 < loop_flip_threshold cfg"
    and "length ts = Suc n" "sorted ts"
    and "\<And>t u. \<lbrakk>t \<in> set ts; u \<in> set ts\<rbrakk> \<Longrightarrow>
           i64_wrap (t - f64_as_i64 (loop_window_secs cfg * 1000)) \<le> u"
  shows "st_state (flows cfg h cid (zip (ping_pong (Suc n) d) ts) st) =
         (if loop_flip_threshold cfg \<le> int n then LoopDetected else Succeeded)"
proof -
  let ?ps = "zip (ping_pong (Suc n) d) ts" and ?w = "loop_window_secs cfg"
  have "?ps \<noteq> []" using assms(4) by (cases ts) auto
  then obtain qs p where ps: "?ps = qs @ [p]" by (metis rev_exhaust)
  obtain d' t where p: "p = (d', t)" by (cases p)
  have events: "loop_events (flows cfg h cid ?ps st) = record_all [] h ?w ?ps"
    by (simp only: flows_events [OF assms(1)] assms(2))
  have "st_state (flows cfg h cid ?ps st) =
      (if tripped (loop_events (flows cfg h cid ?ps st)) (loop_flip_threshold cfg)
       then LoopDetected else Succeeded)"
    by (simp only: flows_def ps p fold_append comp_def fold.simps id_apply
        flow_step_state [OF assms(1)])
  moreover have "tripped (record_all [] h ?w ?ps) (loop_flip_threshold cfg) \<longleftrightarrow>
      loop_flip_threshold cfg \<le> int n"
  proof -
    have "group_flips h' (record_all [] h ?w ?ps) = (if h' = str_upper h then int n else 0)" for h'
      using ping_pong_flips [OF assms(1,4,5,6), of d]
        group_flips_absent [of h' "record_all [] h ?w ?ps"] record_all_hashes [of _ "[]" h ?w ?ps]
      by fastforce
    then show ?thesis using assms(3) by (auto simp: tripped_iff)
  qed
  ultimately show ?thesis by (simp only: events)
qed

end
