(* ===== verification/Net_Class.thy ===== *)
theory Net_Class
  imports Prelude "HOL-Library.Multiset"
begin

unbundle bit_operations_syntax

text \<open>
  The kind of network path a server URL reaches, and the order the URLs of a configuration are
  tried in: \<^verbatim>\<open>uc-mobile-proto/net_class.rs\<close>. Everything here is a pure function of strings;
  \<^verbatim>\<open>trim\<close> and \<^verbatim>\<open>to_lowercase\<close> are modelled on ASCII, as the other string functions.
\<close>

datatype url_class = Lan | Tailscale | Wan

record network_context =
  ssid :: "string option"
  is_wifi :: bool
  is_cellular :: bool
  is_tailscale :: bool

definition normalize_ssid :: "string option \<Rightarrow> string option" where
  "normalize_ssid raw =
     (case raw of
        None \<Rightarrow> None
      | Some r \<Rightarrow>
          (let s0 = trim r;
               s = (if 2 \<le> length s0 \<and> starts_with [CHR 0x22] s0 \<and> ends_with [CHR 0x22] s0
                    then trim (take (length s0 - 2) (drop 1 s0)) else s0) in
           if s = [] \<or> s = ''<unknown ssid>'' \<or> s = ''0x'' then None else Some s))"

section \<open>The host of a URL\<close>

definition is_digit :: "char \<Rightarrow> bool" where
  "is_digit c \<longleftrightarrow> 48 \<le> (of_char c :: nat) \<and> (of_char c :: nat) \<le> 57"

definition is_alpha :: "char \<Rightarrow> bool" where
  "is_alpha c \<longleftrightarrow>
     (65 \<le> (of_char c :: nat) \<and> (of_char c :: nat) \<le> 90) \<or>
     (97 \<le> (of_char c :: nat) \<and> (of_char c :: nat) \<le> 122)"

definition is_alnum :: "char \<Rightarrow> bool" where
  "is_alnum c \<longleftrightarrow> is_alpha c \<or> is_digit c"

definition is_ascii :: "char \<Rightarrow> bool" where
  "is_ascii c \<longleftrightarrow> (of_char c :: nat) < 128"

text \<open>\<^verbatim>\<open>split_once("://")\<close>: at the first occurrence.\<close>

fun split_scheme :: "string \<Rightarrow> (string \<times> string) option" where
  "split_scheme [] = None"
| "split_scheme (c # s) =
     (case strip_prefix ''://'' (c # s) of
        Some rest \<Rightarrow> Some ([], rest)
      | None \<Rightarrow> map_option (\<lambda>(a, b). (c # a, b)) (split_scheme s))"

definition valid_scheme :: "string \<Rightarrow> bool" where
  "valid_scheme scheme =
     (case scheme of
        [] \<Rightarrow> False
      | c # cs \<Rightarrow> is_alpha c \<and> list_all (\<lambda>d. is_alnum d \<or> d \<in> set ''+-.'') cs)"

definition hex_val :: "char \<Rightarrow> nat option" where
  "hex_val c =
     (let n = (of_char c :: nat) in
      if 48 \<le> n \<and> n \<le> 57 then Some (n - 48)
      else if 97 \<le> n \<and> n \<le> 102 then Some (n - 87)
      else if 65 \<le> n \<and> n \<le> 70 then Some (n - 55)
      else None)"

definition is_host_char :: "bool \<Rightarrow> char \<Rightarrow> bool" where
  "is_host_char allow_colon c \<longleftrightarrow>
     is_alnum c \<or> c \<in> set ''-._~!$&'' \<or> c = CHR 0x27 \<or> c \<in> set ''()*+,;='' \<or>
     (allow_colon \<and> c = CHR '':'') \<or> \<not> is_ascii c"

fun decode_chars :: "bool \<Rightarrow> string \<Rightarrow> string option" where
  "decode_chars ac [] = Some []"
| "decode_chars ac (c # s) =
     (if c = CHR ''%'' then
        (case s of
           h # l # rest \<Rightarrow>
             (case (hex_val h, hex_val l) of
                (Some hi, Some lo) \<Rightarrow>
                  map_option (Cons (char_of (hi * 16 + lo))) (decode_chars ac rest)
              | _ \<Rightarrow> None)
         | _ \<Rightarrow> None)
      else if is_host_char ac c then map_option (Cons c) (decode_chars ac s)
      else None)"

definition decode_host :: "string \<Rightarrow> bool \<Rightarrow> string option" where
  "decode_host raw allow_colon =
     (case decode_chars allow_colon raw of
        None \<Rightarrow> None
      | Some out \<Rightarrow> from_utf8 (str_bytes out))"

definition authority_of :: "string \<Rightarrow> string" where
  "authority_of rest = takeWhile (\<lambda>c. c \<notin> set ''/?#'') rest"

definition host_port_of :: "string \<Rightarrow> string" where
  "host_port_of authority =
     (case rfind_index (\<lambda>c. c = CHR ''@'') authority of
        Some i \<Rightarrow> drop (i + 1) authority
      | None \<Rightarrow> authority)"

definition host_of_port :: "string \<Rightarrow> string option" where
  "host_of_port host_port =
     (case strip_prefix ''['' host_port of
        Some bracketed \<Rightarrow>
          (case split_once (CHR '']'') bracketed of
             None \<Rightarrow> None
           | Some (h, tail) \<Rightarrow>
               (case strip_prefix '':'' tail of
                  Some port \<Rightarrow> if list_all is_digit port then decode_host h True else None
                | None \<Rightarrow> if tail = [] then decode_host h True else None))
      | None \<Rightarrow>
          (case rsplit_once (CHR '':'') host_port of
             Some (h, port) \<Rightarrow> if list_all is_digit port then decode_host h False else None
           | None \<Rightarrow> decode_host host_port False))"

definition extract_host :: "string \<Rightarrow> string option" where
  "extract_host s =
     (case split_scheme s of
        None \<Rightarrow> None
      | Some (scheme, rest) \<Rightarrow>
          if \<not> valid_scheme scheme then None
          else (case host_of_port (host_port_of (authority_of rest)) of
                  None \<Rightarrow> None
                | Some host \<Rightarrow> if host = [] then None else Some (str_lower host)))"

section \<open>Classification\<close>

fun digits_val :: "string \<Rightarrow> nat \<Rightarrow> nat" where
  "digits_val [] acc = acc"
| "digits_val (c # s) acc = digits_val s (acc * 10 + (of_char c - 48))"

text \<open>\<^verbatim>\<open>u32::from_str\<close>: decimal digits, with an optional plus sign, within 32 bits.\<close>

definition parse_u32 :: "string \<Rightarrow> nat option" where
  "parse_u32 s =
     (let ds = (case s of c # t \<Rightarrow> if c = CHR ''+'' then t else s | [] \<Rightarrow> []) in
      if ds = [] \<or> \<not> list_all is_digit ds then None
      else if 2 ^ 32 \<le> digits_val ds 0 then None
      else Some (digits_val ds 0))"

text \<open>The loop over the parts, with the octets collected so far.\<close>

fun read_octets :: "string list \<Rightarrow> nat list \<Rightarrow> nat list option" where
  "read_octets [] octets = (if length octets \<noteq> 4 then None else Some octets)"
| "read_octets (part # parts) octets =
     (if length octets = 4 then None
      else (case parse_u32 part of
              None \<Rightarrow> None
            | Some v \<Rightarrow> if 255 < v then None else read_octets parts (octets @ [v])))"

definition octets_class :: "nat \<Rightarrow> nat \<Rightarrow> url_class" where
  "octets_class a b =
     (if a = 100 \<and> 64 \<le> b \<and> b \<le> 127 then Tailscale
      else if a = 10 then Lan
      else if a = 172 \<and> 16 \<le> b \<and> b \<le> 31 then Lan
      else if a = 192 \<and> b = 168 then Lan
      else if a = 169 \<and> b = 254 then Lan
      else Wan)"

definition classify_ipv4 :: "string \<Rightarrow> url_class option" where
  "classify_ipv4 host =
     map_option (\<lambda>octets. octets_class (octets ! 0) (octets ! 1))
       (read_octets (split_on (CHR ''.'') host) [])"

definition classify_host :: "string \<Rightarrow> url_class" where
  "classify_host host =
     (if ends_with ''.ts.net'' host then Tailscale
      else if ends_with ''.local'' host then Lan
      else (case classify_ipv4 host of Some c \<Rightarrow> c | None \<Rightarrow> Wan))"

definition classify_url :: "string \<Rightarrow> url_class" where
  "classify_url url = (case extract_host (trim url) of None \<Rightarrow> Wan | Some host \<Rightarrow> classify_host host)"

section \<open>Try order\<close>

definition class_preference :: "network_context \<Rightarrow> url_class list option" where
  "class_preference net =
     (if is_wifi net \<or> ssid net \<noteq> None then Some [Lan, Tailscale, Wan]
      else if is_tailscale net then Some [Tailscale, Wan, Lan]
      else if is_cellular net then Some [Wan, Tailscale, Lan]
      else None)"

definition url_rank :: "url_class list \<Rightarrow> string \<Rightarrow> nat" where
  "url_rank preference u =
     (case find_index (\<lambda>c. c = classify_url u) preference of
        Some i \<Rightarrow> i | None \<Rightarrow> length preference)"

definition ordered_urls :: "string list \<Rightarrow> network_context \<Rightarrow> string list" where
  "ordered_urls urls net =
     (case class_preference net of
        None \<Rightarrow> urls
      | Some preference \<Rightarrow> sort_key (url_rank preference) urls)"

definition preferred_urls :: "string list \<Rightarrow> string option \<Rightarrow> network_context \<Rightarrow> string list" where
  "preferred_urls urls live net =
     (let ordered = ordered_urls urls net in
      case live of
        None \<Rightarrow> ordered
      | Some l \<Rightarrow>
          if \<not> list_ex (\<lambda>u. u = l) urls then ordered
          else l # filter (\<lambda>u. u \<noteq> l) ordered)"

definition resolve_active_index :: "string list \<Rightarrow> string option \<Rightarrow> nat option" where
  "resolve_active_index config_ids active =
     (if config_ids = [] then None
      else (case active of
              Some cid \<Rightarrow>
                (case find_index (\<lambda>c. c = cid) config_ids of
                   Some i \<Rightarrow> Some i
                 | None \<Rightarrow> Some 0)
            | None \<Rightarrow> Some 0))"

section \<open>IPv4 ranges\<close>

text \<open>The ranges as networks of a 32-bit address: the specification of \<open>octets_class\<close>.\<close>

definition in_net :: "32 word \<Rightarrow> 32 word \<Rightarrow> nat \<Rightarrow> bool" where
  "in_net ip net prefix_len = (drop_bit (32 - prefix_len) ip = drop_bit (32 - prefix_len) net)"

definition ip_of :: "nat \<Rightarrow> nat \<Rightarrow> nat \<Rightarrow> nat \<Rightarrow> 32 word" where
  "ip_of a b c d = word_of_nat (((a * 256 + b) * 256 + c) * 256 + d)"

definition cidr_class :: "32 word \<Rightarrow> url_class" where
  "cidr_class ip =
     (if in_net ip (ip_of 100 64 0 0) 10 then Tailscale
      else if in_net ip (ip_of 10 0 0 0) 8 \<or> in_net ip (ip_of 172 16 0 0) 12 \<or>
              in_net ip (ip_of 192 168 0 0) 16 \<or> in_net ip (ip_of 169 254 0 0) 16 then Lan
      else Wan)"

lemma unat_ip_of:
  assumes "a \<le> 255" "b \<le> 255" "c \<le> 255" "d \<le> 255"
  shows "unat (ip_of a b c d) = ((a * 256 + b) * 256 + c) * 256 + d"
proof -
  have "((a * 256 + b) * 256 + c) * 256 + d < 2 ^ LENGTH(32)" using assms by simp
  then show ?thesis unfolding ip_of_def unsigned_of_nat by (simp only: take_bit_nat_eq_self of_nat_id)
qed

lemma in_net_iff:
  "in_net ip net n \<longleftrightarrow> unat ip div 2 ^ (32 - n) = unat net div 2 ^ (32 - n)"
  unfolding in_net_def word_unat_eq_iff unat_drop_bit_eq
  unfolding drop_bit_eq_div ..

lemma octet_prefix:
  fixes a b c d :: nat
  assumes "b \<le> 255" "c \<le> 255" "d \<le> 255"
  defines "n \<equiv> ((a * 256 + b) * 256 + c) * 256 + d"
  shows "n div 2 ^ 16 = a * 256 + b" "n div 2 ^ 24 = a"
    "n div 2 ^ 20 = a * 16 + b div 16" "n div 2 ^ 22 = a * 4 + b div 64"
proof -
  show 16: "n div 2 ^ 16 = a * 256 + b" using assms by simp
  have "n div 2 ^ 24 = n div 2 ^ 16 div 256" by (simp flip: div_mult2_eq)
  with 16 show "n div 2 ^ 24 = a" using assms(1) by simp
  have "n div 2 ^ 20 = n div 2 ^ 16 div 16" by (simp flip: div_mult2_eq)
  with 16 show "n div 2 ^ 20 = a * 16 + b div 16" by simp
  have "n div 2 ^ 22 = n div 2 ^ 16 div 64" by (simp flip: div_mult2_eq)
  with 16 show "n div 2 ^ 22 = a * 4 + b div 64" by simp
qed

lemma div_64_iff: "b div 64 = 1 \<longleftrightarrow> 64 \<le> b \<and> b \<le> (127 :: nat)"
  by linarith

lemma div_16_iff: "b div 16 = 1 \<longleftrightarrow> 16 \<le> b \<and> b \<le> (31 :: nat)"
  by linarith

lemma quotient_remainder:
  fixes a k m q r :: nat
  assumes "q < m" "r < m"
  shows "a * m + q = k * m + r \<longleftrightarrow> a = k \<and> q = r"
proof
  assume eq: "a * m + q = k * m + r"
  from arg_cong [OF eq, of "\<lambda>x. x div m"] have "a = k" using assms by simp
  with eq show "a = k \<and> q = r" by simp
qed simp

lemma cgnat_iff: "q \<le> 3 \<Longrightarrow> a * 4 + q = 401 \<longleftrightarrow> a = 100 \<and> q = (1 :: nat)"
  using quotient_remainder [of q 4 1 a 100] by simp

lemma private_172_iff: "q \<le> 15 \<Longrightarrow> a * 16 + q = 2753 \<longleftrightarrow> a = 172 \<and> q = (1 :: nat)"
  using quotient_remainder [of q 16 1 a 172] by simp

lemma pair_192_iff: "q \<le> 255 \<Longrightarrow> a * 256 + q = 49320 \<longleftrightarrow> a = 192 \<and> q = (168 :: nat)"
  using quotient_remainder [of q 256 168 a 192] by simp

lemma pair_169_iff: "q \<le> 255 \<Longrightarrow> a * 256 + q = 43518 \<longleftrightarrow> a = 169 \<and> q = (254 :: nat)"
  using quotient_remainder [of q 256 254 a 169] by simp

lemma in_nets:
  assumes "a \<le> 255" "b \<le> 255" "c \<le> 255" "d \<le> 255"
  shows "in_net (ip_of a b c d) (ip_of 100 64 0 0) 10 \<longleftrightarrow> a = 100 \<and> 64 \<le> b \<and> b \<le> 127"
    and "in_net (ip_of a b c d) (ip_of 10 0 0 0) 8 \<longleftrightarrow> a = 10"
    and "in_net (ip_of a b c d) (ip_of 172 16 0 0) 12 \<longleftrightarrow> a = 172 \<and> 16 \<le> b \<and> b \<le> 31"
    and "in_net (ip_of a b c d) (ip_of 192 168 0 0) 16 \<longleftrightarrow> a = 192 \<and> b = 168"
    and "in_net (ip_of a b c d) (ip_of 169 254 0 0) 16 \<longleftrightarrow> a = 169 \<and> b = 254"
proof -
  note prefix = octet_prefix [OF assms(2-4), of a, folded unat_ip_of [OF assms]]
  have b: "b div 64 \<le> 3" "b div 16 \<le> 15" using assms(2) by simp_all
  have e: "32 - 10 = (22 :: nat)" "32 - 8 = (24 :: nat)" "32 - 12 = (20 :: nat)" "32 - 16 = (16 :: nat)"
    by simp_all
  have nets: "unat (ip_of 100 64 0 0) div 2 ^ 22 = 401" "unat (ip_of 10 0 0 0) div 2 ^ 24 = 10"
    "unat (ip_of 172 16 0 0) div 2 ^ 20 = 2753" "unat (ip_of 192 168 0 0) div 2 ^ 16 = 49320"
    "unat (ip_of 169 254 0 0) div 2 ^ 16 = 43518"
    by (simp_all add: unat_ip_of)
  note r = in_net_iff e prefix nets
  show "in_net (ip_of a b c d) (ip_of 100 64 0 0) 10 \<longleftrightarrow> a = 100 \<and> 64 \<le> b \<and> b \<le> 127"
    by (simp only: r cgnat_iff [OF b(1)] div_64_iff)
  show "in_net (ip_of a b c d) (ip_of 10 0 0 0) 8 \<longleftrightarrow> a = 10"
    by (simp only: r)
  show "in_net (ip_of a b c d) (ip_of 172 16 0 0) 12 \<longleftrightarrow> a = 172 \<and> 16 \<le> b \<and> b \<le> 31"
    by (simp only: r private_172_iff [OF b(2)] div_16_iff)
  show "in_net (ip_of a b c d) (ip_of 192 168 0 0) 16 \<longleftrightarrow> a = 192 \<and> b = 168"
    by (simp only: r pair_192_iff [OF assms(2)])
  show "in_net (ip_of a b c d) (ip_of 169 254 0 0) 16 \<longleftrightarrow> a = 169 \<and> b = 254"
    by (simp only: r pair_169_iff [OF assms(2)])
qed

lemma cidr_class_octets:
  assumes "a \<le> 255" "b \<le> 255" "c \<le> 255" "d \<le> 255"
  shows "cidr_class (ip_of a b c d) = octets_class a b"
  by (simp only: cidr_class_def in_nets [OF assms] octets_class_def) (auto)

section \<open>Dotted quads\<close>

definition dec_octet :: "nat \<Rightarrow> string" where
  "dec_octet n =
     (let dig = (\<lambda>k. char_of (48 + k)) in
      if n < 10 then [dig n]
      else if n < 100 then [dig (n div 10), dig (n mod 10)]
      else [dig (n div 100), dig (n div 10 mod 10), dig (n mod 10)])"

definition dotted :: "nat \<Rightarrow> nat \<Rightarrow> nat \<Rightarrow> nat \<Rightarrow> string" where
  "dotted a b c d =
     dec_octet a @ ''.'' @ dec_octet b @ ''.'' @ dec_octet c @ ''.'' @ dec_octet d"

lemma digit_code: "k < 10 \<Longrightarrow> (of_char (char_of (48 + k) :: char) :: nat) = 48 + k"
  by simp

lemma is_digit_dig: "k < (10 :: nat) \<Longrightarrow> is_digit (char_of (48 + k))"
  by (simp add: is_digit_def)

lemma dig_not_plus: "k < (10 :: nat) \<Longrightarrow> char_of (48 + k) \<noteq> CHR ''+''"
proof
  assume "k < 10" "char_of (48 + k) = CHR ''+''"
  then have "(48 + k) = of_char (CHR ''+'')" using digit_code [of k] by simp
  then show False by simp
qed

lemma dec_octet_digits: "n \<le> 255 \<Longrightarrow> list_all is_digit (dec_octet n)"
  by (simp add: dec_octet_def is_digit_dig div_less_mono less_mult_imp_div_less)

lemma three_digits: "((n div 100) * 10 + n div 10 mod 10) * 10 + n mod 10 = (n :: nat)"
proof -
  have "n div 100 = n div 10 div 10" by (simp flip: div_mult2_eq)
  then have "(n div 100) * 10 + n div 10 mod 10 = n div 10" by (simp only: div_mult_mod_eq)
  then show ?thesis by (simp only: div_mult_mod_eq)
qed

lemma parse_dec_octet:
  assumes "n \<le> 255"
  shows "parse_u32 (dec_octet n) = Some n"
proof -
  have small: "n < 100 \<Longrightarrow> n div 10 < 10" "n div 100 < 10" "n div 10 mod 10 < 10" "n mod 10 < 10"
    using assms by simp_all
  have val: "digits_val (dec_octet n) 0 = n"
    using small three_digits [of n] div_mult_mod_eq [of n 10]
    by (simp add: dec_octet_def digit_code del: div_mult_mod_eq)
  have "\<exists>k ds. k < (10 :: nat) \<and> dec_octet n = char_of (48 + k) # ds"
    using small by (auto simp: dec_octet_def Let_def)
  then obtain k ds where k: "k < (10 :: nat)" "dec_octet n = char_of (48 + k) # ds" by blast
  with val dec_octet_digits [OF assms] dig_not_plus [OF k(1)] assms show ?thesis
    by (simp add: parse_u32_def)
qed

lemma split_on_free: "c \<notin> set s \<Longrightarrow> split_on c (s @ c # t) = s # split_on c t"
  by (induction s) auto

lemma split_on_free_all: "c \<notin> set s \<Longrightarrow> split_on c s = [s]"
  by (induction s) auto

lemma digits_no_dot: "list_all is_digit s \<Longrightarrow> CHR ''.'' \<notin> set s"
  by (auto simp: list_all_iff is_digit_def)

lemma classify_dotted:
  assumes "a \<le> 255" "b \<le> 255" "c \<le> 255" "d \<le> 255"
  shows "classify_ipv4 (dotted a b c d) = Some (octets_class a b)"
proof -
  note free = assms [THEN dec_octet_digits, THEN digits_no_dot]
  have "split_on (CHR ''.'') (dotted a b c d) = [dec_octet a, dec_octet b, dec_octet c, dec_octet d]"
    by (simp add: dotted_def split_on_free split_on_free_all free)
  then show ?thesis using assms by (simp add: classify_ipv4_def parse_dec_octet)
qed

section \<open>The order of the URLs\<close>

lemma class_preference_perm:
  "class_preference net = Some p \<Longrightarrow> set p = UNIV \<and> distinct p"
  by (auto simp: class_preference_def split: if_splits intro: url_class.exhaust)

lemma ordered_urls_mset: "mset (ordered_urls urls net) = mset urls"
  by (simp add: ordered_urls_def split: option.split)

lemma set_ordered_urls [simp]: "set (ordered_urls urls net) = set urls"
  by (rule mset_eq_setD) (rule ordered_urls_mset)

lemma ordered_urls_stable:
  "filter (\<lambda>u. classify_url u = c) (ordered_urls urls net) = filter (\<lambda>u. classify_url u = c) urls"
proof (cases "class_preference net")
  case None
  then show ?thesis by (simp add: ordered_urls_def)
next
  case (Some p)
  define k where "k = (case find_index (\<lambda>x. x = c) p of Some i \<Rightarrow> i | None \<Rightarrow> length p)"
  have key: "filter (\<lambda>u. classify_url u = c) xs =
      filter (\<lambda>u. classify_url u = c) (filter (\<lambda>u. url_rank p u = k) xs)" for xs
    by (auto simp: k_def url_rank_def intro!: filter_cong)
  have "filter (\<lambda>u. classify_url u = c) (sort_key (url_rank p) urls) =
      filter (\<lambda>u. classify_url u = c) (filter (\<lambda>u. url_rank p u = k) (sort_key (url_rank p) urls))"
    by (rule key)
  also have "\<dots> = filter (\<lambda>u. classify_url u = c) urls"
    by (simp only: sort_key_stable key [symmetric])
  finally show ?thesis by (simp add: ordered_urls_def Some)
qed

lemma ordered_urls_sorted:
  "class_preference net = Some p \<Longrightarrow> sorted (map (url_rank p) (ordered_urls urls net))"
  by (simp add: ordered_urls_def)

lemma set_preferred_urls: "set (preferred_urls urls live net) = set urls"
  by (auto simp: preferred_urls_def Let_def list_ex_iff split: option.splits)

lemma preferred_urls_live:
  "l \<in> set urls \<Longrightarrow>
   preferred_urls urls (Some l) net = l # filter (\<lambda>u. u \<noteq> l) (ordered_urls urls net)"
  by (auto simp: preferred_urls_def list_ex_iff)

lemma preferred_urls_stale:
  "l \<notin> set urls \<Longrightarrow> preferred_urls urls (Some l) net = ordered_urls urls net"
  by (auto simp: preferred_urls_def list_ex_iff)

section \<open>Only the host counts\<close>

definition plain_host :: "string \<Rightarrow> bool" where
  "plain_host h \<longleftrightarrow> h \<noteq> [] \<and> (\<forall>c \<in> set h. is_alnum c \<or> c = CHR ''-'' \<or> c = CHR ''.'')"

lemma takeWhile_stop: "\<lbrakk>\<forall>c \<in> set a. P c; \<not> P d\<rbrakk> \<Longrightarrow> takeWhile P (a @ d # b) = a"
  by (induction a) auto

lemma find_index_append:
  "\<lbrakk>\<forall>x \<in> set a. \<not> P x; P d\<rbrakk> \<Longrightarrow> find_index P (a @ d # b) = Some (length a)"
  by (induction a) auto

lemma rfind_index_append:
  "\<lbrakk>\<forall>x \<in> set b. \<not> P x; P d\<rbrakk> \<Longrightarrow> rfind_index P (a @ d # b) = Some (length a)"
  by (simp add: rfind_index_def find_index_append)

lemma plain_host_char:
  "c \<in> set h \<Longrightarrow> plain_host h \<Longrightarrow>
   c \<noteq> CHR ''%'' \<and> is_host_char False c \<and> is_ascii c \<and>
   c \<notin> set ''/?#@:[''"
  by (auto simp: plain_host_def is_host_char_def is_ascii_def is_alnum_def is_alpha_def is_digit_def)

lemma decode_chars_plain:
  "\<forall>c \<in> set h. c \<noteq> CHR ''%'' \<and> is_host_char ac c \<Longrightarrow> decode_chars ac h = Some h"
  by (induction h) auto

lemma utf8_ascii_str: "\<forall>c \<in> set h. is_ascii c \<Longrightarrow> from_utf8 (str_bytes h) = Some h"
proof -
  assume "\<forall>c \<in> set h. is_ascii c"
  then have "\<forall>b \<in> set (map unat (str_bytes h)). b \<le> 127"
    by (auto simp: str_bytes_def is_ascii_def unat_of_nat)
  from utf8_nat_ascii [OF this] show ?thesis by (simp add: from_utf8_def utf8_valid_def)
qed

lemma decode_plain_host: "plain_host h \<Longrightarrow> decode_host h False = Some h"
  using plain_host_char [of _ h]
  by (simp add: decode_host_def decode_chars_plain utf8_ascii_str)

lemma host_of_plain_port:
  assumes "plain_host h" "list_all is_digit port"
  shows "host_of_port (h @ '':'' @ port) = Some h"
proof -
  obtain c t where h: "h = c # t" using assms(1) by (cases h) (auto simp: plain_host_def)
  with plain_host_char [OF _ assms(1), of c] have "c \<noteq> CHR ''[''" by auto
  then have "strip_prefix ''['' (h @ '':'' @ port) = None"
    by (simp add: h strip_prefix_def starts_with_def)
  moreover have "\<forall>x \<in> set port. x \<noteq> CHR '':''"
    using assms(2) by (auto simp: list_all_iff is_digit_def)
  then have "rfind_index (\<lambda>x. x = CHR '':'') (h @ '':'' @ port) = Some (length h)"
    using rfind_index_append [of port "\<lambda>x. x = CHR '':''" "CHR '':''" h] by simp
  ultimately show ?thesis
    using assms by (simp add: host_of_port_def rsplit_once_def decode_plain_host)
qed

lemma extract_host_plain:
  assumes "plain_host h" "list_all is_digit port" "set user \<inter> set ''/?#'' = {}"
  shows "extract_host (''http://'' @ user @ ''@'' @ h @ '':'' @ port @ ''/'' @ path) = Some (str_lower h)"
proof -
  let ?auth = "user @ ''@'' @ h @ '':'' @ port"
  have digits: "c \<notin> set ''/?#@''" if "c \<in> set port" for c
    using that assms(2) by (auto simp: list_all_iff is_digit_def)
  have "\<forall>c \<in> set ?auth. c \<notin> set ''/?#''"
    using assms(3) plain_host_char [OF _ assms(1)] digits by auto
  from takeWhile_stop [OF this, of "CHR ''/''" path]
  have auth: "authority_of (?auth @ ''/'' @ path) = ?auth" by (simp add: authority_of_def)
  have "\<forall>c \<in> set (h @ '':'' @ port). c \<noteq> CHR ''@''"
    using plain_host_char [OF _ assms(1)] digits by auto
  then have "rfind_index (\<lambda>c. c = CHR ''@'') ?auth = Some (length user)"
    using rfind_index_append [of "h @ '':'' @ port" "\<lambda>c. c = CHR ''@''" "CHR ''@''" user] by simp
  then have hp: "host_port_of ?auth = h @ '':'' @ port" by (simp add: host_port_of_def)
  have "split_scheme (''http://'' @ rest) = Some (''http'', rest)" for rest
    by (simp add: strip_prefix_def starts_with_def)
  moreover have "valid_scheme ''http''"
    by (simp add: valid_scheme_def is_alnum_def is_alpha_def)
  moreover have "h \<noteq> []" using assms(1) by (simp add: plain_host_def)
  ultimately show ?thesis
    using host_of_plain_port [OF assms(1,2)] auth hp by (simp add: extract_host_def)
qed

section \<open>Whole URLs\<close>

text \<open>The userinfo of a URL, if any, with its \<^verbatim>\<open>@\<close>.\<close>

definition userinfo :: "string option \<Rightarrow> string" where
  "userinfo user = (case user of None \<Rightarrow> [] | Some u \<Rightarrow> u @ ''@'')"

lemma extract_host_url:
  assumes "plain_host h" "list_all is_digit port"
    and "case user of None \<Rightarrow> True | Some u \<Rightarrow> set u \<inter> set ''/?#'' = {}"
  shows "extract_host (''http://'' @ userinfo user @ h @ '':'' @ port @ ''/'' @ path) = Some (str_lower h)"
proof (cases user)
  case (Some u)
  then show ?thesis using assms extract_host_plain [of h port u path] by (simp add: userinfo_def)
next
  case None
  let ?auth = "h @ '':'' @ port"
  have digits: "c \<notin> set ''/?#@''" if "c \<in> set port" for c
    using that assms(2) by (auto simp: list_all_iff is_digit_def)
  have free: "\<forall>c \<in> set ?auth. c \<notin> set ''/?#''" "\<forall>c \<in> set ?auth. c \<noteq> CHR ''@''"
    using plain_host_char [OF _ assms(1)] digits by auto
  from takeWhile_stop [OF free(1), of "CHR ''/''" path]
  have auth: "authority_of (?auth @ ''/'' @ path) = ?auth" by (simp add: authority_of_def)
  have "find_index (\<lambda>c. c = CHR ''@'') (rev ?auth) = None"
    using free(2) by (subst find_index_None_iff) auto
  then have "host_port_of ?auth = ?auth" by (simp add: host_port_of_def rfind_index_def)
  moreover have "split_scheme (''http://'' @ rest) = Some (''http'', rest)" for rest
    by (simp add: strip_prefix_def starts_with_def)
  moreover have "valid_scheme ''http''"
    by (simp add: valid_scheme_def is_alnum_def is_alpha_def)
  moreover have "h \<noteq> []" using assms(1) by (simp add: plain_host_def)
  ultimately show ?thesis
    using host_of_plain_port [OF assms(1,2)] auth None by (simp add: extract_host_def userinfo_def)
qed

lemma trim_id: "\<not> is_ws c \<Longrightarrow> \<not> is_ws d \<Longrightarrow> trim (c # s @ [d]) = c # s @ [d]"
  by (simp add: trim_def)

lemma classify_url_plain:
  assumes "plain_host h" "list_all is_digit port"
    and "case user of None \<Rightarrow> True | Some u \<Rightarrow> set u \<inter> set ''/?#'' = {}"
  shows "classify_url (''http://'' @ userinfo user @ h @ '':'' @ port @ ''/'') = classify_host (str_lower h)"
proof -
  have "trim (''http://'' @ userinfo user @ h @ '':'' @ port @ ''/'') =
      ''http://'' @ userinfo user @ h @ '':'' @ port @ ''/''"
    using trim_id [of "CHR ''h''" "CHR ''/''" "''ttp://'' @ userinfo user @ h @ '':'' @ port"]
    by (simp add: is_ws_def)
  then show ?thesis
    using extract_host_url [OF assms, of "[]"] by (simp add: classify_url_def)
qed

lemma dec_octet_class: "n \<le> 255 \<Longrightarrow> c \<in> set (dec_octet n) \<Longrightarrow> is_digit c"
  using dec_octet_digits [of n] by (simp add: list_all_iff)

lemma dotted_chars:
  assumes "a \<le> 255" "b \<le> 255" "c \<le> 255" "d \<le> 255" "x \<in> set (dotted a b c d)"
  shows "is_digit x \<or> x = CHR ''.''"
  using assms by (auto simp: dotted_def dest: dec_octet_class)

lemma plain_host_dotted:
  "\<lbrakk>a \<le> 255; b \<le> 255; c \<le> 255; d \<le> 255\<rbrakk> \<Longrightarrow> plain_host (dotted a b c d)"
  using dotted_chars [of a b c d]
  by (fastforce simp: plain_host_def is_alnum_def dotted_def)

lemma lower_digit: "is_digit x \<or> x = CHR ''.'' \<Longrightarrow> ascii_lower_char x = x"
  by (auto simp: ascii_lower_char_def is_digit_def less_eq_char_def)

lemma lower_dotted:
  "\<lbrakk>a \<le> 255; b \<le> 255; c \<le> 255; d \<le> 255\<rbrakk> \<Longrightarrow> str_lower (dotted a b c d) = dotted a b c d"
  unfolding str_lower_def by (intro map_idI lower_digit dotted_chars) simp_all

lemma ends_with_last: "ends_with (s @ [x]) t \<Longrightarrow> t \<noteq> [] \<and> last t = x"
  by (cases "rev t") (auto simp: ends_with_def starts_with_def rev_swap)

lemma last_dotted:
  assumes "a \<le> 255" "b \<le> 255" "c \<le> 255" "d \<le> 255"
  shows "is_digit (last (dotted a b c d))"
proof -
  have "dec_octet d \<noteq> []" by (simp add: dec_octet_def Let_def)
  then have "last (dotted a b c d) = last (dec_octet d)" "last (dec_octet d) \<in> set (dec_octet d)"
    by (simp_all add: dotted_def)
  with dec_octet_class [OF assms(4)] show ?thesis by simp
qed

lemma classify_host_dotted:
  assumes "a \<le> 255" "b \<le> 255" "c \<le> 255" "d \<le> 255"
  shows "classify_host (dotted a b c d) = octets_class a b"
proof -
  have "\<not> ends_with ''.ts.net'' (dotted a b c d)" "\<not> ends_with ''.local'' (dotted a b c d)"
    using last_dotted [OF assms] ends_with_last [of "''.ts.ne''" "CHR ''t''" "dotted a b c d"]
      ends_with_last [of "''.loca''" "CHR ''l''" "dotted a b c d"]
    by (auto simp: is_digit_def)
  with classify_dotted [OF assms] show ?thesis by (simp add: classify_host_def)
qed

lemma classify_url_dotted:
  assumes "a \<le> 255" "b \<le> 255" "c \<le> 255" "d \<le> 255" "list_all is_digit port"
    and "case user of None \<Rightarrow> True | Some u \<Rightarrow> set u \<inter> set ''/?#'' = {}"
  shows "classify_url (''http://'' @ userinfo user @ dotted a b c d @ '':'' @ port @ ''/'') =
         cidr_class (ip_of a b c d)"
  using classify_url_plain [OF plain_host_dotted [OF assms(1-4)] assms(5,6)]
  by (simp add: lower_dotted classify_host_dotted cidr_class_octets assms(1-4))

end
