(* ===== verification/Transfer_Cipher.thy ===== *)
theory Transfer_Cipher
  imports Wire_Codec
begin

text \<open>
  The encrypted envelope of clipboard content on the network,
  \<^verbatim>\<open>uc-infra/clipboard/chunked_transfer.rs\<close>: a header, then the (possibly compressed)
  plaintext cut into chunks, each sealed on its own under a nonce and associated data derived
  from the transfer id and the chunk's position.

  XChaCha20-Poly1305, BLAKE3 and zstd are third-party: \<open>transfer_prims\<close> holds the functions the
  code calls. A write into the \<^verbatim>\<open>Vec\<close> the adapter passes cannot fail, and what was written
  before an error is dropped by it. The transfer id is a random UUID, an argument here.
\<close>

definition chunk_size :: nat where "chunk_size = 256 * 1024"
definition v3_magic :: "byte list" where "v3_magic = [85, 67, 51, 0]"
definition v3_header_size :: nat where "v3_header_size = 37"
definition compression_threshold :: nat where "compression_threshold = 8 * 1024"
definition receive_plaintext_cap :: nat where "receive_plaintext_cap = 128 * 1024 * 1024"
definition max_decompressed_size :: nat where "max_decompressed_size = receive_plaintext_cap"
definition parallel_compression_threshold :: nat where
  "parallel_compression_threshold = 1024 * 1024"
definition tag_size :: nat where "tag_size = 16"

lemmas transfer_consts =
  chunk_size_def v3_header_size_def compression_threshold_def receive_plaintext_cap_def
  max_decompressed_size_def parallel_compression_threshold_def tag_size_def

datatype chunk_error =
    InvalidMagic | TruncatedHeader | TruncatedChunk | DecryptFailed nat
  | InvalidCiphertextLen nat nat | InvalidHeader | EncryptFailed | CompressionFailed
  | DecompressionFailed | InvalidCompressionAlgo byte

record transfer_prims =
  t_seal :: "byte list \<Rightarrow> byte list \<Rightarrow> byte list \<Rightarrow> byte list \<Rightarrow> byte list option"
  t_open :: "byte list \<Rightarrow> byte list \<Rightarrow> byte list \<Rightarrow> byte list \<Rightarrow> byte list option"
  t_hash :: "byte list \<Rightarrow> byte list"
  t_zstd_bulk :: "byte list \<Rightarrow> byte list option"
  t_zstd_stream :: "byte list \<Rightarrow> byte list option"
  t_unzstd :: "byte list \<Rightarrow> nat \<Rightarrow> byte list option"

section \<open>Chunks\<close>

text \<open>\<^verbatim>\<open>slice::chunks\<close>, which panics for a size of zero; the size is a constant.\<close>

function chunks_of :: "nat \<Rightarrow> 'a list \<Rightarrow> 'a list list" where
  "chunks_of n xs = (if xs = [] \<or> n = 0 then [] else take n xs # chunks_of n (drop n xs))"
  by pat_completeness auto
termination by (relation "measure (length \<circ> snd)") auto

declare chunks_of.simps [simp del]

lemma chunks_of_Nil [simp]: "chunks_of n [] = []"
  by (simp add: chunks_of.simps)

lemma chunks_of_step: "\<lbrakk>xs \<noteq> []; 0 < n\<rbrakk> \<Longrightarrow> chunks_of n xs = take n xs # chunks_of n (drop n xs)"
  by (simp add: chunks_of.simps)

lemma concat_chunks_of: "0 < n \<Longrightarrow> concat (chunks_of n xs) = xs"
  by (induction n xs rule: chunks_of.induct) (simp add: chunks_of.simps)

lemma length_chunk: "c \<in> set (chunks_of n xs) \<Longrightarrow> length c \<le> n \<and> c \<noteq> []"
proof (induction n xs rule: chunks_of.induct)
  case (1 n xs)
  then show ?case by (auto simp: chunks_of.simps [of n xs] split: if_splits)
qed

lemma length_chunks_of: "0 < n \<Longrightarrow> length (chunks_of n xs) = (length xs + n - 1) div n"
proof (induction n xs rule: chunks_of.induct)
  case (1 n xs)
  show ?case
  proof (cases "xs = []")
    case True
    then show ?thesis using 1(2) by (simp add: div_less)
  next
    case False
    with 1 have "length (chunks_of n xs) = Suc ((length xs - n + n - 1) div n)"
      by (simp add: chunks_of_step)
    also have "(length xs - n + n - 1) div n = (length xs - 1) div n"
    proof (cases "n \<le> length xs")
      case False
      with 1(2) show ?thesis by simp
    qed simp
    also have "Suc ((length xs - 1) div n) = ((length xs - 1) + n) div n"
      using 1(2) by (simp only: div_add_self2)
    also have "(length xs - 1) + n = length xs + n - 1" using False by (cases xs) simp_all
    finally show ?thesis .
  qed
qed

section \<open>Encoding\<close>

definition chunk_nonce :: "transfer_prims \<Rightarrow> byte list \<Rightarrow> nat \<Rightarrow> byte list" where
  "chunk_nonce P tid i = take 24 (t_hash P (str_bytes ''uc:chunk-nonce:v1|'' @ tid @ le_bytes 4 i))"

definition chunk_aad :: "byte list \<Rightarrow> nat \<Rightarrow> byte list" where
  "chunk_aad tid i = tid @ le_bytes 4 i"

definition header_bytes :: "byte \<Rightarrow> nat \<Rightarrow> byte list \<Rightarrow> nat \<Rightarrow> nat \<Rightarrow> byte list" where
  "header_bytes algo uncompressed tid chunks plain_len =
     v3_magic @ [algo] @ le_bytes 4 uncompressed @ tid @ le_bytes 4 chunks @
     le_bytes 4 chunk_size @ le_bytes 4 plain_len"

fun encode_chunks ::
  "transfer_prims \<Rightarrow> byte list \<Rightarrow> byte list \<Rightarrow> nat \<Rightarrow> byte list list \<Rightarrow> chunk_error + byte list" where
  "encode_chunks P key tid i [] = Inr []"
| "encode_chunks P key tid i (p # ps) =
     (case t_seal P key (chunk_nonce P tid i) p (chunk_aad tid i) of
        None \<Rightarrow> Inl EncryptFailed
      | Some ct \<Rightarrow>
          (case encode_chunks P key tid (i + 1) ps of
             Inl e \<Rightarrow> Inl e
           | Inr b \<Rightarrow> Inr (le_bytes 4 (length ct mod 2 ^ 32) @ ct @ b)))"

definition encode_transfer ::
  "transfer_prims \<Rightarrow> byte list \<Rightarrow> byte list \<Rightarrow> byte list \<Rightarrow> byte \<Rightarrow> nat \<Rightarrow> chunk_error + byte list" where
  "encode_transfer P key tid plaintext algo uncompressed =
     (if length key \<noteq> 32 then Inl EncryptFailed
      else if 2 ^ 32 \<le> length plaintext then Inl EncryptFailed
      else
        (let plain_len = length plaintext;
             chunks = (if plaintext = [] then 0
                       else ((length plaintext + chunk_size - 1) div chunk_size) mod 2 ^ 32) in
         case encode_chunks P key tid 0 (chunks_of chunk_size plaintext) of
           Inl e \<Rightarrow> Inl e
         | Inr b \<Rightarrow> Inr (header_bytes algo uncompressed tid chunks plain_len @ b)))"

section \<open>Decoding\<close>

record v3_header =
  vh_algo :: byte
  vh_uncompressed :: nat
  vh_transfer_id :: "byte list"
  vh_chunks :: nat
  vh_plain :: nat

text \<open>The header's fields, then its checks, in order; \<^verbatim>\<open>usize\<close> has 64 bits.\<close>

definition parse_v3_header :: "byte list \<Rightarrow> chunk_error + v3_header" where
  "parse_v3_header h =
     (if take 4 h \<noteq> v3_magic then Inl InvalidMagic
      else
        (let algo = h ! 4;
             uncompressed = le_val (take 4 (drop 5 h));
             tid = take 16 (drop 9 h);
             chunks = le_val (take 4 (drop 25 h));
             plain = le_val (take 4 (drop 33 h)) in
         if 0 < chunks \<and> plain = 0 then Inl InvalidHeader
         else if 2 ^ 64 \<le> chunks * chunk_size then Inl InvalidHeader
         else if chunks * chunk_size < plain then Inl InvalidHeader
         else if max_decompressed_size < plain then Inl InvalidHeader
         else if algo = 0 \<and> uncompressed \<noteq> plain then Inl InvalidHeader
         else if algo = 1 \<and> max_decompressed_size < uncompressed then Inl InvalidHeader
         else Inr \<lparr>vh_algo = algo, vh_uncompressed = uncompressed, vh_transfer_id = tid,
                   vh_chunks = chunks, vh_plain = plain\<rparr>))"

text \<open>The loop over the chunks: the index, how many are left and what is decrypted so far.\<close>

fun decode_chunks ::
  "transfer_prims \<Rightarrow> byte list \<Rightarrow> byte list \<Rightarrow> nat \<Rightarrow> nat \<Rightarrow> byte list \<Rightarrow> (chunk_error, byte list) reader"
  where
  "decode_chunks P key tid i 0 acc s = Inr (acc, s)"
| "decode_chunks P key tid i (Suc n) acc s =
     bind_read (read_exact TruncatedChunk 4) (\<lambda>len_buf.
       if le_val len_buf < tag_size \<or> chunk_size + tag_size < le_val len_buf
       then fail_read (InvalidCiphertextLen i (le_val len_buf))
       else bind_read (read_exact TruncatedChunk (le_val len_buf)) (\<lambda>ct.
         case t_open P key (chunk_nonce P tid i) ct (chunk_aad tid i) of
           None \<Rightarrow> fail_read (DecryptFailed i)
         | Some p \<Rightarrow> decode_chunks P key tid (i + 1) n (acc @ p))) s"

definition finish_transfer ::
  "transfer_prims \<Rightarrow> v3_header \<Rightarrow> byte list \<Rightarrow> (chunk_error, byte list) reader" where
  "finish_transfer P h decrypted =
     (if length decrypted \<noteq> vh_plain h then fail_read InvalidHeader
      else if vh_algo h = 0 then return_read decrypted
      else if vh_algo h = 1 then
        (case t_unzstd P decrypted (vh_uncompressed h) of
           None \<Rightarrow> fail_read DecompressionFailed
         | Some d \<Rightarrow> return_read d)
      else fail_read (InvalidCompressionAlgo (vh_algo h)))"

definition decode_transfer :: "transfer_prims \<Rightarrow> byte list \<Rightarrow> (chunk_error, byte list) reader" where
  "decode_transfer P key =
     bind_read (read_exact TruncatedHeader v3_header_size) (\<lambda>hb.
     bind_read (lift_result (parse_v3_header hb)) (\<lambda>h.
       if length key \<noteq> 32 then fail_read EncryptFailed
       else bind_read (decode_chunks P key (vh_transfer_id h) 0 (vh_chunks h) [])
              (finish_transfer P h)))"

section \<open>The adapter\<close>

datatype cipher_error = NotUnlocked | InvalidFormat | EncryptionFailed | DecryptionFailed | InternalE

fun map_encrypt_error :: "chunk_error \<Rightarrow> cipher_error" where
  "map_encrypt_error EncryptFailed = EncryptionFailed"
| "map_encrypt_error _ = InternalE"

fun map_decrypt_error :: "chunk_error \<Rightarrow> cipher_error" where
  "map_decrypt_error (DecryptFailed _) = DecryptionFailed"
| "map_decrypt_error EncryptFailed = DecryptionFailed"
| "map_decrypt_error CompressionFailed = InternalE"
| "map_decrypt_error _ = InvalidFormat"

text \<open>The session is read twice, and can be locked in between: its key at the two reads.\<close>

definition current_master_key ::
  "byte list option \<Rightarrow> byte list option \<Rightarrow> cipher_error + byte list" where
  "current_master_key at_check at_read =
     (if at_check = None then Inl NotUnlocked
      else case at_read of None \<Rightarrow> Inl InternalE | Some key \<Rightarrow> Inr key)"

definition compress_zstd :: "transfer_prims \<Rightarrow> byte list \<Rightarrow> byte list option" where
  "compress_zstd P d =
     (if length d < parallel_compression_threshold then t_zstd_bulk P d else t_zstd_stream P d)"

definition choose_compression :: "transfer_prims \<Rightarrow> byte list \<Rightarrow> (byte list \<times> byte) option" where
  "choose_compression P plaintext =
     (if compression_threshold < length plaintext then
        (case compress_zstd P plaintext of
           None \<Rightarrow> None
         | Some c \<Rightarrow>
             if length c < length plaintext then Some (c, 1) else Some (plaintext, 0))
      else Some (plaintext, 0))"

definition encrypt_transfer ::
  "transfer_prims \<Rightarrow> byte list option \<Rightarrow> byte list option \<Rightarrow> byte list \<Rightarrow> byte list \<Rightarrow>
   cipher_error + byte list" where
  "encrypt_transfer P at_check at_read tid plaintext =
     (case current_master_key at_check at_read of
        Inl e \<Rightarrow> Inl e
      | Inr key \<Rightarrow>
          if 2 ^ 32 \<le> length plaintext then Inl InternalE
          else (case choose_compression P plaintext of
            None \<Rightarrow> Inl InternalE
          | Some (d, algo) \<Rightarrow>
              (case encode_transfer P key tid d algo (length plaintext) of
                 Inl e \<Rightarrow> Inl (map_encrypt_error e)
               | Inr b \<Rightarrow> Inr b)))"

definition decrypt_transfer ::
  "transfer_prims \<Rightarrow> byte list option \<Rightarrow> byte list option \<Rightarrow> byte list \<Rightarrow> cipher_error + byte list"
  where
  "decrypt_transfer P at_check at_read encrypted =
     (case current_master_key at_check at_read of
        Inl e \<Rightarrow> Inl e
      | Inr key \<Rightarrow>
          if length encrypted < 4 then Inl InvalidFormat
          else if take 4 encrypted \<noteq> v3_magic then Inl InvalidFormat
          else (case decode_transfer P key encrypted of
                  Inl e \<Rightarrow> Inl (map_decrypt_error e)
                | Inr (d, _) \<Rightarrow> Inr d))"

section \<open>What the primitives promise\<close>

text \<open>
  The AEAD opens what it sealed, with a tag of 16 bytes added; zstd restores what it compressed
  when it is given the size of the original.
\<close>

definition transfer_sound :: "transfer_prims \<Rightarrow> bool" where
  "transfer_sound P \<longleftrightarrow>
     (\<forall>k n p a c. t_seal P k n p a = Some c \<longrightarrow>
        length c = length p + tag_size \<and> t_open P k n c a = Some p) \<and>
     (\<forall>d c. t_zstd_bulk P d = Some c \<longrightarrow> t_unzstd P c (length d) = Some d) \<and>
     (\<forall>d c. t_zstd_stream P d = Some c \<longrightarrow> t_unzstd P c (length d) = Some d)"

text \<open>
  The AEAD opens nothing but what the same key, nonce and associated data seal (its tag is a
  function of them), and zstd never yields more than the capacity it is given.
\<close>

definition transfer_authentic :: "transfer_prims \<Rightarrow> bool" where
  "transfer_authentic P \<longleftrightarrow>
     (\<forall>k n p a c. t_open P k n c a = Some p \<longrightarrow> t_seal P k n p a = Some c) \<and>
     (\<forall>c n d. t_unzstd P c n = Some d \<longrightarrow> length d \<le> n)"

lemma sound_seal:
  "\<lbrakk>transfer_sound P; t_seal P k n p a = Some c\<rbrakk> \<Longrightarrow>
   length c = length p + tag_size \<and> t_open P k n c a = Some p"
  unfolding transfer_sound_def by blast

lemma sound_compress:
  "\<lbrakk>transfer_sound P; compress_zstd P d = Some c\<rbrakk> \<Longrightarrow> t_unzstd P c (length d) = Some d"
  unfolding transfer_sound_def compress_zstd_def by (meson option.distinct)

section \<open>What is sealed is opened\<close>

lemma decode_encode_chunks:
  assumes "transfer_sound P"
  shows "\<lbrakk>encode_chunks P key tid i ps = Inr b; \<forall>p \<in> set ps. length p \<le> chunk_size\<rbrakk> \<Longrightarrow>
     decode_chunks P key tid i (length ps) acc (b @ rest) = Inr (acc @ concat ps, rest)"
proof (induction ps arbitrary: i b acc)
  case Nil
  then show ?case by simp
next
  case (Cons p ps)
  from Cons.prems(1) obtain ct b' where
    ct: "t_seal P key (chunk_nonce P tid i) p (chunk_aad tid i) = Some ct" and
    b': "encode_chunks P key tid (i + 1) ps = Inr b'" and
    b: "b = le_bytes 4 (length ct mod 2 ^ 32) @ ct @ b'"
    by (auto split: option.splits sum.splits)
  from sound_seal [OF assms ct] have open_ct: "t_open P key (chunk_nonce P tid i) ct (chunk_aad tid i) = Some p"
    and len: "length ct = length p + tag_size" by simp_all
  from len Cons.prems(2) have "length ct \<le> chunk_size + tag_size" by simp
  then have small: "length ct < 256 ^ 4" by (simp add: chunk_size_def tag_size_def)
  then have "length ct mod 2 ^ 32 = length ct" by simp
  with Cons.IH [OF b'] Cons.prems(2) open_ct len small show ?case
    by (simp add: b bind_read_def read_exact_append le_val_le_bytes_id)
qed

lemma length_header_bytes: "length tid = 16 \<Longrightarrow> length (header_bytes algo u tid c t) = v3_header_size"
  by (simp add: header_bytes_def v3_magic_def v3_header_size_def)

lemma parse_header_bytes:
  assumes "length tid = 16" "u < 2 ^ 32" "c < 2 ^ 32" "t < 2 ^ 32"
  shows "parse_v3_header (header_bytes algo u tid c t) =
    (if 0 < c \<and> t = 0 then Inl InvalidHeader
     else if c * chunk_size < t then Inl InvalidHeader
     else if max_decompressed_size < t then Inl InvalidHeader
     else if algo = 0 \<and> u \<noteq> t then Inl InvalidHeader
     else if algo = 1 \<and> max_decompressed_size < u then Inl InvalidHeader
     else Inr \<lparr>vh_algo = algo, vh_uncompressed = u, vh_transfer_id = tid, vh_chunks = c, vh_plain = t\<rparr>)"
proof -
  let ?h = "header_bytes algo u tid c t"
  have vals: "le_val (le_bytes 4 u) = u" "le_val (le_bytes 4 c) = c" "le_val (le_bytes 4 t) = t"
    using assms(2-4) by (simp_all add: le_val_le_bytes_id)
  have d5: "drop 5 ?h = le_bytes 4 u @ tid @ le_bytes 4 c @ le_bytes 4 chunk_size @ le_bytes 4 t"
    by (simp add: header_bytes_def v3_magic_def)
  have d9: "drop 9 ?h = tid @ le_bytes 4 c @ le_bytes 4 chunk_size @ le_bytes 4 t"
    using arg_cong [OF d5, of "drop 4"] by simp
  have d25: "drop 25 ?h = le_bytes 4 c @ le_bytes 4 chunk_size @ le_bytes 4 t"
    using arg_cong [OF d9, of "drop 16"] assms(1) by simp
  have d33: "drop 33 ?h = le_bytes 4 t"
    using arg_cong [OF d25, of "drop 8"] by simp
  have "c * chunk_size < 2 ^ 32 * 2 ^ 18"
    using assms(3) by (simp add: chunk_size_def)
  then have no_overflow: "\<not> 2 ^ 64 \<le> c * chunk_size" by simp
  have magic: "take 4 ?h = v3_magic" "?h ! 4 = algo"
    by (simp_all add: header_bytes_def v3_magic_def)
  have fields: "take 4 (drop 5 ?h) = le_bytes 4 u" "take 16 (drop 9 ?h) = tid"
    "take 4 (drop 25 ?h) = le_bytes 4 c" "take 4 (drop 33 ?h) = le_bytes 4 t"
    unfolding d5 d9 d25 d33 using assms(1) by simp_all
  show ?thesis
    unfolding parse_v3_header_def Let_def magic fields vals
    by (simp only: no_overflow if_False simp_thms if_not_P)
qed

lemma decode_encode_transfer:
  assumes "transfer_sound P" "length tid = 16"
    and "encode_transfer P key tid d algo u = Inr b"
    and "length d \<le> max_decompressed_size" "u \<le> max_decompressed_size"
    and "algo = 0 \<and> u = length d \<or> algo = 1 \<and> t_unzstd P d u = Some x"
  shows "decode_transfer P key (b @ rest) = Inr (if algo = 0 then d else x, rest)"
proof -
  let ?c = "if d = [] then 0 else ((length d + chunk_size - 1) div chunk_size) mod 2 ^ 32"
  from assms(3) obtain cb where key: "length key = 32" and
    cb: "encode_chunks P key tid 0 (chunks_of chunk_size d) = Inr cb" and
    b: "b = header_bytes algo u tid ?c (length d) @ cb"
    by (auto simp: encode_transfer_def Let_def split: if_splits sum.splits)
  have cs: "0 < chunk_size" by (simp add: chunk_size_def)
  have count: "?c = length (chunks_of chunk_size d)"
  proof (cases "d = []")
    case False
    have "(length d + chunk_size - 1) div chunk_size \<le> length d + chunk_size - 1" by (rule div_le_dividend)
    also have "\<dots> < 2 ^ 32" using assms(4) by (simp add: transfer_consts)
    finally show ?thesis using False length_chunks_of [OF cs, of d] by simp
  qed simp
  have "length d \<le> length (chunks_of chunk_size d) * chunk_size"
  proof -
    have "length d = sum_list (map length (chunks_of chunk_size d))"
      using concat_chunks_of [OF cs, of d] by (metis length_concat)
    also have "\<dots> \<le> sum_list (map (\<lambda>_. chunk_size) (chunks_of chunk_size d))"
      by (rule sum_list_mono) (simp add: length_chunk)
    finally show ?thesis by (simp add: sum_list_triv)
  qed
  moreover have "length (chunks_of chunk_size d) = 0 \<longleftrightarrow> length d = 0"
    using cs by (auto simp: chunks_of.simps)
  moreover have "?c < 2 ^ 32" by simp
  ultimately have "parse_v3_header (header_bytes algo u tid ?c (length d)) =
      Inr \<lparr>vh_algo = algo, vh_uncompressed = u, vh_transfer_id = tid,
           vh_chunks = length (chunks_of chunk_size d), vh_plain = length d\<rparr>"
    using parse_header_bytes [OF assms(2), of u ?c "length d" algo] assms(4-6)
    by (auto simp: count transfer_consts)
  moreover have "decode_chunks P key tid 0 (length (chunks_of chunk_size d)) [] (cb @ rest) = Inr (d, rest)"
    using decode_encode_chunks [OF assms(1) cb, of "[]" rest] length_chunk [of _ chunk_size d]
      concat_chunks_of [OF cs, of d] by auto
  ultimately show ?thesis
    using key assms(6)
    by (auto simp: decode_transfer_def b bind_read_def read_exact_append length_header_bytes
        assms(2) lift_result_def return_read_def finish_transfer_def)
qed

lemma encrypt_magic:
  "encode_transfer P key tid d algo u = Inr b \<Longrightarrow> take 4 b = v3_magic \<and> 4 \<le> length b"
  by (auto simp: encode_transfer_def Let_def header_bytes_def v3_magic_def split: if_splits sum.splits)

lemma choose_compression_cases:
  assumes "transfer_sound P" "choose_compression P m = Some (d, algo)"
  shows "length d \<le> length m \<and>
    (algo = 0 \<and> d = m \<or> algo = 1 \<and> t_unzstd P d (length m) = Some m)"
  using assms sound_compress [OF assms(1)]
  by (auto simp: choose_compression_def split: if_splits option.splits)

lemma decrypt_encrypt:
  assumes "transfer_sound P" "length tid = 16" "length m \<le> receive_plaintext_cap"
    and "encrypt_transfer P (Some key0) (Some key) tid m = Inr b"
  shows "decrypt_transfer P (Some key1) (Some key) b = Inr m"
proof -
  from assms(4) obtain d algo where d: "choose_compression P m = Some (d, algo)"
    and enc: "encode_transfer P key tid d algo (length m) = Inr b"
    by (auto simp: encrypt_transfer_def current_master_key_def split: if_splits option.splits sum.splits)
  from choose_compression_cases [OF assms(1) d] assms(3)
  have "decode_transfer P key (b @ []) = Inr (if algo = 0 then d else m, [])"
    by (intro decode_encode_transfer [OF assms(1,2) enc]) (auto simp: max_decompressed_size_def)
  with choose_compression_cases [OF assms(1) d] encrypt_magic [OF enc] show ?thesis
    by (auto simp: decrypt_transfer_def current_master_key_def)
qed

section \<open>What is accepted was sealed\<close>

lemma encode_decode_chunks:
  assumes "transfer_authentic P"
  shows "decode_chunks P key tid i n acc s = Inr (d, rest) \<Longrightarrow>
     \<exists>ps b. length ps = n \<and> d = acc @ concat ps \<and> encode_chunks P key tid i ps = Inr b \<and> s = b @ rest"
proof (induction n arbitrary: i acc s)
  case 0
  then show ?case by (intro exI [of _ "[]"]) simp
next
  case (Suc n)
  from Suc.prems obtain lb s1 ct s2 p where
    lb: "s = lb @ s1" "length lb = 4" "\<not> le_val lb < tag_size" "\<not> chunk_size + tag_size < le_val lb" and
    ct: "s1 = ct @ s2" "length ct = le_val lb" and
    p: "t_open P key (chunk_nonce P tid i) ct (chunk_aad tid i) = Some p" and
    rec: "decode_chunks P key tid (i + 1) n (acc @ p) s2 = Inr (d, rest)"
    by (auto simp: bind_read_Inr_iff read_exact_Inr_iff split: if_splits option.splits)
  from Suc.IH [OF rec] obtain ps b where
    ih: "length ps = n" "d = (acc @ p) @ concat ps" "encode_chunks P key tid (i + 1) ps = Inr b" "s2 = b @ rest"
    by blast
  from p assms have seal: "t_seal P key (chunk_nonce P tid i) p (chunk_aad tid i) = Some ct"
    unfolding transfer_authentic_def by blast
  from lb ct have "length ct \<le> chunk_size + tag_size" by simp
  then have "length ct < 2 ^ 32" by (simp add: chunk_size_def tag_size_def)
  with ct lb(2) le_bytes_le_val [of lb] have "le_bytes 4 (length ct mod 2 ^ 32) = lb" by simp
  with ih seal lb ct show ?case
    by (intro exI [of _ "p # ps"] exI [of _ "lb @ ct @ b"]) simp
qed

lemma decode_transfer_sealed:
  assumes "transfer_authentic P" "decode_transfer P key s = Inr (m, rest)"
  shows "\<exists>hb h ps cb. s = hb @ cb @ rest \<and> parse_v3_header hb = Inr h \<and> length ps = vh_chunks h \<and>
    encode_chunks P key (vh_transfer_id h) 0 ps = Inr cb \<and> length (concat ps) = vh_plain h \<and>
    (vh_algo h = 0 \<and> m = concat ps \<or>
     vh_algo h = 1 \<and> t_unzstd P (concat ps) (vh_uncompressed h) = Some m)"
proof -
  from assms(2) obtain hb s1 h d s2 where
    hb: "s = hb @ s1" "parse_v3_header hb = Inr h" and
    d: "decode_chunks P key (vh_transfer_id h) 0 (vh_chunks h) [] s1 = Inr (d, s2)" and
    fin: "finish_transfer P h d s2 = Inr (m, rest)"
    by (auto simp: decode_transfer_def bind_read_Inr_iff read_exact_Inr_iff lift_result_Inr_iff
        split: if_splits)
  from encode_decode_chunks [OF assms(1) d] obtain ps cb where
    ps: "length ps = vh_chunks h" "d = concat ps" "encode_chunks P key (vh_transfer_id h) 0 ps = Inr cb"
      "s1 = cb @ s2" by auto
  from fin have "s2 = rest" "length d = vh_plain h"
    "vh_algo h = 0 \<and> m = d \<or> vh_algo h = 1 \<and> t_unzstd P d (vh_uncompressed h) = Some m"
    by (auto simp: finish_transfer_def return_read_Inr_iff split: if_splits option.splits)
  with hb ps show ?thesis by blast
qed

lemma parse_v3_header_bounds:
  "parse_v3_header hb = Inr h \<Longrightarrow>
   vh_plain h \<le> max_decompressed_size \<and> vh_plain h \<le> vh_chunks h * chunk_size \<and>
   (vh_algo h = 0 \<longrightarrow> vh_uncompressed h = vh_plain h) \<and>
   (vh_algo h = 1 \<longrightarrow> vh_uncompressed h \<le> max_decompressed_size)"
  by (auto simp: parse_v3_header_def Let_def not_less split: if_splits)

lemma decode_transfer_bounded:
  assumes "transfer_authentic P" "decode_transfer P key s = Inr (m, rest)"
  shows "length m \<le> max_decompressed_size"
proof -
  from decode_transfer_sealed [OF assms] obtain hb h d where
    "parse_v3_header hb = Inr h" "length d = vh_plain h"
    "vh_algo h = 0 \<and> m = d \<or> vh_algo h = 1 \<and> t_unzstd P d (vh_uncompressed h) = Some m" by metis
  moreover from assms(1) have "t_unzstd P d n = Some m \<Longrightarrow> length m \<le> n" for n
    unfolding transfer_authentic_def by blast
  ultimately show ?thesis using parse_v3_header_bounds [of hb h] by fastforce
qed

section \<open>Above the cap\<close>

lemma oversized_never_decrypts:
  assumes "length tid = 16" "receive_plaintext_cap < length m"
    and "encrypt_transfer P (Some key0) (Some key) tid m = Inr b"
  shows "decrypt_transfer P (Some key1) (Some key) b = Inl InvalidFormat"
proof -
  from assms(3) obtain d algo where len: "length m < 2 ^ 32"
    and d: "choose_compression P m = Some (d, algo)"
    and enc: "encode_transfer P key tid d algo (length m) = Inr b"
    by (auto simp: encrypt_transfer_def current_master_key_def not_le split: if_splits option.splits sum.splits)
  let ?c = "if d = [] then 0 else ((length d + chunk_size - 1) div chunk_size) mod 2 ^ 32"
  from enc obtain cb where "length d < 2 ^ 32"
    and b: "b = header_bytes algo (length m) tid ?c (length d) @ cb"
    by (auto simp: encode_transfer_def Let_def not_le split: if_splits sum.splits)
  moreover from d have "algo = 0 \<and> d = m \<or> algo = 1"
    by (auto simp: choose_compression_def split: if_splits option.splits)
  moreover have "?c < 2 ^ 32" by simp
  ultimately have "parse_v3_header (header_bytes algo (length m) tid ?c (length d)) = Inl InvalidHeader"
    using parse_header_bytes [OF assms(1) len, of ?c "length d" algo] assms(2)
    unfolding max_decompressed_size_def by auto
  then have "decode_transfer P key b = Inl InvalidHeader"
    unfolding b by (simp add: decode_transfer_def bind_read_def read_exact_append length_header_bytes
        assms(1) lift_result_def fail_read_def)
  with encrypt_magic [OF enc] show ?thesis
    by (simp add: decrypt_transfer_def current_master_key_def)
qed

end
