(* ===== verification/Rep_Cache.thy ===== *)
theory Rep_Cache
  imports Prelude "HOL-Library.AList"
begin

text \<open>
  The bounded in-memory cache of representation bytes,
  \<^verbatim>\<open>uc-infra/clipboard/representation_cache.rs\<close>. The hash map is an association list with
  distinct keys, the mutex makes every operation atomic, and \<^verbatim>\<open>usize\<close> has 64 bits.
\<close>

datatype cache_status = PendingC | ProcessingC | CompletedC

record cache_entry =
  raw_bytes :: "byte list"
  c_status :: cache_status

record cache =
  c_entries :: "(string \<times> cache_entry) list"
  c_queue :: "string list"
  c_max_entries :: nat
  c_max_bytes :: nat
  c_bytes :: nat

definition usize_max :: nat where "usize_max = 2 ^ 64 - 1"

definition cache_new :: "nat \<Rightarrow> nat \<Rightarrow> cache" where
  "cache_new max_entries max_bytes =
     \<lparr>c_entries = [], c_queue = [], c_max_entries = max_entries, c_max_bytes = max_bytes, c_bytes = 0\<rparr>"

text \<open>Subtraction of natural numbers saturates, as \<^verbatim>\<open>saturating_sub\<close>.\<close>

definition remove_entry :: "string \<Rightarrow> cache \<Rightarrow> cache" where
  "remove_entry k c =
     (case map_of (c_entries c) k of
        None \<Rightarrow> c
      | Some e \<Rightarrow> c\<lparr>c_entries := AList.delete k (c_entries c),
                      c_bytes := c_bytes c - length (raw_bytes e)\<rparr>)"

definition has_status :: "cache \<Rightarrow> cache_status \<Rightarrow> string \<Rightarrow> bool" where
  "has_status c s k =
     (case map_of (c_entries c) k of None \<Rightarrow> False | Some e \<Rightarrow> c_status e = s)"

definition pop_oldest_by_status :: "cache_status \<Rightarrow> cache \<Rightarrow> (string \<times> cache) option" where
  "pop_oldest_by_status s c =
     (case find_index (has_status c s) (c_queue c) of
        None \<Rightarrow> None
      | Some pos \<Rightarrow> Some (c_queue c ! pos, c\<lparr>c_queue := remove_index pos (c_queue c)\<rparr>))"

definition over_limit :: "cache \<Rightarrow> bool" where
  "over_limit c \<longleftrightarrow> c_max_entries c < length (c_entries c) \<or> c_max_bytes c < c_bytes c"

lemma queue_remove_entry [simp]: "c_queue (remove_entry k c) = c_queue c"
  by (simp add: remove_entry_def split: option.split)

lemma pop_oldest_queue:
  "pop_oldest_by_status s c = Some (k, c') \<Longrightarrow> length (c_queue c') < length (c_queue c)"
  using length_remove_index
  by (auto simp: pop_oldest_by_status_def remove_index_def dest!: find_index_SomeD split: option.splits)

function evict_if_needed :: "cache \<Rightarrow> cache" where
  "evict_if_needed c =
     (if over_limit c then
        (case pop_oldest_by_status CompletedC c of
           Some (k, c') \<Rightarrow> evict_if_needed (remove_entry k c')
         | None \<Rightarrow>
             (case c_queue c of
                k # rest \<Rightarrow> evict_if_needed (remove_entry k (c\<lparr>c_queue := rest\<rparr>))
              | [] \<Rightarrow> c))
      else c)"
  by pat_completeness auto
termination by (relation "measure (length \<circ> c_queue)") (auto dest: pop_oldest_queue)

declare evict_if_needed.simps [simp del]

definition cache_put :: "string \<Rightarrow> byte list \<Rightarrow> cache \<Rightarrow> cache" where
  "cache_put k bytes c0 =
     (let c1 = remove_entry k c0;
          c2 = c1\<lparr>c_queue := filter (\<lambda>i. i \<noteq> k) (c_queue c1)\<rparr>;
          c3 = c2\<lparr>c_entries := AList.update k \<lparr>raw_bytes = bytes, c_status = PendingC\<rparr> (c_entries c2)\<rparr>;
          c4 = c3\<lparr>c_queue := c_queue c3 @ [k]\<rparr>;
          c5 = c4\<lparr>c_bytes := min usize_max (c_bytes c4 + length bytes)\<rparr> in
      evict_if_needed c5)"

definition cache_get :: "string \<Rightarrow> cache \<Rightarrow> byte list option" where
  "cache_get k c = map_option raw_bytes (map_of (c_entries c) k)"

definition set_status :: "cache_status \<Rightarrow> string \<Rightarrow> cache \<Rightarrow> cache" where
  "set_status s k c =
     (case map_of (c_entries c) k of
        None \<Rightarrow> c
      | Some e \<Rightarrow> c\<lparr>c_entries := AList.update k (e\<lparr>c_status := s\<rparr>) (c_entries c)\<rparr>)"

definition mark_completed :: "string \<Rightarrow> cache \<Rightarrow> cache" where
  "mark_completed k c = set_status CompletedC k c"

definition mark_spooling :: "string \<Rightarrow> cache \<Rightarrow> cache" where
  "mark_spooling k c = set_status ProcessingC k c"

definition mark_pending :: "string \<Rightarrow> cache \<Rightarrow> cache" where
  "mark_pending k c = set_status PendingC k c"

definition cache_remove :: "string \<Rightarrow> cache \<Rightarrow> cache" where
  "cache_remove k c0 =
     (let c1 = remove_entry k c0 in c1\<lparr>c_queue := filter (\<lambda>i. i \<noteq> k) (c_queue c1)\<rparr>)"

section \<open>The invariant\<close>

definition entry_bytes :: "(string \<times> cache_entry) list \<Rightarrow> nat" where
  "entry_bytes es = sum_list (map (\<lambda>(_, e). length (raw_bytes e)) es)"

text \<open>The queue lists the keys of the map once each, and the counter is the bytes held.\<close>

definition cache_inv :: "cache \<Rightarrow> bool" where
  "cache_inv c \<longleftrightarrow>
     distinct (map fst (c_entries c)) \<and> distinct (c_queue c) \<and>
     set (c_queue c) = fst ` set (c_entries c) \<and> c_bytes c = entry_bytes (c_entries c)"

lemma cache_inv_new: "cache_inv (cache_new n b)"
  by (simp add: cache_inv_def cache_new_def entry_bytes_def)

lemma delete_absent: "map_of es k = None \<Longrightarrow> AList.delete k es = es"
  by (auto simp: AList.delete_eq map_of_eq_None_iff image_iff intro!: filter_True)

lemma map_le_upd_None:
  assumes "m \<subseteq>\<^sub>m n(k := None)"
  shows "m \<subseteq>\<^sub>m n"
proof -
  have "m a = n a" if "a \<in> dom m" for a
  proof -
    from assms that have "m a = (n(k := None)) a" by (simp only: map_le_def)
    with that show ?thesis by (auto simp: domIff split: if_splits)
  qed
  then show ?thesis by (simp add: map_le_def)
qed

lemma entry_bytes_delete:
  "\<lbrakk>distinct (map fst es); map_of es k = Some e\<rbrakk> \<Longrightarrow>
   entry_bytes es = entry_bytes (AList.delete k es) + length (raw_bytes e)"
proof (induction es)
  case Nil
  then show ?case by simp
next
  case (Cons p es)
  obtain j f where p: "p = (j, f)" by (cases p)
  show ?case
  proof (cases "j = k")
    case True
    with Cons.prems p have "map_of es k = None" "f = e" by (auto simp: map_of_eq_None_iff)
    with True p show ?thesis by (simp add: entry_bytes_def delete_absent)
  next
    case False
    with Cons p show ?thesis by (simp add: entry_bytes_def)
  qed
qed

lemma entry_bytes_update_new:
  "map_of es k = None \<Longrightarrow> entry_bytes (AList.update k e es) = entry_bytes es + length (raw_bytes e)"
  by (induction es) (auto simp: entry_bytes_def)

lemma entry_bytes_update_same:
  "\<lbrakk>map_of es k = Some e; raw_bytes f = raw_bytes e\<rbrakk> \<Longrightarrow> entry_bytes (AList.update k f es) = entry_bytes es"
  by (induction es) (auto simp: entry_bytes_def split: if_splits)

text \<open>Removing a key from map, queue and counter at once.\<close>

lemma cache_remove_fields:
  "c_queue (cache_remove k c) = filter (\<lambda>i. i \<noteq> k) (c_queue c)"
  "c_max_entries (cache_remove k c) = c_max_entries c"
  "c_max_bytes (cache_remove k c) = c_max_bytes c"
  "c_entries (cache_remove k c) = AList.delete k (c_entries c)"
  by (simp_all add: cache_remove_def remove_entry_def Let_def delete_absent split: option.split)

lemma cache_remove_map:
  "map_of (c_entries (cache_remove k c)) = (map_of (c_entries c))(k := None)"
  by (simp add: cache_remove_fields AList.delete_conv')

lemma cache_inv_remove: "cache_inv c \<Longrightarrow> cache_inv (cache_remove k c)"
proof -
  assume inv: "cache_inv c"
  have "c_bytes (cache_remove k c) = entry_bytes (AList.delete k (c_entries c))"
  proof (cases "map_of (c_entries c) k")
    case None
    then show ?thesis
      using inv by (simp add: cache_remove_def remove_entry_def cache_inv_def delete_absent)
  next
    case (Some e)
    then show ?thesis
      using inv entry_bytes_delete [of "c_entries c" k e]
      by (simp add: cache_remove_def remove_entry_def cache_inv_def)
  qed
  moreover have "distinct (map fst (AList.delete k (c_entries c)))"
    using inv by (simp add: cache_inv_def AList.distinct_delete)
  ultimately show ?thesis
    using inv by (auto simp: cache_inv_def cache_remove_fields AList.delete_keys [symmetric]
        AList.delete_eq)
qed

section \<open>Eviction\<close>

text \<open>The key the eviction loop drops next.\<close>

definition victim :: "cache \<Rightarrow> string option" where
  "victim c =
     (case find_index (has_status c CompletedC) (c_queue c) of
        Some i \<Rightarrow> Some (c_queue c ! i)
      | None \<Rightarrow> (case c_queue c of [] \<Rightarrow> None | k # _ \<Rightarrow> Some k))"

lemma remove_index_filter:
  "\<lbrakk>distinct xs; i < length xs\<rbrakk> \<Longrightarrow> remove_index i xs = filter (\<lambda>x. x \<noteq> xs ! i) xs"
proof -
  assume d: "distinct xs" and i: "i < length xs"
  have xs: "xs = take i xs @ xs ! i # drop (Suc i) xs" by (rule id_take_nth_drop [OF i])
  with d have "distinct (take i xs @ xs ! i # drop (Suc i) xs)" by simp
  then have "filter (\<lambda>x. x \<noteq> xs ! i) (take i xs @ xs ! i # drop (Suc i) xs) = take i xs @ drop (Suc i) xs"
    by (auto intro!: filter_True arg_cong2 [where f = append])
  then show ?thesis by (simp add: remove_index_def flip: xs)
qed

lemma remove_entry_queue: "remove_entry k (c\<lparr>c_queue := q\<rparr>) = (remove_entry k c)\<lparr>c_queue := q\<rparr>"
  by (simp add: remove_entry_def split: option.split)

lemma evict_unfold:
  assumes "cache_inv c"
  shows "evict_if_needed c =
    (if over_limit c then
       (case victim c of None \<Rightarrow> c | Some k \<Rightarrow> evict_if_needed (cache_remove k c))
     else c)"
proof -
  have d: "distinct (c_queue c)" using assms by (simp add: cache_inv_def)
  have "evict_if_needed (remove_entry k (c\<lparr>c_queue := remove_index i (c_queue c)\<rparr>)) =
      evict_if_needed (cache_remove k c)"
    if "find_index (has_status c CompletedC) (c_queue c) = Some i" "k = c_queue c ! i" for i k
    using remove_index_filter [OF d, of i] find_index_SomeD [OF that(1)] that(2)
    by (simp add: remove_entry_queue cache_remove_def)
  moreover have "evict_if_needed (remove_entry k (c\<lparr>c_queue := q\<rparr>)) = evict_if_needed (cache_remove k c)"
    if "c_queue c = k # q" for k q
  proof -
    from that d have "filter (\<lambda>i. i \<noteq> k) (c_queue c) = q" by (auto intro!: filter_True)
    then show ?thesis by (simp add: remove_entry_queue cache_remove_def)
  qed
  ultimately show ?thesis
    by (subst evict_if_needed.simps)
       (auto simp: pop_oldest_by_status_def victim_def split: option.split list.split)
qed

lemma victim_queue: "victim c = Some k \<Longrightarrow> k \<in> set (c_queue c)"
  by (auto simp: victim_def dest!: find_index_SomeD split: option.splits list.splits)

lemma evict_induct [consumes 1, case_names stay evict]:
  assumes "cache_inv c"
    and "\<And>c. \<lbrakk>cache_inv c; \<not> over_limit c \<or> victim c = None\<rbrakk> \<Longrightarrow> P c c"
    and "\<And>c k d. \<lbrakk>cache_inv c; over_limit c; victim c = Some k; P (cache_remove k c) d\<rbrakk> \<Longrightarrow> P c d"
  shows "P c (evict_if_needed c)"
  using assms(1)
proof (induction "length (c_queue c)" arbitrary: c rule: less_induct)
  case less
  show ?case
  proof (cases "over_limit c \<and> victim c \<noteq> None")
    case False
    then show ?thesis using assms(2) [OF less.prems] by (auto simp: evict_unfold [OF less.prems])
  next
    case True
    then obtain k where k: "victim c = Some k" by blast
    from victim_queue [OF k] have "length (c_queue (cache_remove k c)) < length (c_queue c)"
      by (simp add: cache_remove_fields length_filter_less)
    from less.hyps [OF this cache_inv_remove [OF less.prems]] True k
    show ?thesis using assms(3) [OF less.prems] by (simp add: evict_unfold [OF less.prems])
  qed
qed

lemma inv_evict: "cache_inv c \<Longrightarrow> cache_inv (evict_if_needed c)"
  by (induction rule: evict_induct) simp_all

lemma no_victim_empty:
  assumes "cache_inv c" "victim c = None"
  shows "\<not> over_limit c"
proof -
  from assms(2) have "c_queue c = []" by (auto simp: victim_def split: option.splits list.splits)
  with assms(1) show ?thesis by (simp add: cache_inv_def over_limit_def entry_bytes_def)
qed

lemma evict_fits: "cache_inv c \<Longrightarrow> \<not> over_limit (evict_if_needed c)"
  by (induction rule: evict_induct) (auto simp: no_victim_empty)

lemma evict_keeps_limits:
  "cache_inv c \<Longrightarrow> c_max_bytes (evict_if_needed c) = c_max_bytes c \<and>
     c_max_entries (evict_if_needed c) = c_max_entries c"
  by (induction rule: evict_induct) (simp_all add: cache_remove_fields)

text \<open>Nothing that is still wanted goes while something completed is left.\<close>

lemma victim_completed:
  assumes "victim c = Some k" "\<not> has_status c CompletedC k"
  shows "\<forall>j \<in> set (c_queue c). \<not> has_status c CompletedC j"
  using assms by (auto simp: victim_def find_index_None_iff dest!: find_index_SomeD split: option.splits)

lemma has_status_submap:
  "\<lbrakk>map_of (c_entries d) \<subseteq>\<^sub>m map_of (c_entries c); has_status d s i\<rbrakk> \<Longrightarrow> has_status c s i"
  by (force simp: has_status_def map_le_def dom_def split: option.splits)

lemma has_status_queue: "\<lbrakk>cache_inv c; has_status c s i\<rbrakk> \<Longrightarrow> i \<in> set (c_queue c)"
  by (force simp: has_status_def cache_inv_def dest: map_of_SomeD split: option.splits)

lemma evict_completed_first:
  assumes "cache_inv c"
  shows "map_of (c_entries (evict_if_needed c)) \<subseteq>\<^sub>m map_of (c_entries c) \<and>
    (\<forall>j \<in> set (c_queue c). \<not> has_status c CompletedC j \<longrightarrow>
       map_of (c_entries (evict_if_needed c)) j = None \<longrightarrow>
       (\<forall>i. \<not> has_status (evict_if_needed c) CompletedC i))"
  using assms
proof (induction rule: evict_induct)
  case (stay c)
  then have "map_of (c_entries c) j \<noteq> None" if "j \<in> set (c_queue c)" for j
    using that by (simp add: cache_inv_def map_of_eq_None_iff)
  then show ?case unfolding map_le_def by metis
next
  case (evict c k d)
  have sub: "map_of (c_entries d) \<subseteq>\<^sub>m map_of (c_entries c)"
    using evict.IH unfolding cache_remove_map by (blast intro: map_le_upd_None)
  have "\<not> has_status d CompletedC i"
    if j: "j \<in> set (c_queue c)" "\<not> has_status c CompletedC j" "map_of (c_entries d) j = None" for i j
  proof (cases "j = k")
    case True
    with j victim_completed [OF evict.hyps(3)] have "\<forall>j \<in> set (c_queue c). \<not> has_status c CompletedC j"
      by simp
    with has_status_submap [OF sub] has_status_queue [OF evict.hyps(1)] show ?thesis by blast
  next
    case False
    with j have "j \<in> set (c_queue (cache_remove k c))" "\<not> has_status (cache_remove k c) CompletedC j"
      by (simp_all add: cache_remove_fields(1) has_status_def cache_remove_map)
    with j(3) evict.IH show ?thesis by blast
  qed
  with sub show ?case by blast
qed

text \<open>The entry at the back survives if it fits on its own and is not completed.\<close>

lemma evict_keeps_last:
  assumes "cache_inv c"
  shows "\<lbrakk>c_queue c \<noteq> []; last (c_queue c) = k; map_of (c_entries c) k = Some e; c_status e \<noteq> CompletedC;
     length (raw_bytes e) \<le> c_max_bytes c; 0 < c_max_entries c\<rbrakk> \<Longrightarrow>
     map_of (c_entries (evict_if_needed c)) k = Some e"
  using assms
proof (induction "length (c_queue c)" arbitrary: c rule: less_induct)
  case less
  show ?case
  proof (cases "over_limit c")
    case False
    then show ?thesis using less.prems by (simp add: evict_unfold)
  next
    case True
    with no_victim_empty [OF less.prems(7)] obtain v where v: "victim c = Some v" by blast
    have kq: "c_queue c = butlast (c_queue c) @ [k]"
      using less.prems(1,2) append_butlast_last_id [of "c_queue c"] by simp
    have vk: "v \<noteq> k"
    proof
      assume vk: "v = k"
      have "\<not> has_status c CompletedC k" using less.prems(3,4) by (simp add: has_status_def)
      with v vk have "c_queue c = k # tl (c_queue c)"
        by (auto simp: victim_def dest!: find_index_SomeD split: option.splits list.splits)
      with kq less.prems(7) have "c_queue c = [k]"
        by (metis cache_inv_def butlast.simps(2) distinct.simps(2) last_in_set less.prems(2) list.sel(3) append_self_conv2 last.simps)
      with less.prems(7) have keys: "fst ` set (c_entries c) = {k}" and d: "distinct (map fst (c_entries c))"
        and b: "c_bytes c = entry_bytes (c_entries c)"
        by (simp_all add: cache_inv_def)
      from keys distinct_card [OF d] have "length (c_entries c) = 1" by simp
      then obtain p where "c_entries c = [p]" by (metis One_nat_def length_0_conv length_Suc_conv)
      with keys less.prems(3) have "c_entries c = [(k, e)]" by (cases p) (auto split: if_splits)
      with True less.prems(5,6) b show False by (simp add: over_limit_def entry_bytes_def)
    qed
    let ?c = "cache_remove v c"
    have q: "c_queue ?c = filter (\<lambda>i. i \<noteq> v) (butlast (c_queue c)) @ [k]"
      using vk arg_cong [OF kq, of "filter (\<lambda>i. i \<noteq> v)"] by (simp add: cache_remove_fields(1))
    have "length (c_queue ?c) < length (c_queue c)"
      using victim_queue [OF v] by (simp add: cache_remove_fields(1) length_filter_less)
    moreover have "map_of (c_entries ?c) k = Some e" using vk less.prems(3) by (simp add: cache_remove_map)
    ultimately have "map_of (c_entries (evict_if_needed ?c)) k = Some e"
      using less.prems q cache_inv_remove [OF less.prems(7)]
      by (intro less.hyps) (simp_all add: cache_remove_fields(2,3))
    then show ?thesis using True v less.prems(7) by (simp add: evict_unfold)
  qed
qed

section \<open>The operations\<close>

definition put_raw :: "string \<Rightarrow> byte list \<Rightarrow> cache \<Rightarrow> cache" where
  "put_raw k bytes c =
     (let c1 = cache_remove k c in
      c1\<lparr>c_entries := AList.update k \<lparr>raw_bytes = bytes, c_status = PendingC\<rparr> (c_entries c1),
         c_queue := c_queue c1 @ [k], c_bytes := min usize_max (c_bytes c1 + length bytes)\<rparr>)"

lemma cache_put_raw: "cache_put k bytes c = evict_if_needed (put_raw k bytes c)"
  by (simp add: cache_put_def put_raw_def cache_remove_def Let_def)

lemma cache_remove_bytes: "c_bytes (cache_remove k c) \<le> c_bytes c"
  by (simp add: cache_remove_def remove_entry_def Let_def split: option.split)

lemma put_raw_inv:
  assumes "cache_inv c" "c_bytes c + length bytes \<le> usize_max"
  shows "cache_inv (put_raw k bytes c)"
proof -
  let ?c = "cache_remove k c"
  have inv: "cache_inv ?c" by (rule cache_inv_remove [OF assms(1)])
  have fresh: "map_of (c_entries ?c) k = None" by (simp add: cache_remove_map)
  have "c_bytes ?c + length bytes \<le> usize_max" using assms(2) cache_remove_bytes [of k c] by simp
  moreover have "k \<notin> set (c_queue ?c)" by (simp add: cache_remove_fields(1))
  ultimately show ?thesis
    using inv fresh entry_bytes_update_new [OF fresh]
    by (auto simp: put_raw_def Let_def cache_inv_def distinct_update dom_update)
qed

lemma put_raw_map:
  "map_of (c_entries (put_raw k bytes c)) =
     (map_of (c_entries c))(k \<mapsto> \<lparr>raw_bytes = bytes, c_status = PendingC\<rparr>)"
  by (simp add: put_raw_def Let_def AList.update_conv' cache_remove_map)

lemma put_raw_limits:
  "c_max_bytes (put_raw k bytes c) = c_max_bytes c" "c_max_entries (put_raw k bytes c) = c_max_entries c"
  "c_queue (put_raw k bytes c) = filter (\<lambda>i. i \<noteq> k) (c_queue c) @ [k]"
  by (simp_all add: put_raw_def Let_def cache_remove_fields)

lemma put_inv_fits:
  assumes "cache_inv c" "c_bytes c + length bytes \<le> usize_max"
  shows "cache_inv (cache_put k bytes c) \<and> \<not> over_limit (cache_put k bytes c)"
  using inv_evict evict_fits put_raw_inv [OF assms] by (simp add: cache_put_raw)

lemma put_get:
  assumes "cache_inv c" "c_bytes c + length bytes \<le> usize_max"
    and "length bytes \<le> c_max_bytes c" "0 < c_max_entries c"
  shows "cache_get k (cache_put k bytes c) = Some bytes"
  using evict_keeps_last [OF put_raw_inv [OF assms(1,2)], of k k "\<lparr>raw_bytes = bytes, c_status = PendingC\<rparr>"]
    assms(3,4)
  by (simp add: cache_get_def cache_put_raw put_raw_map put_raw_limits)

lemma put_get_other:
  assumes "cache_inv c" "c_bytes c + length bytes \<le> usize_max" "j \<noteq> k"
  shows "cache_get j (cache_put k bytes c) \<in> {None, cache_get j c}"
proof -
  let ?d = "cache_put k bytes c"
  have "map_of (c_entries ?d) \<subseteq>\<^sub>m map_of (c_entries (put_raw k bytes c))"
    using evict_completed_first [OF put_raw_inv [OF assms(1,2)]] by (simp add: cache_put_raw)
  then have "map_of (c_entries ?d) j = None \<or> map_of (c_entries ?d) j = map_of (c_entries c) j"
    using assms(3) by (force simp: map_le_def put_raw_map)
  then show ?thesis by (auto simp: cache_get_def)
qed

lemma put_evicts_completed_first:
  assumes "cache_inv c" "c_bytes c + length bytes \<le> usize_max" "j \<noteq> k"
    and "cache_get j c \<noteq> None" "\<not> has_status c CompletedC j" "cache_get j (cache_put k bytes c) = None"
  shows "\<not> has_status (cache_put k bytes c) CompletedC i"
proof -
  have "j \<in> set (c_queue c)"
    using assms(1,4) by (force simp: cache_get_def cache_inv_def dest: map_of_SomeD)
  then have "j \<in> set (c_queue (put_raw k bytes c))" using assms(3) by (simp add: put_raw_limits)
  moreover have "\<not> has_status (put_raw k bytes c) CompletedC j"
    using assms(3,5) by (simp add: has_status_def put_raw_map)
  ultimately show ?thesis
    using evict_completed_first [OF put_raw_inv [OF assms(1,2), of k]] assms(6)
    by (auto simp: cache_put_raw cache_get_def)
qed

lemma inv_set_status: "cache_inv c \<Longrightarrow> cache_inv (set_status s k c)"
proof -
  assume inv: "cache_inv c"
  show ?thesis
  proof (cases "map_of (c_entries c) k")
    case None
    with inv show ?thesis by (simp add: set_status_def)
  next
    case (Some e)
    then have "k \<in> fst ` set (c_entries c)" by (force dest: map_of_SomeD)
    with Some inv show ?thesis
      by (auto simp: set_status_def cache_inv_def distinct_update dom_update entry_bytes_update_same [OF Some])
  qed
qed

section \<open>Runs\<close>

datatype cache_op =
  PutOp string "byte list" | CompletedOp string | SpoolingOp string | PendingOp string | RemoveOp string

fun cache_apply :: "cache_op \<Rightarrow> cache \<Rightarrow> cache" where
  "cache_apply (PutOp k bytes) c = cache_put k bytes c"
| "cache_apply (CompletedOp k) c = mark_completed k c"
| "cache_apply (SpoolingOp k) c = mark_spooling k c"
| "cache_apply (PendingOp k) c = mark_pending k c"
| "cache_apply (RemoveOp k) c = cache_remove k c"

text \<open>A \<^verbatim>\<open>Vec\<close> holds less than 2 to the 63 bytes; a cache whose limit is no larger never saturates.\<close>

definition cache_ok :: "nat \<Rightarrow> nat \<Rightarrow> cache \<Rightarrow> bool" where
  "cache_ok n b c \<longleftrightarrow> cache_inv c \<and> \<not> over_limit c \<and> c_max_entries c = n \<and> c_max_bytes c = b"

definition op_fits :: "cache_op \<Rightarrow> bool" where
  "op_fits op = (case op of PutOp _ bytes \<Rightarrow> length bytes < 2 ^ 63 | _ \<Rightarrow> True)"

lemma put_room:
  assumes "cache_ok n b c" "b \<le> 2 ^ 63" "length bytes < 2 ^ 63"
  shows "c_bytes c + length bytes \<le> usize_max"
proof -
  have "c_bytes c \<le> 2 ^ 63" using assms(1,2) by (simp add: cache_ok_def over_limit_def)
  then have "c_bytes c + length bytes < 2 ^ 63 + 2 ^ 63" using assms(3) by (rule add_le_less_mono)
  then show ?thesis by (simp add: usize_max_def)
qed

lemma entries_remove_le: "length (c_entries (cache_remove k c)) \<le> length (c_entries c)"
  by (simp add: cache_remove_def remove_entry_def Let_def AList.length_delete_le split: option.split)

lemma length_update_known: "map_of es k = Some e \<Longrightarrow> length (AList.update k x es) = length es"
  by (induction es) (auto split: if_splits)

lemma entries_status:
  "length (c_entries (set_status s k c)) = length (c_entries c)"
  by (auto simp: set_status_def length_update_known split: option.split)

lemma cache_ok_status: "cache_ok n b c \<Longrightarrow> cache_ok n b (set_status s k c)"
  using inv_set_status [of c s k] entries_status [of s k c]
  by (auto simp: cache_ok_def over_limit_def set_status_def split: option.splits)

lemma cache_ok_apply:
  assumes "cache_ok n b c" "b \<le> 2 ^ 63" "op_fits op"
  shows "cache_ok n b (cache_apply op c)"
proof (cases op)
  case (PutOp k bytes)
  then have "length bytes < 2 ^ 63" using assms(3) by (simp add: op_fits_def)
  from put_room [OF assms(1,2) this] have room: "c_bytes c + length bytes \<le> usize_max" .
  from assms(1) have inv: "cache_inv c" by (simp add: cache_ok_def)
  show ?thesis
    using put_inv_fits [OF inv room, of k] evict_keeps_limits [OF put_raw_inv [OF inv room]] assms(1) PutOp
    by (simp add: cache_ok_def cache_put_raw put_raw_limits)
next
  case (RemoveOp k)
  then show ?thesis
    using assms(1) cache_inv_remove [of c k] entries_remove_le [of k c] cache_remove_bytes [of k c]
    by (auto simp: cache_ok_def over_limit_def cache_remove_fields)
qed (use assms(1) in \<open>simp_all add: cache_ok_status mark_completed_def mark_spooling_def mark_pending_def\<close>)

lemma cache_ok_run:
  assumes "\<forall>op \<in> set ops. op_fits op" "b \<le> 2 ^ 63"
  shows "cache_ok n b (fold cache_apply ops (cache_new n b))"
proof -
  have "cache_ok n b (fold cache_apply ops c)" if "cache_ok n b c" for c
    using assms that by (induction ops arbitrary: c) (simp_all add: cache_ok_apply)
  moreover have "cache_ok n b (cache_new n b)"
    by (simp add: cache_ok_def cache_inv_new) (simp add: over_limit_def cache_new_def)
  ultimately show ?thesis by blast
qed

end
