(* ===== verification/Rate_Limiter.thy ===== *)
theory Rate_Limiter
  imports Prelude
begin

text \<open>
  The sliding-window rate limiter of the daemon's HTTP API,
  \<^verbatim>\<open>uc-webserver/security/rate_limiter.rs\<close>. An instant is its distance in nanoseconds from
  the clock's anchor, so \<^verbatim>\<open>checked_sub\<close> of a window fails before the window has passed. An
  operation reads the clock and then takes the lock: its instant is an argument.
\<close>

definition window_secs :: nat where "window_secs = 60"
definition preauth_max_requests :: nat where "preauth_max_requests = 100"
definition authenticated_max_requests :: nat where "authenticated_max_requests = 3000"

definition nanos :: nat where "nanos = 10 ^ 9"
definition window :: nat where "window = window_secs * nanos"

datatype rate_limit_decision = Allowed | Limited nat

type_synonym limiter = "string \<Rightarrow> nat list option"

definition limiter_new :: limiter where "limiter_new = Map.empty"

definition prune_stale :: "nat \<Rightarrow> nat list \<Rightarrow> nat list" where
  "prune_stale now ts = (if window \<le> now then filter (\<lambda>t. now - window < t) ts else ts)"

definition retry_after :: "nat \<Rightarrow> nat list \<Rightarrow> nat" where
  "retry_after now ts =
     (case ts of
        [] \<Rightarrow> window_secs
      | oldest # _ \<Rightarrow>
          (let remaining = window - (now - oldest);
               secs = remaining div nanos;
               secs' = (if 0 < remaining mod nanos then secs + 1 else secs) in
           max secs' 1))"

definition rl_check ::
  "nat \<Rightarrow> string \<Rightarrow> nat \<Rightarrow> limiter \<Rightarrow> rate_limit_decision \<times> limiter" where
  "rl_check now client max_requests l =
     (let ts = prune_stale now (case l client of None \<Rightarrow> [] | Some ts \<Rightarrow> ts) in
      if max_requests \<le> length ts mod 2 ^ 32
      then (Limited (retry_after now ts), l(client \<mapsto> ts))
      else (Allowed, l(client \<mapsto> ts @ [now])))"

definition cleanup_stale :: "nat \<Rightarrow> limiter \<Rightarrow> limiter" where
  "cleanup_stale now l =
     (if window \<le> now then (\<lambda>c. map_option (filter (\<lambda>t. now - window < t)) (l c)) else l)"

section \<open>Runs\<close>

datatype limiter_op = Check nat string nat | Cleanup nat

fun op_time :: "limiter_op \<Rightarrow> nat" where
  "op_time (Check now _ _) = now"
| "op_time (Cleanup now) = now"

text \<open>A run in the order of the lock; the log holds the requests let through.\<close>

fun limiter_run :: "limiter_op list \<Rightarrow> limiter \<Rightarrow> (string \<times> nat) list \<Rightarrow> limiter \<times> (string \<times> nat) list"
  where
  "limiter_run [] l out = (l, out)"
| "limiter_run (Cleanup now # ops) l out = limiter_run ops (cleanup_stale now l) out"
| "limiter_run (Check now client m # ops) l out =
     (case rl_check now client m l of
        (Allowed, l') \<Rightarrow> limiter_run ops l' (out @ [(client, now)])
      | (Limited _, l') \<Rightarrow> limiter_run ops l' out)"

definition requests_of :: "string \<Rightarrow> (string \<times> nat) list \<Rightarrow> nat list" where
  "requests_of c out = map snd (filter (\<lambda>p. fst p = c) out)"

definition stamps :: "limiter \<Rightarrow> string \<Rightarrow> nat list" where
  "stamps l c = (case l c of None \<Rightarrow> [] | Some ts \<Rightarrow> ts)"

lemma prune_stale_filter: "prune_stale now ts = filter (\<lambda>t. now < t + window) ts"
  by (auto simp: prune_stale_def intro!: filter_cong)

lemma stamps_cleanup: "stamps (cleanup_stale now l) c = prune_stale now (stamps l c)"
  by (auto simp: stamps_def cleanup_stale_def prune_stale_def split: option.split)

lemma stamps_check:
  "stamps (snd (rl_check now k m l)) c =
     (if c = k
      then (if m \<le> length (prune_stale now (stamps l k)) mod 2 ^ 32
            then prune_stale now (stamps l k) else prune_stale now (stamps l k) @ [now])
      else stamps l c)"
  by (simp add: rl_check_def stamps_def Let_def)

lemma check_allowed_iff:
  "fst (rl_check now k m l) = Allowed \<longleftrightarrow> \<not> m \<le> length (prune_stale now (stamps l k)) mod 2 ^ 32"
  by (simp add: rl_check_def stamps_def Let_def)

text \<open>
  What the limiter stores of a client agrees with the log on everything that is still in the
  window, now and later; no window of the log holds more than the budget.
\<close>

definition in_window :: "nat \<Rightarrow> nat list \<Rightarrow> nat list" where
  "in_window x ts = filter (\<lambda>t. x < t \<and> t \<le> x + window) ts"

definition limiter_inv :: "nat \<Rightarrow> nat \<Rightarrow> nat list \<Rightarrow> nat list \<Rightarrow> bool" where
  "limiter_inv m now ts out \<longleftrightarrow>
     (\<forall>n \<ge> now. prune_stale n ts = prune_stale n out) \<and> length ts \<le> m \<and>
     (\<forall>t \<in> set out. t \<le> now) \<and> (\<forall>x. length (in_window x out) \<le> m)"

lemma prune_stale_twice: "now \<le> n \<Longrightarrow> prune_stale n (prune_stale now ts) = prune_stale n ts"
  unfolding prune_stale_filter by (auto intro!: filter_cong)

lemma prune_append: "prune_stale n (xs @ ys) = prune_stale n xs @ prune_stale n ys"
  by (simp add: prune_stale_filter)

lemma length_prune_stale: "length (prune_stale n ts) \<le> length ts"
  by (simp add: prune_stale_filter)

lemma limiter_inv_prune:
  assumes "limiter_inv m now ts out" "now \<le> n"
  shows "limiter_inv m n (prune_stale n ts) out"
proof -
  have "prune_stale k (prune_stale n ts) = prune_stale k out" if "n \<le> k" for k
    using assms that by (simp add: prune_stale_twice limiter_inv_def)
  moreover have "length (prune_stale n ts) \<le> m"
    using assms(1) length_prune_stale [of n ts] by (simp add: limiter_inv_def)
  ultimately show ?thesis using assms by (auto simp: limiter_inv_def)
qed

lemma limiter_inv_push:
  assumes "limiter_inv m now ts out" "now \<le> n" "length (prune_stale n ts) < m"
  shows "limiter_inv m n (prune_stale n ts @ [n]) (out @ [n])"
proof -
  have eq: "prune_stale k (prune_stale n ts @ [n]) = prune_stale k (out @ [n])" if "n \<le> k" for k
    using limiter_inv_prune [OF assms(1,2)] that by (simp add: limiter_inv_def prune_append)
  have "length (in_window x (out @ [n])) \<le> m" for x
  proof (cases "x < n \<and> n \<le> x + window")
    case False
    then have "in_window x (out @ [n]) = in_window x out" by (auto simp: in_window_def)
    then show ?thesis using assms(1) by (simp add: limiter_inv_def)
  next
    case True
    have "in_window x out = filter (\<lambda>t. x < t \<and> t \<le> x + window) (prune_stale n out)"
      using True by (auto simp: in_window_def prune_stale_filter intro!: filter_cong)
    then have "length (in_window x out) \<le> length (prune_stale n out)" by simp
    also have "prune_stale n out = prune_stale n ts" using assms(1,2) by (simp add: limiter_inv_def)
    finally show ?thesis using assms(3) by (simp add: in_window_def)
  qed
  then show ?thesis using eq assms by (auto simp: limiter_inv_def)
qed

lemma limiter_run_inv:
  assumes "sorted (map op_time ops)" "\<forall>op \<in> set ops. now \<le> op_time op" "m < 2 ^ 32"
    and "\<forall>t b. Check t c b \<in> set ops \<longrightarrow> b = m"
    and "limiter_inv m now (stamps l c) (requests_of c out)"
    and "limiter_run ops l out = (l', out')"
    and "now \<le> T" "\<forall>op \<in> set ops. op_time op \<le> T"
  shows "\<exists>n \<le> T. limiter_inv m n (stamps l' c) (requests_of c out')"
  using assms
proof (induction ops l out arbitrary: now rule: limiter_run.induct)
  case (1 l out)
  then show ?case by auto
next
  case (2 t ops l out)
  have "limiter_inv m t (stamps (cleanup_stale t l) c) (requests_of c out)"
    using limiter_inv_prune [OF 2(6), of t] 2(3) by (simp add: stamps_cleanup)
  then show ?case using 2 by (intro 2(1) [of t]) auto
next
  case (3 t k b ops l out)
  obtain d l1 where r: "rl_check t k b l = (d, l1)" by (cases "rl_check t k b l")
  let ?out = "if d = Allowed then out @ [(k, t)] else out"
  have run: "limiter_run ops l1 ?out = (l', out')" using 3(8) r by (cases d) simp_all
  have prems: "sorted (map op_time ops)" "\<forall>op \<in> set ops. t \<le> op_time op"
    "\<forall>t b. Check t c b \<in> set ops \<longrightarrow> b = m" "now \<le> t" using 3(3,4,6) by auto
  have inv: "limiter_inv m t (stamps l1 c) (requests_of c ?out)"
  proof (cases "c = k")
    case False
    then have "stamps l1 c = stamps l c" using stamps_check [of t k b l c] r by simp
    then show ?thesis
      using False 3(7) prems(4) by (auto simp: requests_of_def limiter_inv_def)
  next
    case True
    then have b: "b = m" using 3(6) by auto
    have len: "length (prune_stale t (stamps l c)) \<le> m"
      using limiter_inv_prune [OF 3(7) prems(4)] by (simp add: limiter_inv_def)
    then have mod: "length (prune_stale t (stamps l c)) mod 2 ^ 32 = length (prune_stale t (stamps l c))"
      using 3(5) by simp
    show ?thesis
      using stamps_check [of t k b l c] check_allowed_iff [of t k b l] r True b mod
        limiter_inv_prune [OF 3(7) prems(4)] limiter_inv_push [OF 3(7) prems(4)]
      by (cases d) (auto simp: requests_of_def)
  qed
  show ?case
  proof (cases d)
    case Allowed
    then show ?thesis using 3(1) [OF r [symmetric] Allowed prems(1,2) 3(5) prems(3)] inv run 3(10)
      by simp
  next
    case (Limited s)
    then show ?thesis using 3(2) [OF r [symmetric] Limited prems(1,2) 3(5) prems(3)] inv run 3(10)
      by simp
  qed
qed

text \<open>Measured by the requests let through: a client has its budget in every window, and no less.\<close>

lemma limiter_exact:
  assumes "sorted (map op_time ops)" "m < 2 ^ 32" "\<forall>t b. Check t c b \<in> set ops \<longrightarrow> b = m"
    and "limiter_run ops limiter_new [] = (l, out)"
  shows "length (in_window x (requests_of c out)) \<le> m"
    and "\<forall>op \<in> set ops. op_time op \<le> t \<Longrightarrow> fst (rl_check t c m l) = Allowed \<longleftrightarrow>
         length (filter (\<lambda>r. t < r + window) (requests_of c out)) < m"
proof -
  have start: "limiter_inv m 0 (stamps limiter_new c) (requests_of c [])"
    by (simp add: limiter_inv_def stamps_def limiter_new_def requests_of_def in_window_def)
  have run: "\<exists>n \<le> T. limiter_inv m n (stamps l c) (requests_of c out)"
    if "\<forall>op \<in> set ops. op_time op \<le> T" for T
    by (rule limiter_run_inv [OF assms(1) _ assms(2,3) start assms(4)]) (use that in simp_all)
  have "\<forall>op \<in> set ops. op_time op \<le> Max (insert 0 (op_time ` set ops))" by simp
  from run [OF this] show "length (in_window x (requests_of c out)) \<le> m"
    by (auto simp: limiter_inv_def)
  assume "\<forall>op \<in> set ops. op_time op \<le> t"
  from run [OF this] obtain n where n: "n \<le> t" "limiter_inv m n (stamps l c) (requests_of c out)" by blast
  then have eq: "prune_stale t (stamps l c) = prune_stale t (requests_of c out)"
    and "length (stamps l c) \<le> m" by (auto simp: limiter_inv_def)
  with length_prune_stale [of t "stamps l c"] have "length (prune_stale t (stamps l c)) \<le> m" by linarith
  with assms(2) eq show "fst (rl_check t c m l) = Allowed \<longleftrightarrow>
      length (filter (\<lambda>r. t < r + window) (requests_of c out)) < m"
    by (auto simp: check_allowed_iff prune_stale_filter)
qed

section \<open>The retry hint\<close>

lemma ceil_nanos:
  fixes rem :: nat
  defines "r \<equiv> max (if 0 < rem mod nanos then rem div nanos + 1 else rem div nanos) 1"
  shows "rem \<le> r * nanos" "1 < r \<Longrightarrow> (r - 1) * nanos < rem"
proof -
  have n: "0 < nanos" by (simp add: nanos_def)
  have split: "rem = rem div nanos * nanos + rem mod nanos" by simp
  have lt: "rem mod nanos < nanos" using n by simp
  show "rem \<le> r * nanos"
  proof (cases "0 < rem mod nanos")
    case True
    then have "r = rem div nanos + 1" by (simp add: r_def)
    then have "r * nanos = rem div nanos * nanos + nanos" by simp
    with split lt show ?thesis by linarith
  next
    case False
    then have "rem = rem div nanos * nanos" using split by simp
    also have "\<dots> \<le> r * nanos" using False by (intro mult_right_mono) (simp_all add: r_def)
    finally show ?thesis .
  qed
  assume r: "1 < r"
  show "(r - 1) * nanos < rem"
  proof (cases "0 < rem mod nanos")
    case True
    then have "(r - 1) * nanos = rem div nanos * nanos" by (simp add: r_def)
    with split True show ?thesis by linarith
  next
    case False
    with r have "r = rem div nanos" by (simp add: r_def split: if_splits)
    then have "(r - 1) * nanos < rem div nanos * nanos" using r n by simp
    with False split show ?thesis by linarith
  qed
qed

text \<open>After the advertised time a slot is free; a second earlier none was.\<close>

lemma retry_hint:
  assumes "sorted ts" "\<forall>t \<in> set ts. t \<le> now" "prune_stale now ts = ts" "ts \<noteq> []"
  shows "length (prune_stale (now + retry_after now ts * nanos) ts) < length ts"
    and "\<lbrakk>1 < retry_after now ts; now \<le> n; n \<le> now + (retry_after now ts - 1) * nanos\<rbrakk> \<Longrightarrow>
         prune_stale n ts = ts"
proof -
  obtain a ts' where ts: "ts = a # ts'" using assms(4) by (cases ts) auto
  let ?rem = "window - (now - a)"
  have "now < a + window"
  proof (rule ccontr)
    assume "\<not> now < a + window"
    then have "length (prune_stale now ts) < length ts"
      unfolding prune_stale_filter using ts by (intro length_filter_less [of a]) auto
    with assms(3) show False by simp
  qed
  with assms(2) ts have a: "now + ?rem = a + window" by auto
  have r: "retry_after now ts =
      max (if 0 < ?rem mod nanos then ?rem div nanos + 1 else ?rem div nanos) 1"
    by (simp add: retry_after_def ts Let_def)
  note ceil = ceil_nanos [of ?rem, folded r]
  from ceil(1) a have "a + window \<le> now + retry_after now ts * nanos" by linarith
  then show "length (prune_stale (now + retry_after now ts * nanos) ts) < length ts"
    unfolding prune_stale_filter using ts by (intro length_filter_less [of a]) auto
  assume n: "1 < retry_after now ts" "now \<le> n" "n \<le> now + (retry_after now ts - 1) * nanos"
  from ceil(2) [OF n(1)] n(3) a have "n < a + window" by linarith
  moreover have "\<forall>t \<in> set ts. a \<le> t" using assms(1) ts by simp
  ultimately show "prune_stale n ts = ts"
    unfolding prune_stale_filter by (force intro!: filter_True)
qed

lemma limited_then_allowed:
  assumes "rl_check now k m l = (Limited r, l')" "0 < m" "length (stamps l k) \<le> m" "m < 2 ^ 32"
    and "sorted (stamps l k)" "\<forall>t \<in> set (stamps l k). t \<le> now"
  shows "fst (rl_check (now + r * nanos) k m l') = Allowed \<and>
    (1 < r \<and> now \<le> n \<and> n \<le> now + (r - 1) * nanos \<longrightarrow> fst (rl_check n k m l') \<noteq> Allowed)"
proof -
  let ?ts = "prune_stale now (stamps l k)"
  have len: "length ?ts \<le> m" using assms(3) length_filter_le le_trans unfolding prune_stale_filter by blast
  have full: "m \<le> length ?ts mod 2 ^ 32" and l': "stamps l' k = ?ts" and r: "r = retry_after now ?ts"
    using assms(1) by (auto simp: rl_check_def stamps_def Let_def split: if_splits)
  then have m: "length ?ts = m" using len assms(4) by simp
  then have ts: "?ts \<noteq> []" using assms(2) by auto
  have sorted: "sorted ?ts" "\<forall>t \<in> set ?ts. t \<le> now" "prune_stale now ?ts = ?ts"
    using assms(5,6) by (simp_all add: prune_stale_twice) (simp_all add: prune_stale_filter sorted_wrt_filter)
  note hint = retry_hint [OF sorted ts, folded r]
  have "length (prune_stale (now + r * nanos) (stamps l' k)) < m" using hint(1) by (simp add: l' m)
  then have "fst (rl_check (now + r * nanos) k m l') = Allowed"
    using assms(4) by (simp add: check_allowed_iff)
  moreover have "fst (rl_check n k m l') \<noteq> Allowed" if "1 < r" "now \<le> n" "n \<le> now + (r - 1) * nanos"
    using hint(2) [OF that] m assms(4) by (simp add: check_allowed_iff l')
  ultimately show ?thesis by blast
qed

end
