(* ===== verification/Pairing_Trust.thy ===== *)
theory Pairing_Trust
  imports Prelude "HOL-Library.AList"
begin

text \<open>
  What pairing rests on: the invitation aggregate (\<^verbatim>\<open>uc-core/pairing/invitation\<close>) and the
  holder of outstanding invitations (\<^verbatim>\<open>uc-application/pairing_invitation\<close>), the trust flow
  (\<^verbatim>\<open>uc-application/trusted_peer\<close>) and the admission of a member
  (\<^verbatim>\<open>uc-application/membership\<close>).

  Instants are milliseconds. A repository is a map; the failure its executor may report is an
  argument of each operation. The preferences of a member are opaque here.
\<close>

section \<open>Invitations\<close>

datatype invitation_state = PendingInv int | ConsumedInv | RevokedInv | ExpiredInv

record invitation =
  inv_code :: string
  inv_issued_at :: int
  inv_issuer :: string
  inv_state :: invitation_state

datatype invitation_event =
  IssuedEv string int string | ConsumedEv string | RevokedEv string | ExpiredEv string

datatype consume_error = CodeMismatch | ConsumeExpired | ConsumeNotPending

definition issue_invitation :: "string \<Rightarrow> int \<Rightarrow> int \<Rightarrow> string \<Rightarrow> invitation \<times> invitation_event" where
  "issue_invitation code issued_at expires_at issuer =
     (\<lparr>inv_code = code, inv_issued_at = issued_at, inv_issuer = issuer,
       inv_state = PendingInv expires_at\<rparr>,
      IssuedEv code expires_at issuer)"

definition is_pending :: "invitation \<Rightarrow> bool" where
  "is_pending i = (case inv_state i of PendingInv _ \<Rightarrow> True | _ \<Rightarrow> False)"

definition consume :: "string \<Rightarrow> int \<Rightarrow> invitation \<Rightarrow> (consume_error + invitation_event) \<times> invitation" where
  "consume incoming now i =
     (case inv_state i of
        PendingInv expires_at \<Rightarrow>
          if expires_at \<le> now then (Inl ConsumeExpired, i)
          else if inv_code i \<noteq> incoming then (Inl CodeMismatch, i)
          else (Inr (ConsumedEv (inv_code i)), i\<lparr>inv_state := ConsumedInv\<rparr>)
      | _ \<Rightarrow> (Inl ConsumeNotPending, i))"

text \<open>\<^verbatim>\<open>revoke\<close>; its only error is that the invitation is not pending.\<close>

definition revoke :: "invitation \<Rightarrow> invitation_event option \<times> invitation" where
  "revoke i =
     (case inv_state i of
        PendingInv _ \<Rightarrow> (Some (RevokedEv (inv_code i)), i\<lparr>inv_state := RevokedInv\<rparr>)
      | _ \<Rightarrow> (None, i))"

definition try_expire :: "int \<Rightarrow> invitation \<Rightarrow> invitation_event option \<times> invitation" where
  "try_expire now i =
     (case inv_state i of
        PendingInv expires_at \<Rightarrow>
          if expires_at \<le> now then (Some (ExpiredEv (inv_code i)), i\<lparr>inv_state := ExpiredInv\<rparr>)
          else (None, i)
      | _ \<Rightarrow> (None, i))"

section \<open>The holder\<close>

text \<open>A hash map; the order of the list is the arbitrary order of its iteration.\<close>

type_synonym holder = "(string \<times> invitation) list"

datatype take_error = HolderNotFound | HolderExpired | HolderInternal

definition holder_insert :: "invitation \<Rightarrow> holder \<Rightarrow> holder" where
  "holder_insert i h = AList.update (inv_code i) i h"

definition take_matching :: "string \<Rightarrow> int \<Rightarrow> holder \<Rightarrow> (take_error + invitation) \<times> holder" where
  "take_matching code now h =
     (case map_of h code of
        None \<Rightarrow> (Inl HolderNotFound, h)
      | Some i \<Rightarrow>
          (let h' = AList.delete code h in
           case consume code now i of
             (Inr _, i') \<Rightarrow> (Inr i', h')
           | (Inl ConsumeExpired, _) \<Rightarrow> (Inl HolderExpired, h')
           | (Inl CodeMismatch, _) \<Rightarrow> (Inl HolderInternal, h')
           | (Inl ConsumeNotPending, _) \<Rightarrow> (Inl HolderInternal, h')))"

text \<open>\<^verbatim>\<open>min_by_key\<close> on the pairs of code and expiry: the first of the least ones.\<close>

fun min_by_expiry :: "(string \<times> int) list \<Rightarrow> (string \<times> int) option" where
  "min_by_expiry [] = None"
| "min_by_expiry (p # ps) =
     (case min_by_expiry ps of
        None \<Rightarrow> Some p
      | Some q \<Rightarrow> if snd p \<le> snd q then Some p else Some q)"

definition snapshot_earliest :: "holder \<Rightarrow> (string \<times> int) option" where
  "snapshot_earliest h =
     min_by_expiry (List.map_filter (\<lambda>(_, i).
       case inv_state i of PendingInv e \<Rightarrow> Some (inv_code i, e) | _ \<Rightarrow> None) h)"

definition cancel_all :: "holder \<Rightarrow> nat \<times> holder" where
  "cancel_all h = (length h, [])"

text \<open>
  \<^verbatim>\<open>finish_issued_invitation\<close>: the clock may lie outside the range of timestamps.
\<close>

definition finish_issued_invitation ::
  "(int \<Rightarrow> bool) \<Rightarrow> int \<Rightarrow> string \<Rightarrow> string \<Rightarrow> int \<Rightarrow> holder \<Rightarrow> (string \<times> int) option \<times> holder" where
  "finish_issued_invitation timestamp_ok now_ms device code expires_at h =
     (if \<not> timestamp_ok now_ms then (None, h)
      else (Some (code, expires_at), holder_insert (fst (issue_invitation code now_ms expires_at device)) h))"

text \<open>Every invitation held is pending and stands under its own code.\<close>

definition holder_inv :: "holder \<Rightarrow> bool" where
  "holder_inv h \<longleftrightarrow>
     distinct (map fst h) \<and> (\<forall>(code, i) \<in> set h. inv_code i = code \<and> is_pending i)"

lemma holder_inv_Nil [simp]: "holder_inv []"
  by (simp add: holder_inv_def)

lemma holder_inv_lookup: "\<lbrakk>holder_inv h; map_of h code = Some i\<rbrakk> \<Longrightarrow> inv_code i = code \<and> is_pending i"
  by (auto simp: holder_inv_def dest!: map_of_SomeD)

lemma set_alist_update: "set (AList.update k v h) \<subseteq> insert (k, v) (set h)"
  by (induction h) auto

lemma holder_inv_insert: "\<lbrakk>holder_inv h; is_pending i\<rbrakk> \<Longrightarrow> holder_inv (holder_insert i h)"
  using set_alist_update [of "inv_code i" i h]
  by (auto simp: holder_inv_def holder_insert_def distinct_update dest!: subsetD)

lemma holder_inv_delete: "holder_inv h \<Longrightarrow> holder_inv (AList.delete code h)"
  using AList.distinct_delete [of h code] by (auto simp: holder_inv_def AList.delete_eq)

lemma holder_inv_take: "holder_inv h \<Longrightarrow> holder_inv (snd (take_matching code now h))"
  by (auto simp: take_matching_def Let_def holder_inv_delete split: option.split sum.split
      prod.split consume_error.split)

text \<open>
  A code is accepted exactly while a pending invitation stands under it and has not run out,
  and it is accepted once: whatever the outcome, nothing is left under it.
\<close>

lemma take_matching_accepts:
  assumes "holder_inv h"
  shows "(\<exists>i. fst (take_matching code now h) = Inr i) \<longleftrightarrow>
    (\<exists>i e. map_of h code = Some i \<and> inv_state i = PendingInv e \<and> now < e)"
  using holder_inv_lookup [OF assms, of code]
  by (auto simp: take_matching_def Let_def consume_def is_pending_def split: option.split
      invitation_state.splits)

lemma take_matching_once: "map_of (snd (take_matching code now h)) code = None"
  by (auto simp: take_matching_def Let_def AList.delete_conv' split: option.split sum.split
      prod.split consume_error.split)

lemma take_matching_keeps: "map_of (snd (take_matching code now h)) k = (if k = code then None else map_of h k)"
  by (auto simp: take_matching_def Let_def AList.delete_conv' split: option.split sum.split
      prod.split consume_error.split)

lemma take_matching_never_internal:
  "holder_inv h \<Longrightarrow> fst (take_matching code now h) \<noteq> Inl HolderInternal"
  using holder_inv_lookup [of h code]
  by (auto simp: take_matching_def Let_def consume_def is_pending_def split: option.split
      invitation_state.splits)

lemma min_by_expiry_least:
  "min_by_expiry ps = Some p \<Longrightarrow> p \<in> set ps \<and> (\<forall>q \<in> set ps. snd p \<le> snd q)"
proof (induction ps arbitrary: p)
  case (Cons r rs)
  show ?case
  proof (cases "min_by_expiry rs")
    case None
    then have "rs = []" by (cases rs) (auto split: option.splits if_splits)
    with Cons.prems show ?thesis by simp
  next
    case (Some q)
    with Cons.IH [OF Some] Cons.prems show ?thesis by (fastforce split: if_splits)
  qed
qed simp

section \<open>Members\<close>

record 'p space_member =
  sm_device :: string
  sm_name :: string
  sm_fingerprint :: string
  sm_joined_at :: int
  sm_preferences :: 'p

type_synonym 'p members = "string \<Rightarrow> 'p space_member option"

text \<open>\<^verbatim>\<open>AdmitMemberUseCase::execute\<close>: a known device keeps its preferences.\<close>

datatype membership_error = AlreadyAdmitted string | MemberNotFound string | MemberRepository string

definition admit_member ::
  "membership_error option \<Rightarrow> membership_error option \<Rightarrow> 'p space_member \<Rightarrow> 'p members \<Rightarrow> (membership_error + 'p space_member) \<times> 'p members"
  where
  "admit_member get_fail save_fail input repo =
     (case get_fail of
        Some e \<Rightarrow> (Inl e, repo)
      | None \<Rightarrow>
          (let m = input\<lparr>sm_preferences :=
                     (case repo (sm_device input) of
                        Some existing \<Rightarrow> sm_preferences existing
                      | None \<Rightarrow> sm_preferences input)\<rparr> in
           case save_fail of
             Some e \<Rightarrow> (Inl e, repo)
           | None \<Rightarrow> (Inr m, repo(sm_device input \<mapsto> m))))"

section \<open>Trusted peers\<close>

record trusted_peer =
  tp_local :: string
  tp_peer :: string
  tp_fingerprint :: string
  tp_trusted_at :: int

type_synonym peers = "string \<Rightarrow> trusted_peer option"

text \<open>The error of the repository port, and the application's with its conversion.\<close>

datatype trusted_peer_error = PeerAlreadyTrusted string | PeerNotFound string | PeerRepository string

datatype trust_error =
  AlreadyTrusted string | TrustNotFound string | IllegalTransition | TrustRepository string

fun trust_error_of :: "trusted_peer_error \<Rightarrow> trust_error" where
  "trust_error_of (PeerAlreadyTrusted d) = AlreadyTrusted d"
| "trust_error_of (PeerNotFound d) = TrustNotFound d"
| "trust_error_of (PeerRepository m) = TrustRepository m"

definition trust_peer ::
  "trusted_peer_error option \<Rightarrow> trusted_peer_error option \<Rightarrow> trusted_peer \<Rightarrow> peers \<Rightarrow> (trust_error + trusted_peer) \<times> peers" where
  "trust_peer get_fail save_fail input repo =
     (case get_fail of
        Some e \<Rightarrow> (Inl (trust_error_of e), repo)
      | None \<Rightarrow>
          (case save_fail of
             Some e \<Rightarrow> (Inl (trust_error_of e), repo)
           | None \<Rightarrow> (Inr input, repo(tp_peer input \<mapsto> input))))"

definition distrust_peer ::
  "trusted_peer_error option \<Rightarrow> string \<Rightarrow> peers \<Rightarrow> (trust_error + unit) \<times> peers" where
  "distrust_peer fail peer repo =
     (case fail of
        Some e \<Rightarrow> (Inl (trust_error_of e), repo)
      | None \<Rightarrow>
          if repo peer = None then (Inl (TrustNotFound peer), repo)
          else (Inr (), repo(peer := None)))"

section \<open>The trust flow\<close>

record challenge =
  ch_fingerprint :: string
  ch_short_code :: string

datatype abort_reason = UserCancelledR | TimeoutR | ProtocolErrorR

datatype trust_state =
    IdleT
  | EstablishingSession string
  | AwaitingUserVerification string challenge
  | TrustedT trusted_peer
  | AbortedT abort_reason

datatype trust_event =
    Initiate string
  | SessionOpened string challenge
  | UserConfirmed trusted_peer
  | UserCancelled
  | TimedOut
  | ProtocolError

fun transition :: "trust_state \<Rightarrow> trust_event \<Rightarrow> trust_error + trust_state" where
  "transition IdleT (Initiate peer) = Inr (EstablishingSession peer)"
| "transition (EstablishingSession current) (SessionOpened incoming ch) =
     (if current \<noteq> incoming then Inl IllegalTransition
      else Inr (AwaitingUserVerification current ch))"
| "transition (AwaitingUserVerification _ _) (UserConfirmed p) = Inr (TrustedT p)"
| "transition (EstablishingSession _) UserCancelled = Inr (AbortedT UserCancelledR)"
| "transition (AwaitingUserVerification _ _) UserCancelled = Inr (AbortedT UserCancelledR)"
| "transition (EstablishingSession _) TimedOut = Inr (AbortedT TimeoutR)"
| "transition (AwaitingUserVerification _ _) TimedOut = Inr (AbortedT TimeoutR)"
| "transition (EstablishingSession _) ProtocolError = Inr (AbortedT ProtocolErrorR)"
| "transition (AwaitingUserVerification _ _) ProtocolError = Inr (AbortedT ProtocolErrorR)"
| "transition _ _ = Inl IllegalTransition"

record trust_flow =
  tf_state :: trust_state
  tf_local :: string
  tf_peers :: peers

definition trust_flow_new :: "string \<Rightarrow> peers \<Rightarrow> trust_flow" where
  "trust_flow_new device repo = \<lparr>tf_state = IdleT, tf_local = device, tf_peers = repo\<rparr>"

definition drive :: "trust_event \<Rightarrow> trust_flow \<Rightarrow> (trust_error + trust_state) \<times> trust_flow" where
  "drive ev f =
     (case transition (tf_state f) ev of
        Inl e \<Rightarrow> (Inl e, f)
      | Inr next_state \<Rightarrow> (Inr next_state, f\<lparr>tf_state := next_state\<rparr>))"

definition reset_flow :: "trust_flow \<Rightarrow> trust_flow" where
  "reset_flow f = f\<lparr>tf_state := IdleT\<rparr>"

definition confirm_verification ::
  "trusted_peer_error option \<Rightarrow> trusted_peer_error option \<Rightarrow> int \<Rightarrow> trust_flow \<Rightarrow> (trust_error + trust_state) \<times> trust_flow" where
  "confirm_verification get_fail save_fail now f =
     (case tf_state f of
        AwaitingUserVerification peer ch \<Rightarrow>
          (case trust_peer get_fail save_fail
                  \<lparr>tp_local = tf_local f, tp_peer = peer, tp_fingerprint = ch_fingerprint ch,
                   tp_trusted_at = now\<rparr> (tf_peers f) of
             (Inl e, _) \<Rightarrow> (Inl e, f)
           | (Inr p, repo) \<Rightarrow> drive (UserConfirmed p) (f\<lparr>tf_peers := repo\<rparr>))
      | _ \<Rightarrow> (Inl IllegalTransition, f))"

text \<open>The steps the orchestrator offers; \<open>UserConfirmed\<close> is internal to \<open>confirm\<close>.\<close>

inductive trust_step :: "trust_flow \<Rightarrow> trust_flow \<Rightarrow> bool" where
  initiate: "trust_step f (snd (drive (Initiate peer) f))"
| opened: "trust_step f (snd (drive (SessionOpened peer ch) f))"
| confirm: "trust_step f (snd (confirm_verification get_fail save_fail now f))"
| cancel: "trust_step f (snd (drive UserCancelled f))"
| timeout: "trust_step f (snd (drive TimedOut f))"
| protocol: "trust_step f (snd (drive ProtocolError f))"
| reset: "trust_step f (reset_flow f)"

inductive trust_reach :: "trust_flow \<Rightarrow> trust_flow \<Rightarrow> bool" for f0 where
  init: "trust_reach f0 f0"
| step: "\<lbrakk>trust_reach f0 f; trust_step f f'\<rbrakk> \<Longrightarrow> trust_reach f0 f'"

text \<open>A terminal state is left only by a reset, and nothing aborts an idle flow.\<close>

lemma transition_terminal:
  "transition (TrustedT p) ev = Inl IllegalTransition" "transition (AbortedT r) ev = Inl IllegalTransition"
  by (cases ev; simp)+

lemma transition_idle: "transition IdleT ev = Inr s \<longleftrightarrow> (\<exists>peer. ev = Initiate peer \<and> s = EstablishingSession peer)"
  by (cases ev) auto

lemma transition_trusted:
  "transition s ev = Inr (TrustedT p) \<longleftrightarrow> ev = UserConfirmed p \<and> (\<exists>d ch. s = AwaitingUserVerification d ch)"
  by (cases s; cases ev) auto

lemma drive_peers [simp]: "tf_peers (snd (drive ev f)) = tf_peers f" "tf_local (snd (drive ev f)) = tf_local f"
  by (simp_all add: drive_def split: sum.split)

text \<open>
  The only step that changes what is trusted confirms a challenge that was on display, for the
  peer and the fingerprint of that challenge.
\<close>

lemma trust_step_peers:
  assumes "trust_step f f'" "tf_peers f' \<noteq> tf_peers f"
  shows "\<exists>peer ch now. tf_state f = AwaitingUserVerification peer ch \<and>
    tf_state f' = TrustedT \<lparr>tp_local = tf_local f, tp_peer = peer, tp_fingerprint = ch_fingerprint ch, tp_trusted_at = now\<rparr> \<and>
    tf_peers f' = (tf_peers f)(peer \<mapsto> \<lparr>tp_local = tf_local f, tp_peer = peer, tp_fingerprint = ch_fingerprint ch, tp_trusted_at = now\<rparr>)"
  using assms
proof (induction rule: trust_step.induct)
  case (confirm f get_fail save_fail now)
  then show ?case
    by (auto simp: confirm_verification_def trust_peer_def drive_def split: trust_state.splits option.splits)
qed (simp_all add: reset_flow_def)

text \<open>A flow that says a peer is trusted has stored that very record.\<close>

definition trust_inv :: "trust_flow \<Rightarrow> bool" where
  "trust_inv f \<longleftrightarrow> (\<forall>p. tf_state f = TrustedT p \<longrightarrow> tf_peers f (tp_peer p) = Some p \<and> tp_local p = tf_local f)"

lemma trust_inv_drive:
  assumes "trust_inv f" "\<And>p. ev \<noteq> UserConfirmed p"
  shows "trust_inv (snd (drive ev f))"
  using assms transition_trusted [of "tf_state f" ev]
  by (auto simp: trust_inv_def drive_def split: sum.split)

lemma trust_inv_step: "\<lbrakk>trust_step f f'; trust_inv f\<rbrakk> \<Longrightarrow> trust_inv f'"
proof (induction rule: trust_step.induct)
  case (confirm f get_fail save_fail now)
  then show ?case
    by (auto simp: confirm_verification_def trust_peer_def drive_def trust_inv_def
        split: trust_state.split option.split)
next
  case (reset f)
  then show ?case by (simp add: reset_flow_def trust_inv_def)
qed (auto intro: trust_inv_drive)

lemma trust_reach_inv: "trust_reach (trust_flow_new d repo) f \<Longrightarrow> trust_inv f"
proof (induction rule: trust_reach.induct)
  case init
  then show ?case by (simp add: trust_flow_new_def trust_inv_def)
next
  case (step f f')
  then show ?case using trust_inv_step by blast
qed

end
