(* ===== verification/Pairing_Handshake.thy ===== *)
theory Pairing_Handshake
  imports Pairing_Trust
begin

text \<open>
  The pairing handshake: the messages (\<^verbatim>\<open>uc-core/pairing/session_message.rs\<close>), the HMAC proof
  (\<^verbatim>\<open>uc-application/proof.rs\<close>), the sponsor (\<^verbatim>\<open>pairing_inbound/sponsor_handshake.rs\<close> and
  \<^verbatim>\<open>orchestrator.rs\<close>) and the joiner (\<^verbatim>\<open>pairing_outbound/joiner_handshake.rs\<close>).

  HMAC-SHA256, which takes keys of any length, the unwrapping of the key slot and the ports are
  parameters. What a port answers while one event is handled is a field of the event's
  environment. The start times of the sessions, which only feed the telemetry, are left out.
\<close>

section \<open>Messages\<close>

datatype reject_reason =
  InvitationMismatch | PassphraseMismatch | UserRejected | RejectTimeout | RejectInternal

record joiner_request =
  rq_code :: string
  rq_device :: string
  rq_name :: string
  rq_fingerprint :: string
  rq_nonce :: "byte list"
  rq_addr :: "byte list"

record keyslot_offer =
  ko_space :: string
  ko_keyslot :: "byte list"
  ko_challenge :: "byte list"
  ko_session :: string

record sponsor_confirm =
  sc_space :: string
  sc_device :: string
  sc_name :: string
  sc_fingerprint :: string
  sc_addr :: "byte list"
  sc_person :: "string option"

datatype pairing_message =
    Request joiner_request
  | KeyslotOffer keyslot_offer
  | ChallengeResponse "byte list"
  | Confirm sponsor_confirm
  | Reject reject_reason

record join_offer =
  jo_space :: string
  jo_keyslot :: "byte list"
  jo_nonce :: "byte list"

section \<open>The proof\<close>

record proof_artifact =
  pa_session :: string
  pa_space :: string
  pa_nonce :: "byte list"
  pa_proof :: "byte list"

type_synonym proof_cache = "string \<times> string \<times> byte list \<Rightarrow> byte list option"

definition proof_payload :: "string \<Rightarrow> string \<Rightarrow> byte list \<Rightarrow> byte list" where
  "proof_payload session space nonce =
     be_bytes 4 (length session mod 2 ^ 32) @ str_bytes session @
     be_bytes 4 (length space mod 2 ^ 32) @ str_bytes space @ nonce"

definition build_proof ::
  "(byte list \<Rightarrow> byte list \<Rightarrow> byte list) \<Rightarrow> string \<Rightarrow> string \<Rightarrow> byte list \<Rightarrow> byte list \<Rightarrow> proof_cache \<Rightarrow>
   proof_artifact \<times> proof_cache" where
  "build_proof hmac session space nonce key cache =
     (\<lparr>pa_session = session, pa_space = space, pa_nonce = nonce,
       pa_proof = hmac key (proof_payload session space nonce)\<rparr>,
      cache((session, space, nonce) \<mapsto> key))"

text \<open>
  \<open>lookup\<close> is the optional port for the key of the unlocked space: an error, no key while the
  space is locked, or the key.
\<close>

definition verify_proof ::
  "(byte list \<Rightarrow> byte list \<Rightarrow> byte list) \<Rightarrow> (string + byte list option) option \<Rightarrow> proof_artifact \<Rightarrow>
   byte list \<Rightarrow> proof_cache \<Rightarrow> bool \<times> proof_cache" where
  "verify_proof hmac lookup proof expected_nonce cache =
     (if pa_nonce proof \<noteq> expected_nonce then (False, cache)
      else
        (let k = (pa_session proof, pa_space proof, pa_nonce proof) in
         case (case cache k of
                 Some key \<Rightarrow> (Some key, cache)
               | None \<Rightarrow>
                   (case lookup of
                      Some (Inr (Some key)) \<Rightarrow> (Some key, cache(k \<mapsto> key))
                    | _ \<Rightarrow> (None, cache))) of
           (None, cache') \<Rightarrow> (False, cache')
         | (Some key, cache') \<Rightarrow>
             (hmac key (proof_payload (pa_session proof) (pa_space proof) (pa_nonce proof)) =
                pa_proof proof, cache')))"

section \<open>The sponsor\<close>

record joiner_facts =
  jf_device :: string
  jf_name :: string
  jf_fingerprint :: string
  jf_addr :: "byte list"

record session_ctx =
  cx_space :: string
  cx_nonce :: "byte list"
  cx_core_session :: string
  cx_joiner :: joiner_facts
  cx_timer :: bool

datatype verdict = Verified joiner_facts | ProofRejected

datatype failure_reason =
    FailInvitationNotFound | FailInvitationExpired | FailSponsorUnreachable | FailServiceUnavailable
  | FailPassphraseMismatch | FailCorruptedKeyMaterial | FailDeviceNameRequired
  | FailSponsorRejectedInvitation | FailSponsorDeclined | FailSponsorTimedOut | FailSponsorInternal
  | FailTimeout | FailConnectionLost | FailInternal

datatype pairing_outcome = PairingSuccess string string string | PairingFailure failure_reason

text \<open>
  The sponsor's state; \<open>sp_sent\<close> and \<open>sp_closed\<close> are what it handed to the transport and what it
  closed, oldest first.
\<close>

record 'p sponsor =
  sp_device :: string
  sp_holder :: holder
  sp_sessions :: "string \<Rightarrow> session_ctx option"
  sp_cache :: proof_cache
  sp_members :: "'p members"
  sp_peers :: peers
  sp_addrs :: "string \<Rightarrow> (byte list \<times> int) option"
  sp_sent :: "(string \<times> pairing_message) list"
  sp_closed :: "string list"
  sp_outcomes :: "pairing_outcome list"

text \<open>
  \<open>e_timeout_between\<close> says whether the session's watchdog task runs after the proof was checked
  and before the rest of the handler.
\<close>

record 'p sponsor_env =
  e_now :: int
  e_timestamp_ok :: "int \<Rightarrow> bool"
  e_status :: "string + string option"
  e_fresh_space :: string
  e_offer :: "string \<Rightarrow> string + join_offer"
  e_send :: "pairing_message \<Rightarrow> bool"
  e_hmac :: "byte list \<Rightarrow> byte list \<Rightarrow> byte list"
  e_proof_key :: "(string + byte list option) option"
  e_admit_get :: "membership_error option"
  e_admit_save :: "membership_error option"
  e_trust_get :: "trusted_peer_error option"
  e_trust_save :: "trusted_peer_error option"
  e_addr_ok :: bool
  e_device_name :: "string + string option"
  e_identity :: "string + string"
  e_local_addr :: "byte list option"
  e_person :: "string option"
  e_default_preferences :: 'p
  e_timeout_between :: bool

definition send_message ::
  "'p sponsor_env \<Rightarrow> string \<Rightarrow> pairing_message \<Rightarrow> 'p sponsor \<Rightarrow> bool \<times> 'p sponsor" where
  "send_message env session m s =
     (if e_send env m then (True, s\<lparr>sp_sent := sp_sent s @ [(session, m)]\<rparr>) else (False, s))"

definition close_session :: "string \<Rightarrow> 'p sponsor \<Rightarrow> 'p sponsor" where
  "close_session session s = s\<lparr>sp_closed := sp_closed s @ [session]\<rparr>"

definition drop_ctx :: "string \<Rightarrow> 'p sponsor \<Rightarrow> 'p sponsor" where
  "drop_ctx session s = s\<lparr>sp_sessions := (sp_sessions s)(session := None)\<rparr>"

definition emit_failure :: "failure_reason \<Rightarrow> 'p sponsor \<Rightarrow> 'p sponsor" where
  "emit_failure r s = s\<lparr>sp_outcomes := sp_outcomes s @ [PairingFailure r]\<rparr>"

definition send_reject_and_close ::
  "'p sponsor_env \<Rightarrow> string \<Rightarrow> reject_reason \<Rightarrow> 'p sponsor \<Rightarrow> 'p sponsor" where
  "send_reject_and_close env session r s = close_session session (snd (send_message env session (Reject r) s))"

definition reject_session ::
  "'p sponsor_env \<Rightarrow> string \<Rightarrow> reject_reason \<Rightarrow> 'p sponsor \<Rightarrow> 'p sponsor" where
  "reject_session env session r s = send_reject_and_close env session r (drop_ctx session s)"

definition arm_timeout :: "string \<Rightarrow> 'p sponsor \<Rightarrow> 'p sponsor" where
  "arm_timeout session s =
     (case sp_sessions s session of
        None \<Rightarrow> s
      | Some ctx \<Rightarrow> s\<lparr>sp_sessions := (sp_sessions s)(session \<mapsto> ctx\<lparr>cx_timer := True\<rparr>)\<rparr>)"

definition fire_timeout :: "'p sponsor_env \<Rightarrow> string \<Rightarrow> 'p sponsor \<Rightarrow> 'p sponsor" where
  "fire_timeout env session s =
     (if sp_sessions s session = None then s
      else send_reject_and_close env session RejectTimeout (drop_ctx session s))"

definition probe_space :: "'p sponsor_env \<Rightarrow> string" where
  "probe_space env =
     (case e_status env of
        Inr (Some space) \<Rightarrow> space
      | _ \<Rightarrow> e_fresh_space env)"

definition facts_of :: "joiner_request \<Rightarrow> joiner_facts" where
  "facts_of req =
     \<lparr>jf_device = rq_device req, jf_name = rq_name req, jf_fingerprint = rq_fingerprint req,
      jf_addr = rq_addr req\<rparr>"

definition begin_handshake ::
  "'p sponsor_env \<Rightarrow> string \<Rightarrow> joiner_request \<Rightarrow> 'p sponsor \<Rightarrow> 'p sponsor" where
  "begin_handshake env session req s =
     (case e_offer env (probe_space env) of
        Inl _ \<Rightarrow> send_reject_and_close env session RejectInternal s
      | Inr offer \<Rightarrow>
          (let ctx = \<lparr>cx_space = jo_space offer, cx_nonce = jo_nonce offer, cx_core_session = session,
                      cx_joiner = facts_of req, cx_timer = False\<rparr>;
               s1 = s\<lparr>sp_sessions := (sp_sessions s)(session \<mapsto> ctx)\<rparr> in
           case send_message env session
                  (KeyslotOffer \<lparr>ko_space = jo_space offer, ko_keyslot = jo_keyslot offer,
                                 ko_challenge = jo_nonce offer, ko_session = session\<rparr>) s1 of
             (False, s2) \<Rightarrow> close_session session (drop_ctx session s2)
           | (True, s2) \<Rightarrow> arm_timeout session s2))"

definition match_invitation ::
  "'p sponsor_env \<Rightarrow> string \<Rightarrow> joiner_request \<Rightarrow> 'p sponsor \<Rightarrow> bool \<times> 'p sponsor" where
  "match_invitation env session req s =
     (if \<not> e_timestamp_ok env (e_now env) then (False, reject_session env session RejectInternal s)
      else
        (case take_matching (rq_code req) (e_now env) (sp_holder s) of
           (Inr _, h) \<Rightarrow> (True, s\<lparr>sp_holder := h\<rparr>)
         | (Inl HolderNotFound, h) \<Rightarrow>
             (False, reject_session env session InvitationMismatch (s\<lparr>sp_holder := h\<rparr>))
         | (Inl HolderExpired, h) \<Rightarrow>
             (False, emit_failure FailInvitationExpired
                (reject_session env session InvitationMismatch (s\<lparr>sp_holder := h\<rparr>)))
         | (Inl HolderInternal, h) \<Rightarrow>
             (False, emit_failure FailInternal
                (reject_session env session RejectInternal (s\<lparr>sp_holder := h\<rparr>)))))"

text \<open>Telling the rendezvous service that the code is used up changes nothing here.\<close>

definition on_incoming ::
  "'p sponsor_env \<Rightarrow> string \<Rightarrow> pairing_message \<Rightarrow> 'p sponsor \<Rightarrow> 'p sponsor" where
  "on_incoming env session m s =
     (case m of
        Request req \<Rightarrow>
          (case match_invitation env session req s of
             (False, s1) \<Rightarrow> s1
           | (True, s1) \<Rightarrow> begin_handshake env session req s1)
      | _ \<Rightarrow> reject_session env session RejectInternal s)"

definition verify_challenge ::
  "'p sponsor_env \<Rightarrow> string \<Rightarrow> byte list \<Rightarrow> 'p sponsor \<Rightarrow> verdict option \<times> 'p sponsor" where
  "verify_challenge env session response s =
     (case sp_sessions s session of
        None \<Rightarrow> (None, s)
      | Some ctx \<Rightarrow>
          (case verify_proof (e_hmac env) (e_proof_key env)
                  \<lparr>pa_session = cx_core_session ctx, pa_space = cx_space ctx, pa_nonce = cx_nonce ctx,
                   pa_proof = response\<rparr> (cx_nonce ctx) (sp_cache s) of
             (ok, cache) \<Rightarrow>
               (Some (if ok then Verified (cx_joiner ctx) else ProofRejected), s\<lparr>sp_cache := cache\<rparr>)))"

definition confirm_handshake :: "'p sponsor_env \<Rightarrow> string \<Rightarrow> 'p sponsor \<Rightarrow> bool \<times> 'p sponsor" where
  "confirm_handshake env session s =
     (case sp_sessions s session of
        None \<Rightarrow> (False, s)
      | Some ctx \<Rightarrow>
          (let s1 = drop_ctx session s in
           case e_device_name env of
             Inr (Some name) \<Rightarrow>
               if trim name = [] then (False, s1)
               else (case e_identity env of
                 Inl _ \<Rightarrow> (False, s1)
               | Inr fingerprint \<Rightarrow>
                   (case send_message env session
                           (Confirm \<lparr>sc_space = cx_space ctx, sc_device = sp_device s, sc_name = name,
                                     sc_fingerprint = fingerprint,
                                     sc_addr = (case e_local_addr env of None \<Rightarrow> [] | Some a \<Rightarrow> a),
                                     sc_person = e_person env\<rparr>) s1 of
                      (False, s2) \<Rightarrow> (False, s2)
                    | (True, s2) \<Rightarrow> (True, close_session session s2)))
           | _ \<Rightarrow> (False, s1)))"

definition persist_peer_address :: "'p sponsor_env \<Rightarrow> joiner_facts \<Rightarrow> int \<Rightarrow> 'p sponsor \<Rightarrow> 'p sponsor" where
  "persist_peer_address env facts observed_at s =
     (if jf_addr facts = [] then s
      else if e_addr_ok env
      then s\<lparr>sp_addrs := (sp_addrs s)(jf_device facts \<mapsto> (jf_addr facts, observed_at))\<rparr> else s)"

definition finalise_verified ::
  "'p sponsor_env \<Rightarrow> string \<Rightarrow> joiner_facts \<Rightarrow> 'p sponsor \<Rightarrow> 'p sponsor" where
  "finalise_verified env session facts s =
     (if \<not> e_timestamp_ok env (e_now env)
      then emit_failure FailInternal (reject_session env session RejectInternal s)
      else
        (case admit_member (e_admit_get env) (e_admit_save env)
                \<lparr>sm_device = jf_device facts, sm_name = jf_name facts,
                 sm_fingerprint = jf_fingerprint facts, sm_joined_at = e_now env,
                 sm_preferences = e_default_preferences env\<rparr> (sp_members s) of
           (Inl _, _) \<Rightarrow> emit_failure FailInternal (reject_session env session RejectInternal s)
         | (Inr _, members) \<Rightarrow>
             (let s1 = s\<lparr>sp_members := members\<rparr> in
              case trust_peer (e_trust_get env) (e_trust_save env)
                     \<lparr>tp_local = sp_device s, tp_peer = jf_device facts,
                      tp_fingerprint = jf_fingerprint facts, tp_trusted_at = e_now env\<rparr> (sp_peers s1) of
                (Inl _, _) \<Rightarrow> emit_failure FailInternal (reject_session env session RejectInternal s1)
              | (Inr _, peers) \<Rightarrow>
                  (case confirm_handshake env session (s1\<lparr>sp_peers := peers\<rparr>) of
                     (False, s2) \<Rightarrow> emit_failure FailConnectionLost s2
                   | (True, s2) \<Rightarrow>
                       (let s3 = persist_peer_address env facts (e_now env) s2 in
                        s3\<lparr>sp_outcomes := sp_outcomes s3 @
                             [PairingSuccess (jf_device facts) (jf_name facts) (jf_fingerprint facts)]\<rparr>)))))"

definition on_message_received ::
  "'p sponsor_env \<Rightarrow> string \<Rightarrow> pairing_message \<Rightarrow> 'p sponsor \<Rightarrow> 'p sponsor" where
  "on_message_received env session m s =
     (case m of
        ChallengeResponse response \<Rightarrow>
          (case verify_challenge env session response s of
             (None, s1) \<Rightarrow> s1
           | (Some v, s1) \<Rightarrow>
               (let s2 = (if e_timeout_between env then fire_timeout env session s1 else s1) in
                case v of
                  Verified facts \<Rightarrow> finalise_verified env session facts s2
                | ProofRejected \<Rightarrow>
                    emit_failure FailPassphraseMismatch
                      (reject_session env session PassphraseMismatch s2)))
      | _ \<Rightarrow> s)"

definition on_session_closed :: "string \<Rightarrow> 'p sponsor \<Rightarrow> 'p sponsor" where
  "on_session_closed session s = drop_ctx session s"

section \<open>The joiner\<close>

datatype redeem_error =
    InvitationNotFoundE | InvitationExpiredE | SponsorUnreachable | ServiceUnavailable
  | RedeemPassphraseMismatch | CorruptedKeyMaterial | DeviceNameRequired
  | SponsorRejectedInvitation | SponsorDeclined | SponsorTimedOut | SponsorInternal
  | RedeemTimeout | ConnectionLost | RedeemInternal

datatype session_error = SessionNotFound | SessionClosed | SessionInternal

datatype space_access_error = WrongPassphrase | CorruptedKeyslot | OtherAccessError

datatype recv_result = Elapsed | Received pairing_message | EndOfStream | RecvFailed session_error

record joiner_outcome =
  jn_sponsor_device :: string
  jn_sponsor_name :: string
  jn_sponsor_fingerprint :: string
  jn_space :: string
  jn_self_device :: string
  jn_self_fingerprint :: string
  jn_sponsor_addr :: "byte list"
  jn_person :: "string option"

record joiner_env =
  n_identity :: "string + string"
  n_device :: string
  n_device_name :: "string + string option"
  n_local_addr :: "byte list option"
  n_send :: "pairing_message \<Rightarrow> session_error option"
  n_derive :: "join_offer \<Rightarrow> string \<Rightarrow> space_access_error + byte list"
  n_hmac :: "byte list \<Rightarrow> byte list \<Rightarrow> byte list"

fun map_session_err :: "session_error \<Rightarrow> redeem_error" where
  "map_session_err SessionNotFound = ConnectionLost"
| "map_session_err SessionClosed = ConnectionLost"
| "map_session_err SessionInternal = RedeemInternal"

fun map_space_access_err :: "space_access_error \<Rightarrow> redeem_error" where
  "map_space_access_err WrongPassphrase = RedeemPassphraseMismatch"
| "map_space_access_err CorruptedKeyslot = CorruptedKeyMaterial"
| "map_space_access_err OtherAccessError = RedeemInternal"

fun map_sponsor_reject :: "reject_reason \<Rightarrow> redeem_error" where
  "map_sponsor_reject InvitationMismatch = SponsorRejectedInvitation"
| "map_sponsor_reject PassphraseMismatch = RedeemPassphraseMismatch"
| "map_sponsor_reject UserRejected = SponsorDeclined"
| "map_sponsor_reject RejectTimeout = SponsorTimedOut"
| "map_sponsor_reject RejectInternal = SponsorInternal"

fun recv_with_ttl :: "recv_result \<Rightarrow> redeem_error + pairing_message" where
  "recv_with_ttl Elapsed = Inl RedeemTimeout"
| "recv_with_ttl (Received m) = Inr m"
| "recv_with_ttl EndOfStream = Inl ConnectionLost"
| "recv_with_ttl (RecvFailed e) = Inl (map_session_err e)"

definition challenge_to_array :: "byte list \<Rightarrow> redeem_error + byte list" where
  "challenge_to_array bytes = (if length bytes \<noteq> 32 then Inl RedeemInternal else Inr bytes)"

text \<open>The first half of \<^verbatim>\<open>drive\<close>: the request, or an error before anything was sent.\<close>

definition send_request :: "joiner_env \<Rightarrow> string \<Rightarrow> redeem_error + (string \<times> joiner_request)" where
  "send_request env code =
     (case n_identity env of
        Inl _ \<Rightarrow> Inl RedeemInternal
      | Inr fp \<Rightarrow>
          (case n_device_name env of
             Inl _ \<Rightarrow> Inl RedeemInternal
           | Inr None \<Rightarrow> Inl DeviceNameRequired
           | Inr (Some name) \<Rightarrow>
               if trim name = [] then Inl DeviceNameRequired
               else
                 (let req = \<lparr>rq_code = code, rq_device = n_device env, rq_name = name,
                             rq_fingerprint = fp, rq_nonce = [],
                             rq_addr = (case n_local_addr env of None \<Rightarrow> [] | Some a \<Rightarrow> a)\<rparr> in
                  case n_send env (Request req) of
                    Some e \<Rightarrow> Inl (map_session_err e)
                  | None \<Rightarrow> Inr (fp, req))))"

text \<open>From the sponsor's first answer to the proof that is sent back.\<close>

definition joiner_response ::
  "joiner_env \<Rightarrow> string \<Rightarrow> recv_result \<Rightarrow> redeem_error + byte list" where
  "joiner_response env passphrase r =
     (case recv_with_ttl r of
        Inl e \<Rightarrow> Inl e
      | Inr (KeyslotOffer offer) \<Rightarrow>
          (case challenge_to_array (ko_challenge offer) of
             Inl e \<Rightarrow> Inl e
           | Inr nonce \<Rightarrow>
               (let jo = \<lparr>jo_space = ko_space offer, jo_keyslot = ko_keyslot offer, jo_nonce = nonce\<rparr> in
                case n_derive env jo passphrase of
                  Inl e \<Rightarrow> Inl (map_space_access_err e)
                | Inr key \<Rightarrow>
                    (let proof = pa_proof (fst (build_proof (n_hmac env) (ko_session offer) (jo_space jo)
                                   nonce key Map.empty)) in
                     case n_send env (ChallengeResponse proof) of
                       Some e \<Rightarrow> Inl (map_session_err e)
                     | None \<Rightarrow> Inr proof)))
      | Inr (Reject r) \<Rightarrow> Inl (map_sponsor_reject r)
      | Inr _ \<Rightarrow> Inl RedeemInternal)"

definition joiner_finish ::
  "joiner_env \<Rightarrow> string \<Rightarrow> recv_result \<Rightarrow> redeem_error + joiner_outcome" where
  "joiner_finish env fp r =
     (case recv_with_ttl r of
        Inl e \<Rightarrow> Inl e
      | Inr (Confirm c) \<Rightarrow>
          Inr \<lparr>jn_sponsor_device = sc_device c, jn_sponsor_name = sc_name c,
               jn_sponsor_fingerprint = sc_fingerprint c, jn_space = sc_space c,
               jn_self_device = n_device env, jn_self_fingerprint = fp,
               jn_sponsor_addr = sc_addr c, jn_person = sc_person c\<rparr>
      | Inr (Reject r) \<Rightarrow> Inl (map_sponsor_reject r)
      | Inr _ \<Rightarrow> Inl RedeemInternal)"

text \<open>\<^verbatim>\<open>drive\<close>, with what the two receptions yield.\<close>

definition joiner_drive ::
  "joiner_env \<Rightarrow> string \<Rightarrow> string \<Rightarrow> recv_result \<Rightarrow> recv_result \<Rightarrow> redeem_error + joiner_outcome" where
  "joiner_drive env code passphrase first second =
     (case send_request env code of
        Inl e \<Rightarrow> Inl e
      | Inr (fp, _) \<Rightarrow>
          (case joiner_response env passphrase first of
             Inl e \<Rightarrow> Inl e
           | Inr _ \<Rightarrow> joiner_finish env fp second))"

text \<open>\<^verbatim>\<open>handshake\<close>: the dial, the drive, and the sessions closed at the end.\<close>

datatype dial_error = DialNotFound | DialExpired | DialUnreachable | DialUnavailable | DialInternal

fun map_dial_err :: "dial_error \<Rightarrow> redeem_error" where
  "map_dial_err DialNotFound = InvitationNotFoundE"
| "map_dial_err DialExpired = InvitationExpiredE"
| "map_dial_err DialUnreachable = SponsorUnreachable"
| "map_dial_err DialUnavailable = ServiceUnavailable"
| "map_dial_err DialInternal = RedeemInternal"

definition joiner_handshake ::
  "dial_error + string \<Rightarrow> joiner_env \<Rightarrow> string \<Rightarrow> string \<Rightarrow> recv_result \<Rightarrow> recv_result \<Rightarrow>
   (redeem_error + joiner_outcome) \<times> string list" where
  "joiner_handshake dial env code passphrase first second =
     (case dial of
        Inl e \<Rightarrow> (Inl (map_dial_err e), [])
      | Inr session \<Rightarrow> (joiner_drive env code passphrase first second, [session]))"

text \<open>\<^verbatim>\<open>map_redeem_error_to_pairing_failure_reason\<close>, for the telemetry.\<close>

fun failure_of :: "redeem_error \<Rightarrow> failure_reason" where
  "failure_of InvitationNotFoundE = FailInvitationNotFound"
| "failure_of InvitationExpiredE = FailInvitationExpired"
| "failure_of SponsorUnreachable = FailSponsorUnreachable"
| "failure_of ServiceUnavailable = FailServiceUnavailable"
| "failure_of RedeemPassphraseMismatch = FailPassphraseMismatch"
| "failure_of CorruptedKeyMaterial = FailCorruptedKeyMaterial"
| "failure_of DeviceNameRequired = FailDeviceNameRequired"
| "failure_of SponsorRejectedInvitation = FailSponsorRejectedInvitation"
| "failure_of SponsorDeclined = FailSponsorDeclined"
| "failure_of SponsorTimedOut = FailSponsorTimedOut"
| "failure_of SponsorInternal = FailSponsorInternal"
| "failure_of RedeemTimeout = FailTimeout"
| "failure_of ConnectionLost = FailConnectionLost"
| "failure_of RedeemInternal = FailInternal"

lemma failure_of_inj: "failure_of a = failure_of b \<longleftrightarrow> a = b"
  by (cases a; cases b) simp_all

text \<open>
  What \<^verbatim>\<open>RedeemPairingInvitationUseCase::persist\<close> stores of the outcome: the sponsor as a member
  and as a trusted peer, then the set-up status, then (at best) the address.
\<close>

record 'p joiner_store =
  js_members :: "'p members"
  js_peers :: peers
  js_space :: "string option"
  js_completed :: bool
  js_addrs :: "string \<Rightarrow> (byte list \<times> int) option"

definition persist_outcome ::
  "(int \<Rightarrow> bool) \<Rightarrow> int \<Rightarrow> membership_error option \<Rightarrow> membership_error option \<Rightarrow>
   trusted_peer_error option \<Rightarrow> trusted_peer_error option \<Rightarrow> bool \<Rightarrow> bool \<Rightarrow>
   'p \<Rightarrow> joiner_outcome \<Rightarrow> 'p joiner_store \<Rightarrow> (redeem_error + joiner_outcome) \<times> 'p joiner_store" where
  "persist_outcome timestamp_ok now admit_get admit_save trust_get trust_save status_ok addr_ok prefs out st =
     (if \<not> timestamp_ok now then (Inl RedeemInternal, st)
      else
        (case admit_member admit_get admit_save
                \<lparr>sm_device = jn_sponsor_device out, sm_name = jn_sponsor_name out,
                 sm_fingerprint = jn_sponsor_fingerprint out, sm_joined_at = now, sm_preferences = prefs\<rparr>
                (js_members st) of
           (Inl _, _) \<Rightarrow> (Inl RedeemInternal, st)
         | (Inr _, members) \<Rightarrow>
             (let st1 = st\<lparr>js_members := members\<rparr> in
              case trust_peer trust_get trust_save
                     \<lparr>tp_local = jn_self_device out, tp_peer = jn_sponsor_device out,
                      tp_fingerprint = jn_sponsor_fingerprint out, tp_trusted_at = now\<rparr> (js_peers st1) of
                (Inl _, _) \<Rightarrow> (Inl RedeemInternal, st1)
              | (Inr _, peers) \<Rightarrow>
                  (let st2 = st1\<lparr>js_peers := peers\<rparr> in
                   if \<not> status_ok then (Inl RedeemInternal, st2)
                   else
                     (let st3 = st2\<lparr>js_completed := True, js_space := Some (jn_space out)\<rparr> in
                      (Inr out,
                       if jn_sponsor_addr out = [] \<or> \<not> addr_ok then st3
                       else st3\<lparr>js_addrs := (js_addrs st3)(jn_sponsor_device out \<mapsto> (jn_sponsor_addr out, now))\<rparr>))))))"

section \<open>What a proof binds\<close>

text \<open>
  The lengths in front of the two names make the payload unambiguous: a proof for one session,
  space and challenge is a proof over a payload of its own.
\<close>

lemma be_bytes_inj: "\<lbrakk>be_bytes n x = be_bytes n y; x < 256 ^ n; y < 256 ^ n\<rbrakk> \<Longrightarrow> x = y"
  by (metis be_val_be_bytes_id)

lemma append_split: "\<lbrakk>a @ b = c @ d; length a = length c\<rbrakk> \<Longrightarrow> a = c \<and> b = d"
  by simp

lemma proof_payload_inj:
  assumes eq: "proof_payload a b c = proof_payload a' b' c'"
    and "length a < 2 ^ 32" "length b < 2 ^ 32" "length a' < 2 ^ 32" "length b' < 2 ^ 32"
  shows "a = a' \<and> b = b' \<and> c = c'"
proof -
  have p: "(256 :: nat) ^ 4 = 2 ^ 32" by simp
  note len = be_bytes_inj [where n = 4, unfolded p]
  have "be_bytes 4 (length a) = be_bytes 4 (length a') \<and>
      str_bytes a @ (be_bytes 4 (length b) @ str_bytes b @ c) =
      str_bytes a' @ (be_bytes 4 (length b') @ str_bytes b' @ c')"
    using eq assms(2-5) by (intro append_split) (simp_all only: proof_payload_def mod_less append_assoc length_be_bytes)
  then have la: "length a = length a'" and
    e2: "str_bytes a @ (be_bytes 4 (length b) @ str_bytes b @ c) =
      str_bytes a' @ (be_bytes 4 (length b') @ str_bytes b' @ c')"
    using len assms(2,4) by blast+
  have s2: "str_bytes a = str_bytes a' \<and>
      be_bytes 4 (length b) @ (str_bytes b @ c) = be_bytes 4 (length b') @ (str_bytes b' @ c')"
    using e2 la by (intro append_split) simp_all
  then have "be_bytes 4 (length b) = be_bytes 4 (length b') \<and> str_bytes b @ c = str_bytes b' @ c'"
    by (intro append_split) simp_all
  moreover from this have "length b = length b'" using len assms(3,5) by blast
  ultimately have "str_bytes b = str_bytes b' \<and> c = c'" by (intro append_split) simp_all
  with s2 show ?thesis by (metis bytes_str_bytes)
qed

section \<open>Runs of the sponsor\<close>

text \<open>
  A run starts at \<open>s0\<close> and remembers the number of invitations issued, the requests whose code was
  accepted (code, session, facts) and the challenge responses received (session, bytes). The
  unlocked space has one key, and every environment computes the same HMAC.
\<close>

definition env_ok :: "(byte list \<Rightarrow> byte list \<Rightarrow> byte list) \<Rightarrow> byte list \<Rightarrow> 'p sponsor_env \<Rightarrow> bool" where
  "env_ok hmac key env \<longleftrightarrow>
     e_hmac env = hmac \<and> (\<forall>k. e_proof_key env = Some (Inr (Some k)) \<longrightarrow> k = key)"

definition accepted_request ::
  "'p sponsor_env \<Rightarrow> string \<Rightarrow> pairing_message \<Rightarrow> 'p sponsor \<Rightarrow> (string \<times> string \<times> joiner_facts) list" where
  "accepted_request env session m s =
     (case m of
        Request req \<Rightarrow>
          if fst (match_invitation env session req s) then [(rq_code req, session, facts_of req)] else []
      | _ \<Rightarrow> [])"

definition response_in :: "string \<Rightarrow> pairing_message \<Rightarrow> (string \<times> byte list) list" where
  "response_in session m = (case m of ChallengeResponse r \<Rightarrow> [(session, r)] | _ \<Rightarrow> [])"

inductive sponsor_run ::
  "(byte list \<Rightarrow> byte list \<Rightarrow> byte list) \<Rightarrow> byte list \<Rightarrow> 'p sponsor \<Rightarrow>
   nat \<Rightarrow> (string \<times> string \<times> joiner_facts) list \<Rightarrow> (string \<times> byte list) list \<Rightarrow> 'p sponsor \<Rightarrow> bool"
  for hmac key s0 where
  start: "sponsor_run hmac key s0 0 [] [] s0"
| incoming: "\<lbrakk>sponsor_run hmac key s0 n acc got s; env_ok hmac key env\<rbrakk> \<Longrightarrow>
    sponsor_run hmac key s0 n (acc @ accepted_request env session m s) got (on_incoming env session m s)"
| message: "\<lbrakk>sponsor_run hmac key s0 n acc got s; env_ok hmac key env\<rbrakk> \<Longrightarrow>
    sponsor_run hmac key s0 n acc (got @ response_in session m) (on_message_received env session m s)"
| closed: "sponsor_run hmac key s0 n acc got s \<Longrightarrow>
    sponsor_run hmac key s0 n acc got (on_session_closed session s)"
| watchdog: "sponsor_run hmac key s0 n acc got s \<Longrightarrow>
    sponsor_run hmac key s0 n acc got (fire_timeout env session s)"
| issue: "sponsor_run hmac key s0 n acc got s \<Longrightarrow>
    sponsor_run hmac key s0 (Suc n) acc got
      (s\<lparr>sp_holder := snd (finish_issued_invitation ok now (sp_device s) code expires (sp_holder s))\<rparr>)"
| cancel: "sponsor_run hmac key s0 n acc got s \<Longrightarrow>
    sponsor_run hmac key s0 n acc got (s\<lparr>sp_holder := snd (cancel_all (sp_holder s))\<rparr>)"

text \<open>
  The invariant of a run. Every code accepted used up an invitation; the cache holds the space's
  key only; a session that waits for its proof belongs to an accepted request and was sent its
  challenge; whoever was newly trusted belongs to an accepted request and answered the challenge
  of that session with the HMAC of its payload.
\<close>

type_synonym sent_messages = "(string \<times> pairing_message) list"

definition offered :: "sent_messages \<Rightarrow> string \<Rightarrow> string \<Rightarrow> byte list \<Rightarrow> bool" where
  "offered sent session space nonce \<longleftrightarrow>
     (\<exists>slot. (session, KeyslotOffer \<lparr>ko_space = space, ko_keyslot = slot, ko_challenge = nonce,
                ko_session = session\<rparr>) \<in> set sent)"

definition waiting_ok :: "(string \<times> string \<times> joiner_facts) list \<Rightarrow> sent_messages \<Rightarrow> string \<Rightarrow> session_ctx \<Rightarrow> bool" where
  "waiting_ok acc sent session ctx \<longleftrightarrow>
     cx_core_session ctx = session \<and> (\<exists>code. (code, session, cx_joiner ctx) \<in> set acc) \<and>
     offered sent session (cx_space ctx) (cx_nonce ctx)"

definition proved ::
  "(byte list \<Rightarrow> byte list \<Rightarrow> byte list) \<Rightarrow> byte list \<Rightarrow> (string \<times> string \<times> joiner_facts) list \<Rightarrow>
   (string \<times> byte list) list \<Rightarrow> sent_messages \<Rightarrow> joiner_facts \<Rightarrow> bool" where
  "proved hmac key acc got sent facts \<longleftrightarrow>
     (\<exists>code session space nonce. (code, session, facts) \<in> set acc \<and> offered sent session space nonce \<and>
        (session, hmac key (proof_payload session space nonce)) \<in> set got)"

definition run_inv ::
  "(byte list \<Rightarrow> byte list \<Rightarrow> byte list) \<Rightarrow> byte list \<Rightarrow> 'p sponsor \<Rightarrow>
   nat \<Rightarrow> (string \<times> string \<times> joiner_facts) list \<Rightarrow> (string \<times> byte list) list \<Rightarrow> 'p sponsor \<Rightarrow> bool" where
  "run_inv hmac key s0 n acc got s \<longleftrightarrow>
     length acc + length (sp_holder s) \<le> length (sp_holder s0) + n \<and>
     sp_device s = sp_device s0 \<and>
     ran (sp_cache s) \<subseteq> {key} \<and>
     (\<forall>session ctx. sp_sessions s session = Some ctx \<longrightarrow> waiting_ok acc (sp_sent s) session ctx) \<and>
     (\<forall>d p. sp_peers s d = Some p \<longrightarrow> sp_peers s0 d = Some p \<or>
        (\<exists>facts. proved hmac key acc got (sp_sent s) facts \<and> jf_device facts = d \<and>
           tp_local p = sp_device s0 \<and> tp_peer p = d \<and> tp_fingerprint p = jf_fingerprint facts))"

lemma offered_mono: "\<lbrakk>offered sent session space nonce; set sent \<subseteq> set sent'\<rbrakk> \<Longrightarrow> offered sent' session space nonce"
  by (auto simp: offered_def)

lemma waiting_mono:
  "\<lbrakk>waiting_ok acc sent session ctx; set acc \<subseteq> set acc'; set sent \<subseteq> set sent'\<rbrakk> \<Longrightarrow> waiting_ok acc' sent' session ctx"
  unfolding waiting_ok_def using offered_mono by blast

lemma proved_mono:
  "\<lbrakk>proved hmac key acc got sent facts; set acc \<subseteq> set acc'; set got \<subseteq> set got'; set sent \<subseteq> set sent'\<rbrakk> \<Longrightarrow>
   proved hmac key acc' got' sent' facts"
  unfolding proved_def using offered_mono by blast

lemmas sponsor_frame = send_message_def close_session_def drop_ctx_def emit_failure_def
  send_reject_and_close_def reject_session_def

text \<open>Steps that trust nobody, wait for nothing new and forget no message.\<close>

definition quiet :: "'p sponsor \<Rightarrow> 'p sponsor \<Rightarrow> bool" where
  "quiet s s' \<longleftrightarrow>
     length (sp_holder s') \<le> length (sp_holder s) \<and> sp_device s' = sp_device s \<and>
     sp_cache s' = sp_cache s \<and> sp_peers s' = sp_peers s \<and>
     sp_sessions s' \<subseteq>\<^sub>m sp_sessions s \<and> set (sp_sent s) \<subseteq> set (sp_sent s')"

lemma quiet_refl [simp]: "quiet s s"
  by (simp add: quiet_def)

lemma quiet_trans: "\<lbrakk>quiet s s'; quiet s' s''\<rbrakk> \<Longrightarrow> quiet s s''"
  unfolding quiet_def using map_le_trans by fastforce

lemma quiet_send: "quiet s (snd (send_message env session m s))"
  by (auto simp: quiet_def send_message_def)

lemma quiet_close [simp]: "quiet s (close_session session s)"
  by (simp add: quiet_def close_session_def)

lemma quiet_drop [simp]: "quiet s (drop_ctx session s)"
  by (simp add: quiet_def drop_ctx_def map_le_def)

lemma quiet_emit [simp]: "quiet s (emit_failure r s)"
  by (simp add: quiet_def emit_failure_def)

lemma quiet_reject_close [simp]: "quiet s (send_reject_and_close env session r s)"
  unfolding send_reject_and_close_def by (rule quiet_trans [OF quiet_send quiet_close])

lemma quiet_reject [simp]: "quiet s (reject_session env session r s)"
  unfolding reject_session_def by (rule quiet_trans [OF quiet_drop quiet_reject_close])

lemma quiet_emit_reject [simp]: "quiet s (emit_failure f (reject_session env session r s))"
  by (rule quiet_trans [OF quiet_reject quiet_emit])

lemma quiet_fire [simp]: "quiet s (fire_timeout env session s)"
  by (simp add: fire_timeout_def quiet_trans [OF quiet_drop quiet_reject_close])

lemma quiet_closed [simp]: "quiet s (on_session_closed session s)"
  by (simp add: on_session_closed_def)

lemma quiet_confirm: "quiet s (snd (confirm_handshake env session s))"
  by (simp add: confirm_handshake_def Let_def send_message_def drop_ctx_def close_session_def quiet_def
      map_le_def subset_insertI split: sum.split option.split)

lemma quiet_persist [simp]: "quiet s (persist_peer_address env facts t s)"
  by (simp add: quiet_def persist_peer_address_def)

lemma run_inv_mono:
  assumes inv: "run_inv hmac key s0 n acc got s"
    and hold: "length acc' + length (sp_holder s') \<le> length (sp_holder s0) + n'"
    and same: "sp_device s' = sp_device s" "sp_cache s' = sp_cache s" "sp_peers s' = sp_peers s"
      "sp_sessions s' \<subseteq>\<^sub>m sp_sessions s"
    and more: "set (sp_sent s) \<subseteq> set (sp_sent s')" "set acc \<subseteq> set acc'" "set got \<subseteq> set got'"
  shows "run_inv hmac key s0 n' acc' got' s'"
  unfolding run_inv_def
proof (intro conjI allI impI)
  fix session ctx
  assume "sp_sessions s' session = Some ctx"
  with same(4) have "sp_sessions s session = Some ctx" by (metis domI map_le_def)
  with inv have "waiting_ok acc (sp_sent s) session ctx" by (simp add: run_inv_def)
  then show "waiting_ok acc' (sp_sent s') session ctx" using waiting_mono more by blast
next
  fix d p
  assume "sp_peers s' d = Some p"
  with same(3) inv have "sp_peers s0 d = Some p \<or>
      (\<exists>facts. proved hmac key acc got (sp_sent s) facts \<and> jf_device facts = d \<and>
         tp_local p = sp_device s0 \<and> tp_peer p = d \<and> tp_fingerprint p = jf_fingerprint facts)"
    by (simp add: run_inv_def)
  then show "sp_peers s0 d = Some p \<or>
      (\<exists>facts. proved hmac key acc' got' (sp_sent s') facts \<and> jf_device facts = d \<and>
         tp_local p = sp_device s0 \<and> tp_peer p = d \<and> tp_fingerprint p = jf_fingerprint facts)"
    using proved_mono more by blast
qed (use inv hold same in \<open>simp_all add: run_inv_def\<close>)

lemma run_inv_quiet:
  assumes "run_inv hmac key s0 n acc got s" "quiet s s'"
  shows "run_inv hmac key s0 n acc got s'"
proof (rule run_inv_mono [OF assms(1)])
  show "length acc + length (sp_holder s') \<le> length (sp_holder s0) + n"
    using assms by (simp add: run_inv_def quiet_def)
qed (use assms in \<open>simp_all add: quiet_def\<close>)

text \<open>Accepting a code takes one invitation away.\<close>

lemma length_alist_delete: "map_of h k \<noteq> None \<Longrightarrow> length (AList.delete k h) < length h"
  by (induction h) (auto simp: le_imp_less_Suc AList.length_delete_le split: if_splits)

lemma take_matching_length:
  assumes "take_matching code now h = (r, h')"
  shows "length h' \<le> length h" "r = Inr i \<Longrightarrow> length h' < length h"
  using assms length_alist_delete [of h code] AList.length_delete_le [of code h]
  by (auto simp: take_matching_def Let_def split: option.splits sum.splits prod.splits consume_error.splits)

lemma match_invitation_cases:
  assumes "match_invitation env session req s = (b, s1)"
  shows "if b then quiet s s1 \<and> length (sp_holder s1) < length (sp_holder s) \<and>
      s1 = s\<lparr>sp_holder := sp_holder s1\<rparr> else quiet s s1"
proof (cases "e_timestamp_ok env (e_now env)")
  case True
  obtain r h where t: "take_matching (rq_code req) (e_now env) (sp_holder s) = (r, h)" by fastforce
  note len = take_matching_length [OF t]
  have q: "quiet s (s\<lparr>sp_holder := h\<rparr>)" using len(1) by (simp add: quiet_def)
  have q': "quiet s (reject_session env session x (s\<lparr>sp_holder := h\<rparr>))" for x
    by (rule quiet_trans [OF q quiet_reject])
  have q'': "quiet s (emit_failure f (reject_session env session x (s\<lparr>sp_holder := h\<rparr>)))" for f x
    by (rule quiet_trans [OF q quiet_emit_reject])
  show ?thesis using assms True t len(2) q q' q''
    by (auto simp: match_invitation_def split: sum.splits take_error.splits)
next
  case False
  with assms have "\<not> b" "s1 = reject_session env session RejectInternal s"
    by (simp_all add: match_invitation_def)
  then show ?thesis by simp
qed

text \<open>A session waits for its proof only after it was sent the challenge.\<close>

lemma run_inv_begin:
  assumes inv: "run_inv hmac key s0 n acc got s" and acc: "(code, session, facts_of req) \<in> set acc"
  shows "run_inv hmac key s0 n acc got (begin_handshake env session req s)"
proof (cases "e_offer env (probe_space env)")
  case (Inl e)
  then show ?thesis using run_inv_quiet [OF inv quiet_reject_close] by (simp add: begin_handshake_def)
next
  case (Inr offer)
  define m where "m = KeyslotOffer \<lparr>ko_space = jo_space offer, ko_keyslot = jo_keyslot offer,
                                 ko_challenge = jo_nonce offer, ko_session = session\<rparr>"
  define ctx where "ctx = \<lparr>cx_space = jo_space offer, cx_nonce = jo_nonce offer, cx_core_session = session,
                      cx_joiner = facts_of req, cx_timer = True\<rparr>"
  show ?thesis
  proof (cases "e_send env m")
    case False
    with Inr have "begin_handshake env session req s = close_session session (drop_ctx session s)"
      by (simp add: begin_handshake_def send_message_def drop_ctx_def m_def [symmetric])
    then show ?thesis using run_inv_quiet [OF inv quiet_trans [OF quiet_drop quiet_close]] by simp
  next
    case True
    let ?s = "s\<lparr>sp_sessions := (sp_sessions s)(session \<mapsto> ctx), sp_sent := sp_sent s @ [(session, m)]\<rparr>"
    from True Inr have eq: "begin_handshake env session req s = ?s"
      by (simp add: begin_handshake_def send_message_def arm_timeout_def m_def [symmetric] ctx_def)
    have w: "waiting_ok acc (sp_sent ?s) session ctx"
      using acc by (auto simp: waiting_ok_def offered_def ctx_def m_def)
    have q: "run_inv hmac key s0 n acc got (s\<lparr>sp_sent := sp_sent s @ [(session, m)]\<rparr>)"
      by (rule run_inv_quiet [OF inv]) (simp add: quiet_def subset_insertI)
    have "waiting_ok acc (sp_sent ?s) session' ctx'" if "sp_sessions ?s session' = Some ctx'" for session' ctx'
      using that w q by (auto simp: run_inv_def split: if_splits)
    with q have "run_inv hmac key s0 n acc got ?s" by (simp add: run_inv_def)
    with eq show ?thesis by simp
  qed
qed

lemma run_inv_incoming:
  assumes inv: "run_inv hmac key s0 n acc got s"
  shows "run_inv hmac key s0 n (acc @ accepted_request env session m s) got (on_incoming env session m s)"
proof (cases m)
  case (Request req)
  obtain b s1 where mi: "match_invitation env session req s = (b, s1)" by fastforce
  note c = match_invitation_cases [OF mi]
  show ?thesis
  proof (cases b)
    case True
    with c inv have "run_inv hmac key s0 n (acc @ [(rq_code req, session, facts_of req)]) got s1"
      by (intro run_inv_mono [OF inv]) (auto simp: quiet_def run_inv_def)
    then have "run_inv hmac key s0 n (acc @ [(rq_code req, session, facts_of req)]) got
        (begin_handshake env session req s1)"
      by (rule run_inv_begin [where code = "rq_code req"]) simp
    then show ?thesis using Request True mi by (simp add: on_incoming_def accepted_request_def)
  next
    case False
    with c Request mi run_inv_quiet [OF inv] show ?thesis
      by (simp add: on_incoming_def accepted_request_def)
  qed
qed (simp_all add: on_incoming_def accepted_request_def run_inv_quiet [OF inv])

text \<open>The proof that is accepted is the HMAC, under the space's key, of what was offered.\<close>

lemma ran_single: "(ran f \<subseteq> {k}) = (\<forall>x y. f x = Some y \<longrightarrow> y = k)"
  by (auto simp: ran_def)

lemma verify_proof_sound:
  assumes "verify_proof hmac lookup pa nonce cache = (b, cache')"
    and "ran cache \<subseteq> {key}" and "\<And>k. lookup = Some (Inr (Some k)) \<Longrightarrow> k = key"
  shows "ran cache' \<subseteq> {key}"
    and "b \<Longrightarrow> pa_proof pa = hmac key (proof_payload (pa_session pa) (pa_space pa) (pa_nonce pa))"
proof -
  have hit: "k = key" if "cache t = Some k" for t k
    using that assms(2) by (auto dest: ranI)
  show "ran cache' \<subseteq> {key}"
    using assms hit
    by (auto simp: verify_proof_def Let_def ran_single split: if_splits option.splits sum.splits)
  show "pa_proof pa = hmac key (proof_payload (pa_session pa) (pa_space pa) (pa_nonce pa))" if b
    using that assms(1,3) hit
    by (auto simp: verify_proof_def Let_def split: if_splits option.splits sum.splits)
qed

lemma verify_challenge_sound:
  assumes inv: "run_inv hmac key s0 n acc got s" and env: "env_ok hmac key env"
    and v: "verify_challenge env session response s = (verdict, s1)"
  shows "run_inv hmac key s0 n acc got s1"
    and "verdict = Some (Verified facts) \<Longrightarrow> proved hmac key acc (got @ [(session, response)]) (sp_sent s1) facts"
proof -
  from inv have "ran (sp_cache s) \<subseteq> {key}" by (simp add: run_inv_def)
  from env have e: "e_hmac env = hmac" "\<And>k. e_proof_key env = Some (Inr (Some k)) \<Longrightarrow> k = key"
    by (simp_all add: env_ok_def)
  show "run_inv hmac key s0 n acc got s1"
  proof (cases "sp_sessions s session")
    case (Some ctx)
    obtain b cache where vp: "verify_proof hmac (e_proof_key env)
        \<lparr>pa_session = cx_core_session ctx, pa_space = cx_space ctx, pa_nonce = cx_nonce ctx,
         pa_proof = response\<rparr> (cx_nonce ctx) (sp_cache s) = (b, cache)" by fastforce
    with Some v e(1) have "s1 = s\<lparr>sp_cache := cache\<rparr>" by (simp add: verify_challenge_def)
    with inv verify_proof_sound(1) [OF vp \<open>ran (sp_cache s) \<subseteq> {key}\<close> e(2)] show ?thesis
      by (simp add: run_inv_def)
  qed (use v inv in \<open>simp add: verify_challenge_def\<close>)
  assume ver: "verdict = Some (Verified facts)"
  then obtain ctx where ctx: "sp_sessions s session = Some ctx"
    using v by (cases "sp_sessions s session") (simp_all add: verify_challenge_def)
  obtain b cache where vp: "verify_proof hmac (e_proof_key env)
      \<lparr>pa_session = cx_core_session ctx, pa_space = cx_space ctx, pa_nonce = cx_nonce ctx,
       pa_proof = response\<rparr> (cx_nonce ctx) (sp_cache s) = (b, cache)" by fastforce
  with ctx v e(1) ver have b: "b" and s1: "s1 = s\<lparr>sp_cache := cache\<rparr>" and f: "facts = cx_joiner ctx"
    by (auto simp: verify_challenge_def split: if_splits)
  from verify_proof_sound(2) [OF vp \<open>ran (sp_cache s) \<subseteq> {key}\<close> e(2) b]
  have r: "response = hmac key (proof_payload (cx_core_session ctx) (cx_space ctx) (cx_nonce ctx))" by simp
  from inv ctx have "waiting_ok acc (sp_sent s) session ctx" by (simp add: run_inv_def)
  with r s1 f show "proved hmac key acc (got @ [(session, response)]) (sp_sent s1) facts"
    unfolding waiting_ok_def proved_def by auto
qed


lemma run_inv_trust:
  assumes "run_inv hmac key s0 n acc got s" "proved hmac key acc got (sp_sent s) facts"
    "tp_local p = sp_device s" "tp_peer p = jf_device facts" "tp_fingerprint p = jf_fingerprint facts"
  shows "run_inv hmac key s0 n acc got (s\<lparr>sp_members := ms, sp_peers := (sp_peers s)(jf_device facts \<mapsto> p)\<rparr>)"
  using assms unfolding run_inv_def by auto

lemma trust_peer_Inr:
  "trust_peer g v p repo = (Inr q, repo') \<Longrightarrow> repo' = repo(tp_peer p \<mapsto> p)"
  by (auto simp: trust_peer_def split: option.splits)

lemma run_inv_finalise:
  assumes inv: "run_inv hmac key s0 n acc got s" and pr: "proved hmac key acc got (sp_sent s) facts"
  shows "run_inv hmac key s0 n acc got (finalise_verified env session facts s)"
proof -
  have rej: "run_inv hmac key s0 n acc got (emit_failure f (reject_session env session r t))"
    if "run_inv hmac key s0 n acc got t" for f r t
    by (rule run_inv_quiet [OF that quiet_emit_reject])
  have mem: "run_inv hmac key s0 n acc got (s\<lparr>sp_members := ms\<rparr>)" for ms
    by (rule run_inv_quiet [OF inv]) (simp add: quiet_def)
  obtain r ms where am: "admit_member (e_admit_get env) (e_admit_save env)
                \<lparr>sm_device = jf_device facts, sm_name = jf_name facts,
                 sm_fingerprint = jf_fingerprint facts, sm_joined_at = e_now env,
                 sm_preferences = e_default_preferences env\<rparr> (sp_members s) = (r, ms)" by fastforce
  define p where "p = \<lparr>tp_local = sp_device s, tp_peer = jf_device facts,
                      tp_fingerprint = jf_fingerprint facts, tp_trusted_at = e_now env\<rparr>"
  obtain q ps where tp: "trust_peer (e_trust_get env) (e_trust_save env) p (sp_peers s) = (q, ps)" by fastforce
  define s2 where "s2 = s\<lparr>sp_members := ms, sp_peers := ps\<rparr>"
  obtain b s3 where ch: "confirm_handshake env session s2 = (b, s3)" by fastforce
  have good: "run_inv hmac key s0 n acc got s3" if "q = Inr x" for x
  proof -
    have ps: "ps = (sp_peers s)(jf_device facts \<mapsto> p)"
      using trust_peer_Inr [OF tp [unfolded that]] by (simp add: p_def)
    have "run_inv hmac key s0 n acc got s2"
      unfolding s2_def ps by (rule run_inv_trust [OF inv pr]) (simp_all add: p_def)
    from run_inv_quiet [OF this quiet_confirm] show ?thesis by (metis ch snd_conv)
  qed
  have addr: "run_inv hmac key s0 n acc got
      (t\<lparr>sp_outcomes := x\<rparr>)" if "run_inv hmac key s0 n acc got t" for t x
    by (rule run_inv_quiet [OF that]) (simp add: quiet_def)
  show ?thesis
    using am tp ch good rej [OF inv] rej [OF mem] p_def s2_def
    by (auto simp: finalise_verified_def Let_def
        intro: rej mem addr run_inv_quiet [OF _ quiet_persist] run_inv_quiet [OF _ quiet_emit]
        split: sum.split bool.split)
qed


lemma run_inv_got: "run_inv hmac key s0 n acc got s \<Longrightarrow> run_inv hmac key s0 n acc (got @ rs) s"
  by (rule run_inv_mono) (auto simp: run_inv_def)

lemma run_inv_message:
  assumes inv: "run_inv hmac key s0 n acc got s" and env: "env_ok hmac key env"
  shows "run_inv hmac key s0 n acc (got @ response_in session m) (on_message_received env session m s)"
proof (cases m)
  case (ChallengeResponse response)
  obtain verdict s1 where v: "verify_challenge env session response s = (verdict, s1)" by fastforce
  let ?got = "got @ [(session, response)]"
  define s2 where "s2 = (if e_timeout_between env then fire_timeout env session s1 else s1)"
  have q: "quiet s1 s2" by (simp add: s2_def)
  note sound = verify_challenge_sound [OF inv env v]
  have i2: "run_inv hmac key s0 n acc ?got s2"
    by (rule run_inv_quiet [OF run_inv_got [OF sound(1)] q])
  have pr: "proved hmac key acc ?got (sp_sent s2) facts" if "verdict = Some (Verified facts)" for facts
    by (rule proved_mono [OF sound(2) [OF that]]) (use q in \<open>simp_all add: quiet_def\<close>)
  have i1: "run_inv hmac key s0 n acc ?got s1" by (rule run_inv_got [OF sound(1)])
  have "on_message_received env session m s =
      (case verdict of None \<Rightarrow> s1
       | Some v \<Rightarrow>
           (case v of Verified facts \<Rightarrow> finalise_verified env session facts s2
            | ProofRejected \<Rightarrow>
                emit_failure FailPassphraseMismatch (reject_session env session PassphraseMismatch s2)))"
    by (simp add: on_message_received_def ChallengeResponse v s2_def Let_def split: option.split verdict.split)
  then have "run_inv hmac key s0 n acc ?got (on_message_received env session m s)"
    using i1 run_inv_quiet [OF i2 quiet_emit_reject] run_inv_finalise [OF i2 pr]
    by (simp split: option.split verdict.split)
  then show ?thesis using ChallengeResponse by (simp add: response_in_def)
qed (simp_all add: on_message_received_def response_in_def inv)

text \<open>The invariant holds of every run that starts with no session and only the space's key cached.\<close>

lemma length_holder_insert: "length (holder_insert i h) \<le> Suc (length h)"
  by (induction h) (auto simp: holder_insert_def)

lemma run_inv_reach:
  assumes "sponsor_run hmac key s0 n acc got s"
    and "sp_sessions s0 = Map.empty" "ran (sp_cache s0) \<subseteq> {key}"
  shows "run_inv hmac key s0 n acc got s"
  using assms
proof (induction rule: sponsor_run.induct)
  case start
  then show ?case by (simp add: run_inv_def)
next
  case (incoming n acc got s env session m)
  then show ?case by (simp add: run_inv_incoming)
next
  case (message n acc got s env session m)
  then show ?case by (simp add: run_inv_message)
next
  case (closed n acc got s session)
  then show ?case by (blast intro: run_inv_quiet quiet_closed)
next
  case (watchdog n acc got s env session)
  then show ?case by (blast intro: run_inv_quiet quiet_fire)
next
  case (issue n acc got s ok now code expires)
  let ?h = "snd (finish_issued_invitation ok now (sp_device s) code expires (sp_holder s))"
  have "length ?h \<le> Suc (length (sp_holder s))"
    by (simp add: finish_issued_invitation_def length_holder_insert)
  with issue show ?case by (intro run_inv_mono [OF issue.IH]) (simp_all add: run_inv_def)
next
  case (cancel n acc got s)
  then show ?case by (intro run_inv_mono [OF cancel.IH]) (simp_all add: run_inv_def cancel_all_def)
qed

text \<open>So the sponsor trusts no more new devices than it issued invitations.\<close>

lemma new_peers_accepted:
  assumes "run_inv hmac key s0 n acc got s"
  shows "dom (sp_peers s) - dom (sp_peers s0) \<subseteq> (\<lambda>(_, _, facts). jf_device facts) ` set acc"
proof
  fix d
  assume "d \<in> dom (sp_peers s) - dom (sp_peers s0)"
  then obtain p where "sp_peers s d = Some p" "sp_peers s0 d = None" by auto
  with assms obtain facts where "proved hmac key acc got (sp_sent s) facts" "jf_device facts = d"
    unfolding run_inv_def by (metis option.distinct(1))
  then show "d \<in> (\<lambda>(_, _, facts). jf_device facts) ` set acc"
    by (force simp: proved_def)
qed

lemma new_peers_bounded:
  assumes "run_inv hmac key s0 n acc got s"
  shows "card (dom (sp_peers s) - dom (sp_peers s0)) \<le> length (sp_holder s0) + n"
proof -
  have "card (dom (sp_peers s) - dom (sp_peers s0)) \<le> length acc"
    using card_mono [OF _ new_peers_accepted [OF assms]] card_image_le [of "set acc" "\<lambda>(_, _, facts). jf_device facts"]
      card_length [of acc] by simp
  with assms show ?thesis by (simp add: run_inv_def)
qed

section \<open>A handshake from end to end\<close>

text \<open>The sponsor's environment when nothing fails: the clock, the transport and the repositories work.\<close>

definition env_works :: "'p sponsor_env \<Rightarrow> bool" where
  "env_works env \<longleftrightarrow>
     e_timestamp_ok env (e_now env) \<and> (\<forall>m. e_send env m) \<and>
     e_admit_get env = None \<and> e_admit_save env = None \<and> e_trust_get env = None \<and> e_trust_save env = None \<and>
     (\<exists>name. e_device_name env = Inr (Some name) \<and> trim name \<noteq> []) \<and> (\<exists>fp. e_identity env = Inr fp)"

lemma on_incoming_offers:
  assumes "holder_inv (sp_holder s)" and "map_of (sp_holder s) (rq_code req) = Some i"
    and "inv_state i = PendingInv e" "e_now env < e"
    and "env_works env" and "e_offer env (probe_space env) = Inr offer"
  shows "on_incoming env session (Request req) s =
    s\<lparr>sp_holder := AList.delete (rq_code req) (sp_holder s),
      sp_sessions := (sp_sessions s)(session \<mapsto>
        \<lparr>cx_space = jo_space offer, cx_nonce = jo_nonce offer, cx_core_session = session,
         cx_joiner = facts_of req, cx_timer = True\<rparr>),
      sp_sent := sp_sent s @ [(session, KeyslotOffer \<lparr>ko_space = jo_space offer, ko_keyslot = jo_keyslot offer,
         ko_challenge = jo_nonce offer, ko_session = session\<rparr>)]\<rparr>"
proof -
  have "inv_code i = rq_code req" using holder_inv_lookup assms(1,2) by blast
  with assms have "take_matching (rq_code req) (e_now env) (sp_holder s) =
      (Inr (i\<lparr>inv_state := ConsumedInv\<rparr>), AList.delete (rq_code req) (sp_holder s))"
    by (simp add: take_matching_def consume_def Let_def)
  with assms show ?thesis
    by (simp add: on_incoming_def match_invitation_def begin_handshake_def Let_def send_message_def
        arm_timeout_def env_works_def)
qed

lemma verify_challenge_good:
  assumes "sp_sessions s session = Some ctx" "e_proof_key env = Some (Inr (Some key))"
    "sp_cache s (cx_core_session ctx, cx_space ctx, cx_nonce ctx) = None"
  shows "verify_challenge env session response s =
    (Some (if e_hmac env key (proof_payload (cx_core_session ctx) (cx_space ctx) (cx_nonce ctx)) = response
           then Verified (cx_joiner ctx) else ProofRejected),
     s\<lparr>sp_cache := (sp_cache s)((cx_core_session ctx, cx_space ctx, cx_nonce ctx) \<mapsto> key)\<rparr>)"
  using assms by (simp add: verify_challenge_def verify_proof_def)

lemma confirm_handshake_works:
  assumes "sp_sessions s session = Some ctx" "env_works env"
  shows "\<exists>c. confirm_handshake env session s =
      (True, s\<lparr>sp_sessions := (sp_sessions s)(session := None), sp_sent := sp_sent s @ [(session, Confirm c)],
               sp_closed := sp_closed s @ [session]\<rparr>) \<and>
    sc_space c = cx_space ctx \<and> sc_device c = sp_device s \<and> e_identity env = Inr (sc_fingerprint c)"
  using assms by (auto simp: confirm_handshake_def env_works_def Let_def send_message_def drop_ctx_def
      close_session_def)

lemma finalise_works:
  assumes ctx: "sp_sessions s session = Some ctx" and works: "env_works env"
  obtains c m p s' where "finalise_verified env session facts s = s'"
    "sp_sent s' = sp_sent s @ [(session, Confirm c)]" "sc_space c = cx_space ctx"
    "sc_device c = sp_device s" "e_identity env = Inr (sc_fingerprint c)"
    "sp_members s' (jf_device facts) = Some m" "sm_name m = jf_name facts" "sm_fingerprint m = jf_fingerprint facts"
    "sp_peers s' = (sp_peers s)(jf_device facts \<mapsto>
       \<lparr>tp_local = sp_device s, tp_peer = jf_device facts, tp_fingerprint = jf_fingerprint facts,
        tp_trusted_at = e_now env\<rparr>)"
    "sp_sessions s' session = None" "sp_holder s' = sp_holder s" "session \<in> set (sp_closed s')"
proof -
  define ms where "ms = snd (admit_member None None
                \<lparr>sm_device = jf_device facts, sm_name = jf_name facts,
                 sm_fingerprint = jf_fingerprint facts, sm_joined_at = e_now env,
                 sm_preferences = e_default_preferences env\<rparr> (sp_members s))"
  define s1 where "s1 = s\<lparr>sp_members := ms, sp_peers := (sp_peers s)(jf_device facts \<mapsto>
       \<lparr>tp_local = sp_device s, tp_peer = jf_device facts, tp_fingerprint = jf_fingerprint facts,
        tp_trusted_at = e_now env\<rparr>)\<rparr>"
  have "sp_sessions s1 session = Some ctx" using ctx by (simp add: s1_def)
  from confirm_handshake_works [OF this works] obtain c where c: "confirm_handshake env session s1 =
      (True, s1\<lparr>sp_sessions := (sp_sessions s1)(session := None), sp_sent := sp_sent s1 @ [(session, Confirm c)],
               sp_closed := sp_closed s1 @ [session]\<rparr>)"
    "sc_space c = cx_space ctx" "sc_device c = sp_device s1" "e_identity env = Inr (sc_fingerprint c)" by blast
  show ?thesis
    using works c by (intro that [OF refl, of c])
      (auto simp: finalise_verified_def env_works_def admit_member_def trust_peer_def Let_def
        persist_peer_address_def s1_def ms_def)
qed

lemma send_request_fields:
  "send_request env code = Inr (fp, req) \<Longrightarrow>
   rq_code req = code \<and> rq_device req = n_device env \<and> rq_fingerprint req = fp"
  by (auto simp: send_request_def Let_def split: sum.splits option.splits if_splits)

lemma handshake_run:
  assumes req: "send_request jenv code = Inr (fp, req)"
    and inv: "holder_inv (sp_holder s)" "map_of (sp_holder s) code = Some i"
      "inv_state i = PendingInv e" "e_now env1 < e"
    and works: "env_works env1" "env_works env2" "\<not> e_timeout_between env2"
    and offer: "e_offer env1 (probe_space env1) = Inr offer" "length (jo_nonce offer) = 32"
    and key: "n_derive jenv offer passphrase = Inr key" "e_proof_key env2 = Some (Inr (Some key))"
      "e_hmac env2 = n_hmac jenv"
    and fresh: "sp_cache s (session, jo_space offer, jo_nonce offer) = None"
    and sends: "\<forall>m. n_send jenv m = None"
  shows "\<exists>k r c out.
     sp_sent (on_incoming env1 session (Request req) s) = sp_sent s @ [(session, k)] \<and>
     joiner_response jenv passphrase (Received k) = Inr r \<and>
     sp_sent (on_message_received env2 session (ChallengeResponse r)
        (on_incoming env1 session (Request req) s)) = sp_sent s @ [(session, k), (session, Confirm c)] \<and>
     joiner_drive jenv code passphrase (Received k) (Received (Confirm c)) = Inr out \<and>
     jn_sponsor_device out = sp_device s \<and> jn_space out = jo_space offer \<and>
     e_identity env2 = Inr (jn_sponsor_fingerprint out) \<and>
     (let s' = on_message_received env2 session (ChallengeResponse r) (on_incoming env1 session (Request req) s) in
        (\<exists>m. sp_members s' (n_device jenv) = Some m \<and> sm_fingerprint m = fp) \<and>
        sp_peers s' (n_device jenv) = Some \<lparr>tp_local = sp_device s, tp_peer = n_device jenv,
          tp_fingerprint = fp, tp_trusted_at = e_now env2\<rparr> \<and>
        sp_sessions s' session = None \<and> map_of (sp_holder s') code = None)"
proof -
  note rq = send_request_fields [OF req]
  define k where "k = KeyslotOffer \<lparr>ko_space = jo_space offer, ko_keyslot = jo_keyslot offer,
         ko_challenge = jo_nonce offer, ko_session = session\<rparr>"
  define ctx where "ctx = \<lparr>cx_space = jo_space offer, cx_nonce = jo_nonce offer, cx_core_session = session,
         cx_joiner = facts_of req, cx_timer = True\<rparr>"
  define s1 where "s1 = on_incoming env1 session (Request req) s"
  define r where "r = n_hmac jenv key (proof_payload session (jo_space offer) (jo_nonce offer))"
  have s1: "s1 = s\<lparr>sp_holder := AList.delete code (sp_holder s),
      sp_sessions := (sp_sessions s)(session \<mapsto> ctx), sp_sent := sp_sent s @ [(session, k)]\<rparr>"
    using on_incoming_offers [OF inv(1) _ inv(3,4) works(1) offer(1)] inv(2) rq
    by (simp add: s1_def k_def ctx_def)
  have jo: "\<lparr>jo_space = jo_space offer, jo_keyslot = jo_keyslot offer, jo_nonce = jo_nonce offer\<rparr> = offer"
    by simp
  have resp: "joiner_response jenv passphrase (Received k) = Inr r"
    using key offer(2) sends by (simp add: joiner_response_def k_def r_def challenge_to_array_def build_proof_def Let_def jo)
  define s2 where "s2 = s1\<lparr>sp_cache := (sp_cache s1)((session, jo_space offer, jo_nonce offer) \<mapsto> key)\<rparr>"
  have ver: "verify_challenge env2 session r s1 = (Some (Verified (facts_of req)), s2)"
    using verify_challenge_good [of s1 session ctx env2 key r] fresh key by (simp add: s1 ctx_def r_def s2_def)
  define s' where "s' = on_message_received env2 session (ChallengeResponse r) s1"
  have s': "s' = finalise_verified env2 session (facts_of req) s2"
    using ver works(3) by (simp add: s'_def on_message_received_def Let_def)
  have c2: "sp_sessions s2 session = Some ctx" by (simp add: s2_def s1)
  obtain c m where c: "sp_sent s' = sp_sent s2 @ [(session, Confirm c)]" "sc_space c = cx_space ctx"
    "sc_device c = sp_device s2" "e_identity env2 = Inr (sc_fingerprint c)"
    and m: "sp_members s' (jf_device (facts_of req)) = Some m" "sm_fingerprint m = jf_fingerprint (facts_of req)"
    and p: "sp_peers s' = (sp_peers s2)(jf_device (facts_of req) \<mapsto>
       \<lparr>tp_local = sp_device s2, tp_peer = jf_device (facts_of req),
        tp_fingerprint = jf_fingerprint (facts_of req), tp_trusted_at = e_now env2\<rparr>)"
    and z: "sp_sessions s' session = None" "sp_holder s' = sp_holder s2"
    using finalise_works [OF c2 works(2), of "facts_of req"] s' by metis
  obtain out where out: "joiner_drive jenv code passphrase (Received k) (Received (Confirm c)) = Inr out"
    "jn_sponsor_device out = sc_device c" "jn_space out = sc_space c" "jn_sponsor_fingerprint out = sc_fingerprint c"
    by (simp add: joiner_drive_def req resp joiner_finish_def)
  have s1f: "sp_sent s1 = sp_sent s @ [(session, k)]" "sp_device s2 = sp_device s"
    "sp_sent s2 = sp_sent s @ [(session, k)]" "sp_holder s2 = AList.delete code (sp_holder s)"
    by (simp_all add: s2_def s1)
  show ?thesis
    unfolding s1_def [symmetric]
    by (rule exI [of _ k], rule exI [of _ r], rule exI [of _ c], rule exI [of _ out])
      (use resp c m p z out rq s1f in
        \<open>simp add: s'_def [symmetric] ctx_def facts_of_def Let_def AList.delete_conv'\<close>)
qed

text \<open>A wrong proof changes neither the members nor the trusted peers and ends the session.\<close>

lemma wrong_proof:
  assumes ctx: "sp_sessions s session = Some ctx" and key: "e_proof_key env = Some (Inr (Some key))"
    and fresh: "sp_cache s (cx_core_session ctx, cx_space ctx, cx_nonce ctx) = None"
    and wrong: "e_hmac env key (proof_payload (cx_core_session ctx) (cx_space ctx) (cx_nonce ctx)) \<noteq> response"
    and env: "\<forall>m. e_send env m" "\<not> e_timeout_between env"
  shows "let s' = on_message_received env session (ChallengeResponse response) s in
    sp_members s' = sp_members s \<and> sp_peers s' = sp_peers s \<and> sp_sessions s' session = None \<and>
    sp_sent s' = sp_sent s @ [(session, Reject PassphraseMismatch)] \<and>
    sp_closed s' = sp_closed s @ [session] \<and> sp_outcomes s' = sp_outcomes s @ [PairingFailure FailPassphraseMismatch]"
  using verify_challenge_good [OF ctx key fresh, of response] wrong env
  by (simp add: on_message_received_def Let_def sponsor_frame)

text \<open>
  The watchdog is not disarmed by the verification: when it runs between the verification and the
  rest of the handler, the joiner is told that the pairing timed out, and yet it is stored as a
  member and as a trusted peer.
\<close>

lemma late_timeout:
  assumes ctx: "sp_sessions s session = Some ctx" and key: "e_proof_key env = Some (Inr (Some key))"
    and fresh: "sp_cache s (cx_core_session ctx, cx_space ctx, cx_nonce ctx) = None"
    and right: "e_hmac env key (proof_payload (cx_core_session ctx) (cx_space ctx) (cx_nonce ctx)) = response"
    and env: "env_works env" "e_timeout_between env"
  shows "let s' = on_message_received env session (ChallengeResponse response) s in
    sp_sent s' = sp_sent s @ [(session, Reject RejectTimeout)] \<and>
    sp_outcomes s' = sp_outcomes s @ [PairingFailure FailConnectionLost] \<and>
    sp_members s' (jf_device (cx_joiner ctx)) \<noteq> None \<and> sp_peers s' (jf_device (cx_joiner ctx)) \<noteq> None"
  using verify_challenge_good [OF ctx key fresh, of response] right env ctx
  by (simp add: on_message_received_def Let_def fire_timeout_def sponsor_frame finalise_verified_def
      env_works_def admit_member_def trust_peer_def confirm_handshake_def)

section \<open>What the joiner stores\<close>

text \<open>
  The set-up counts as complete only once the sponsor is stored as a member and as a trusted peer
  with the fingerprint the handshake delivered, and an error leaves it as it was.
\<close>

lemma persist_completes_last:
  assumes "persist_outcome ok now ag as tg ts status_ok addr_ok prefs out st = (r, st')"
  shows "r = Inr out \<Longrightarrow> js_completed st' \<and> js_space st' = Some (jn_space out) \<and>
      (\<exists>m. js_members st' (jn_sponsor_device out) = Some m \<and> sm_fingerprint m = jn_sponsor_fingerprint out) \<and>
      (\<exists>p. js_peers st' (jn_sponsor_device out) = Some p \<and> tp_fingerprint p = jn_sponsor_fingerprint out)"
    and "r = Inl e \<Longrightarrow> js_completed st' = js_completed st \<and> js_space st' = js_space st \<and> js_addrs st' = js_addrs st"
  using assms
  by (auto simp: persist_outcome_def admit_member_def trust_peer_def Let_def
      split: if_splits option.splits)

end
