(* ===== verification/File_Capture.thy ===== *)
theory File_Capture
  imports Content_Identity
begin

text \<open>
  The manifest of copied files, built when a snapshot with file representations is captured:
  \<^verbatim>\<open>uc-application/clipboard_capture/usecase.rs\<close>, \<^verbatim>\<open>build_entry_file_set\<close> and what it
  calls, and \<^verbatim>\<open>facade/clipboard_outbound/file_uri_line.rs\<close>.

  The file system is a finite tree under each root, as \<^verbatim>\<open>symlink_metadata\<close> and
  \<^verbatim>\<open>read_dir\<close> of the standard library show it; it does not change during one capture. Paths are
  those of Unix. The URL parser, Unicode normalisation (NFC) and the content hash of a path are
  parameters; the parameter \<open>nfc\<close> stands for the lossy conversion to a string followed by the
  normalisation. The path of a \<^verbatim>\<open>LocalFile\<close> is a string already.
\<close>

section \<open>The file system\<close>

text \<open>
  A directory that cannot be listed has no content; \<open>FAbsent\<close> is a path whose metadata cannot be
  read. A file has a size and an executable bit.
\<close>

datatype fs_node =
    FDir "(string \<times> fs_node) list option"
  | FFile nat bool
  | FSymlink
  | FSpecial
  | FAbsent

definition path_join :: "string \<Rightarrow> string \<Rightarrow> string" where
  "path_join dir name =
     (if dir = [] \<or> ends_with [CHR ''/''] dir then dir @ name else dir @ ''/'' @ name)"

text \<open>\<^verbatim>\<open>Path::file_name\<close>.\<close>

definition path_file_name :: "string \<Rightarrow> string option" where
  "path_file_name p =
     (case filter (\<lambda>c. c \<noteq> [] \<and> c \<noteq> ''.'') (split_on (CHR ''/'') p) of
        [] \<Rightarrow> None
      | cs \<Rightarrow> if last cs = ''..'' then None else Some (last cs))"

definition normalized_basename :: "(string \<Rightarrow> string) \<Rightarrow> string \<Rightarrow> string" where
  "normalized_basename nfc p = (case path_file_name p of None \<Rightarrow> ''.'' | Some n \<Rightarrow> nfc n)"

definition mk_member_kind :: "bool \<Rightarrow> member_kind" where
  "mk_member_kind executable = (if executable then ExecutableM else FileM)"

section \<open>Lines of a URI list\<close>

datatype uri_line_kind = UriFile string | UriNonFile

text \<open>What the URL library says of a text: its scheme, and its path if it is one of a file.\<close>

type_synonym url_file = "string \<Rightarrow> (string \<times> string option) option"

definition parse_uri_list_line :: "url_file \<Rightarrow> string \<Rightarrow> uri_line_kind" where
  "parse_uri_list_line url raw_line =
     (let line = trim raw_line in
      if line = [] \<or> starts_with ''#'' line then UriNonFile
      else (case url line of
        None \<Rightarrow> UriNonFile
      | Some (scheme, path) \<Rightarrow>
          if scheme \<noteq> ''file'' then UriNonFile
          else (case path of None \<Rightarrow> UriNonFile | Some p \<Rightarrow> UriFile p)))"

section \<open>Caps and the budget\<close>

record file_set_caps =
  max_total_bytes :: nat
  max_member_count :: nat

definition fallback_caps :: file_set_caps where
  "fallback_caps = \<lparr>max_total_bytes = 1024 * 1024 * 1024, max_member_count = 2000\<rparr>"

record budget =
  b_count :: nat
  b_bytes :: nat

definition u64_max :: nat where "u64_max = 2 ^ 64 - 1"

definition u64_sat :: "nat \<Rightarrow> nat" where "u64_sat n = min u64_max n"

definition over_caps :: "file_set_caps \<Rightarrow> budget \<Rightarrow> bool" where
  "over_caps caps b \<longleftrightarrow>
     0 < max_member_count caps \<and> max_member_count caps < b_count b \<or>
     0 < max_total_bytes caps \<and> max_total_bytes caps < b_bytes b"

definition admit :: "nat \<Rightarrow> file_set_caps \<Rightarrow> budget \<Rightarrow> bool \<times> budget" where
  "admit sz caps b =
     (let b' = \<lparr>b_count = u64_sat (b_count b + 1), b_bytes = u64_sat (b_bytes b + sz)\<rparr> in
      (over_caps caps b', b'))"

section \<open>Roots and pending lines\<close>

record top_level_member =
  tm_index :: int
  tm_root :: int
  tm_text :: string
  tm_name :: string
  tm_path :: string
  tm_known_size :: "nat option"

record pending_line =
  pl_index :: int
  pl_text :: string
  pl_location :: member_location
  pl_path :: "string option"

datatype expansion_failure = CapF | UnsupportedF | IngestF

fun failure_reason_of :: "expansion_failure \<Rightarrow> exclude_reason" where
  "failure_reason_of CapF = SizeCapExceeded"
| "failure_reason_of UnsupportedF = UnsupportedMember"
| "failure_reason_of IngestF = IngestFailed"

definition next_index :: "int \<Rightarrow> int" where "next_index n = i64_sat (n + 1)"

definition root_line :: "top_level_member \<Rightarrow> int \<Rightarrow> string \<Rightarrow> member_kind \<Rightarrow> string option \<Rightarrow> pending_line" where
  "root_line tm idx rel k path =
     \<lparr>pl_index = idx, pl_text = tm_text tm,
      pl_location = \<lparr>root_index = tm_root tm, root_name = tm_name tm, relative_path = rel,
                     member_kind = k\<rparr>,
      pl_path = path\<rparr>"

definition directory_marker :: "top_level_member \<Rightarrow> int \<Rightarrow> string \<Rightarrow> pending_line" where
  "directory_marker tm idx rel = root_line tm idx (if rel = [] then ''.'' else rel) FileM None"

definition pending_flat_file :: "(string \<Rightarrow> string) \<Rightarrow> top_level_member \<Rightarrow> bool \<Rightarrow> pending_line" where
  "pending_flat_file nfc tm executable =
     root_line tm (tm_index tm) (normalized_basename nfc (tm_path tm))
       (mk_member_kind executable) (Some (tm_path tm))"

definition pending_missing_file :: "(string \<Rightarrow> string) \<Rightarrow> top_level_member \<Rightarrow> pending_line" where
  "pending_missing_file nfc tm =
     root_line tm (tm_index tm) (normalized_basename nfc (tm_path tm)) FileM (Some (tm_path tm))"

definition pending_root_marker :: "top_level_member \<Rightarrow> int \<Rightarrow> pending_line" where
  "pending_root_marker tm idx = root_line tm idx ''.'' FileM None"

definition excluded_root_line ::
  "(string \<Rightarrow> string) \<Rightarrow> exclude_reason \<Rightarrow> top_level_member \<Rightarrow> file_set_line" where
  "excluded_root_line nfc reason tm =
     \<lparr>line_index = tm_index tm, original_text = tm_text tm,
      member_location = Some \<lparr>root_index = tm_root tm, root_name = tm_name tm,
        relative_path = normalized_basename nfc (tm_path tm), member_kind = FileM\<rparr>,
      line_kind = ExcludedLine reason\<rparr>"

section \<open>Expanding a directory\<close>

text \<open>The state of the traversal: the next line index, the budget and the lines so far.\<close>

type_synonym walk = "int \<times> budget \<times> pending_line list"

type_synonym queue_item = "string \<times> string \<times> (string \<times> fs_node) list option"

definition child_path :: "string \<Rightarrow> string \<Rightarrow> string" where
  "child_path rel name = (if rel = [] then name else rel @ ''/'' @ name)"

text \<open>One pass over the sorted entries of a directory; subdirectories go to the queue.\<close>

fun expand_entries ::
  "(string \<Rightarrow> string) \<Rightarrow> file_set_caps \<Rightarrow> top_level_member \<Rightarrow> string \<Rightarrow> string \<Rightarrow>
   (string \<times> fs_node) list \<Rightarrow> walk \<Rightarrow> queue_item list \<Rightarrow>
   (expansion_failure \<times> pending_line) + (walk \<times> queue_item list)" where
  "expand_entries nfc caps tm dir rel [] w q = Inr (w, q)"
| "expand_entries nfc caps tm dir rel ((name, node) # es) (idx, b, pending) q =
     (if \<not> utf8_valid (str_bytes name) then Inl (UnsupportedF, directory_marker tm idx rel)
      else
        (let r = child_path rel (nfc name); path = path_join dir name in
         case node of
           FAbsent \<Rightarrow> Inl (IngestF, directory_marker tm idx r)
         | FSymlink \<Rightarrow> Inl (UnsupportedF, directory_marker tm idx r)
         | FDir content \<Rightarrow>
             expand_entries nfc caps tm dir rel es (idx, b, pending) (q @ [(path, r, content)])
         | FSpecial \<Rightarrow> Inl (UnsupportedF, directory_marker tm idx r)
         | FFile sz executable \<Rightarrow>
             (let member = root_line tm idx r (mk_member_kind executable) (Some path) in
              case admit sz caps b of
                (True, _) \<Rightarrow> Inl (CapF, member)
              | (False, b') \<Rightarrow>
                  expand_entries nfc caps tm dir rel es (next_index idx, b', pending @ [member]) q)))"

fun fs_weight :: "fs_node \<Rightarrow> nat" where
  "fs_weight (FDir None) = 1"
| "fs_weight (FDir (Some es)) = 1 + sum_list (map (\<lambda>e. fs_weight (snd e)) es)"
| "fs_weight _ = 1"

definition item_weight :: "queue_item \<Rightarrow> nat" where
  "item_weight i = fs_weight (FDir (snd (snd i)))"

lemma fs_weight_pos [simp]: "0 < fs_weight n"
  by (cases n rule: fs_weight.cases) auto

text \<open>A step over one entry that does not stop the traversal.\<close>

lemma expand_entries_Cons:
  assumes "expand_entries nfc caps tm dir rel ((name, node) # es) (idx, b, pending) q = Inr (w', q')"
  obtains (Dir) content where "utf8_valid (str_bytes name)" and "node = FDir content"
      and "expand_entries nfc caps tm dir rel es (idx, b, pending)
             (q @ [(path_join dir name, child_path rel (nfc name), content)]) = Inr (w', q')"
    | (Reg) sz x b' where "utf8_valid (str_bytes name)" and "node = FFile sz x" and "admit sz caps b = (False, b')"
      and "expand_entries nfc caps tm dir rel es
             (next_index idx, b', pending @ [root_line tm idx (child_path rel (nfc name)) (mk_member_kind x)
                                               (Some (path_join dir name))]) q = Inr (w', q')"
proof (cases node)
  case (FDir content)
  with assms Dir show thesis by (simp add: Let_def split: if_splits)
next
  case (FFile sz x)
  obtain over b' where "admit sz caps b = (over, b')" by (cases "admit sz caps b")
  with assms FFile Reg show thesis
    by (cases over) (simp_all add: Let_def split: if_splits)
qed (use assms in \<open>simp_all add: Let_def split: if_splits\<close>)

lemma weight_sum_le:
  "expand_entries nfc caps tm dir rel es w q = Inr (w', q') \<Longrightarrow>
   sum_list (map item_weight q') = sum_list (map item_weight q)
     + sum_list (map (\<lambda>e. case snd e of FDir _ \<Rightarrow> fs_weight (snd e) | _ \<Rightarrow> 0) es)"
proof (induction es arbitrary: w q)
  case (Cons e es)
  obtain name node idx b pending where e: "e = (name, node)" "w = (idx, b, pending)"
    by (metis prod.exhaust)
  from Cons.prems [unfolded e] show ?case
    by (cases rule: expand_entries_Cons) (auto simp: e item_weight_def dest!: Cons.IH)
qed simp

lemma weight_sum_bound:
  "sum_list (map (\<lambda>e. case snd e of FDir _ \<Rightarrow> fs_weight (snd e) | _ \<Rightarrow> 0) es)
     \<le> sum_list (map (\<lambda>e. fs_weight (snd e)) es)"
  by (rule sum_list_mono) (simp split: fs_node.split)

lemma sum_list_sort_key: "sum_list (map f (sort_key k xs)) = (sum_list (map f xs) :: nat)"
  by (metis mset_map mset_sort sum_mset_sum_list)

text \<open>The loop over the queue of directories.\<close>

function expand_loop ::
  "(string \<Rightarrow> string) \<Rightarrow> file_set_caps \<Rightarrow> top_level_member \<Rightarrow> queue_item list \<Rightarrow> walk \<Rightarrow>
   (expansion_failure \<times> pending_line) + walk" where
  "expand_loop nfc caps tm [] w = Inr w"
| "expand_loop nfc caps tm ((dir, rel, None) # q) (idx, b, pending) =
     Inl (IngestF, directory_marker tm idx rel)"
| "expand_loop nfc caps tm ((dir, rel, Some es) # q) (idx, b, pending) =
     (let entries = sort_key fst es in
      if entries = [] then
        (let marker = root_line tm idx (if rel = [] then ''.'' else rel) EmptyDirectoryM None in
         case admit 0 caps b of
           (True, _) \<Rightarrow> Inl (CapF, marker)
         | (False, b') \<Rightarrow> expand_loop nfc caps tm q (next_index idx, b', pending @ [marker]))
      else
        (case expand_entries nfc caps tm dir rel entries (idx, b, pending) q of
           Inl e \<Rightarrow> Inl e
         | Inr (w', q') \<Rightarrow> expand_loop nfc caps tm q' w'))"
  by pat_completeness auto

termination
proof (relation "measure (\<lambda>(_, _, _, q, _). sum_list (map item_weight q))", goal_cases)
  case (3 nfc caps tm dir rel es q idx b pending x y w' q')
  then show ?case
    using weight_sum_le [of nfc caps tm dir rel "sort_key fst es" "(idx, b, pending)" q w' q']
      weight_sum_bound [of "sort_key fst es"]
    by (simp add: item_weight_def sum_list_sort_key)
qed (auto simp: item_weight_def)

declare expand_loop.simps(3) [simp del]

definition expand_directory ::
  "(string \<Rightarrow> string) \<Rightarrow> file_set_caps \<Rightarrow> top_level_member \<Rightarrow> (string \<times> fs_node) list option \<Rightarrow>
   int \<Rightarrow> budget \<Rightarrow> (expansion_failure \<times> pending_line) + walk" where
  "expand_directory nfc caps tm content idx b =
     expand_loop nfc caps tm [(tm_path tm, [], content)] (idx, b, [])"

section \<open>The manifest\<close>

text \<open>The loop over the roots: the lines so far and, when it stopped early, why and what is left.\<close>

fun walk_roots ::
  "(string \<Rightarrow> string) \<Rightarrow> (string \<Rightarrow> fs_node) \<Rightarrow> file_set_caps \<Rightarrow> top_level_member list \<Rightarrow> walk \<Rightarrow>
   pending_line list \<times> (expansion_failure \<times> top_level_member list) option" where
  "walk_roots nfc fs caps [] (idx, b, pending) = (pending, None)"
| "walk_roots nfc fs caps (tm # roots) (idx, b, pending) =
     (case fs (tm_path tm) of
        FSymlink \<Rightarrow> (pending @ [pending_root_marker tm idx], Some (UnsupportedF, roots))
      | FDir content \<Rightarrow>
          (case expand_directory nfc caps tm content idx b of
             Inr (idx', b', members) \<Rightarrow> walk_roots nfc fs caps roots (idx', b', pending @ members)
           | Inl (reason, marker) \<Rightarrow> (pending @ [marker], Some (reason, roots)))
      | FFile len executable \<Rightarrow>
          (let sz = (case tm_known_size tm of Some n \<Rightarrow> n | None \<Rightarrow> len);
               line = pending_flat_file nfc tm executable in
           case admit sz caps b of
             (True, _) \<Rightarrow> (pending @ [line], Some (CapF, roots))
           | (False, b') \<Rightarrow> walk_roots nfc fs caps roots (idx, b', pending @ [line]))
      | FSpecial \<Rightarrow> (pending @ [pending_root_marker tm idx], Some (UnsupportedF, roots))
      | FAbsent \<Rightarrow>
          (let sz = (case tm_known_size tm of Some n \<Rightarrow> n | None \<Rightarrow> 0);
               line = pending_missing_file nfc tm in
           case admit sz caps b of
             (True, _) \<Rightarrow> (pending @ [line], Some (CapF, roots))
           | (False, b') \<Rightarrow> walk_roots nfc fs caps roots (idx, b', pending @ [line])))"

text \<open>\<open>hash_path\<close> is the content hash of a path, or an error.\<close>

definition classify_file_path :: "(string \<Rightarrow> string + digest) \<Rightarrow> string \<Rightarrow> bool \<Rightarrow> line_kind" where
  "classify_file_path hash_path path over_cap =
     (if over_cap then ExcludedLine SizeCapExceeded
      else (case hash_path path of
              Inr h \<Rightarrow> FileLine h None None
            | Inl _ \<Rightarrow> ExcludedLine IngestFailed))"

definition excluded_pending :: "exclude_reason \<Rightarrow> pending_line \<Rightarrow> file_set_line" where
  "excluded_pending reason l =
     \<lparr>line_index = pl_index l, original_text = pl_text l, member_location = Some (pl_location l),
      line_kind = ExcludedLine reason\<rparr>"

definition hashed_pending :: "(string \<Rightarrow> string + digest) \<Rightarrow> pending_line \<Rightarrow> file_set_line" where
  "hashed_pending hash_path l =
     \<lparr>line_index = pl_index l, original_text = pl_text l, member_location = Some (pl_location l),
      line_kind = (case pl_path l of
                     Some path \<Rightarrow> classify_file_path hash_path path False
                   | None \<Rightarrow> NonFileLine)\<rparr>"

definition failed_root_line :: "(string \<Rightarrow> string) \<Rightarrow> top_level_member \<Rightarrow> pending_line" where
  "failed_root_line nfc tm =
     root_line tm (tm_index tm) (normalized_basename nfc (tm_path tm)) FileM None"

definition build_file_member_lines ::
  "(string \<Rightarrow> string) \<Rightarrow> (string \<Rightarrow> fs_node) \<Rightarrow> (string \<Rightarrow> string + digest) \<Rightarrow> file_set_caps \<Rightarrow>
   top_level_member list \<Rightarrow> file_set_line list \<Rightarrow> int \<Rightarrow> file_set_line list" where
  "build_file_member_lines nfc fs hash_path caps roots lines top_level_count =
     (if 0 < max_member_count caps \<and> max_member_count caps < length roots
      then sort_key line_index (lines @ map (excluded_root_line nfc SizeCapExceeded) roots)
      else
        (case walk_roots nfc fs caps roots (top_level_count, \<lparr>b_count = 0, b_bytes = 0\<rparr>, []) of
           (pending, Some (failure, rest)) \<Rightarrow>
             sort_key line_index
               (lines @ map (excluded_pending (failure_reason_of failure))
                          (pending @ map (failed_root_line nfc) rest))
         | (pending, None) \<Rightarrow> sort_key line_index (lines @ map (hashed_pending hash_path) pending)))"

definition local_file_roots :: "(string \<Rightarrow> string) \<Rightarrow> snapshot \<Rightarrow> top_level_member list" where
  "local_file_roots nfc s =
     map (\<lambda>(i, path, n).
            \<lparr>tm_index = int i, tm_root = int i, tm_text = path, tm_name = normalized_basename nfc path,
             tm_path = path, tm_known_size = Some n\<rparr>)
       (enumerate 0 (List.map_filter
          (\<lambda>r. case rep_source r of LocalFile path n \<Rightarrow> Some (path, n) | Inline _ \<Rightarrow> None)
          (representations s)))"

text \<open>The loop over the lines of the URI list: file members, other lines and the next root.\<close>

fun split_uri_lines ::
  "(string \<Rightarrow> string) \<Rightarrow> url_file \<Rightarrow> int \<Rightarrow> int \<Rightarrow> string list \<Rightarrow> top_level_member list \<times> file_set_line list"
  where
  "split_uri_lines nfc url idx ri [] = ([], [])"
| "split_uri_lines nfc url idx ri (raw # raws) =
     (case parse_uri_list_line url raw of
        UriFile path \<Rightarrow>
          (case split_uri_lines nfc url (idx + 1) (i64_sat (ri + 1)) raws of
             (ms, ns) \<Rightarrow>
               (\<lparr>tm_index = idx, tm_root = ri, tm_text = raw, tm_name = normalized_basename nfc path,
                 tm_path = path, tm_known_size = None\<rparr> # ms, ns))
      | UriNonFile \<Rightarrow>
          (case split_uri_lines nfc url (idx + 1) ri raws of
             (ms, ns) \<Rightarrow>
               (ms, \<lparr>line_index = idx, original_text = raw, member_location = None,
                     line_kind = NonFileLine\<rparr> # ns)))"

definition uri_list_text :: "snapshot \<Rightarrow> string option" where
  "uri_list_text s =
     (case List.map_filter
        (\<lambda>r. if \<not> is_file_mime_or_format (mime r) (format_id r) then None
             else Option.bind (inline_bytes r) from_utf8) (representations s) of
        [] \<Rightarrow> None
      | t # _ \<Rightarrow> Some t)"

definition build_entry_file_set ::
  "(string \<Rightarrow> string) \<Rightarrow> url_file \<Rightarrow> (string \<Rightarrow> fs_node) \<Rightarrow> (string \<Rightarrow> string + digest) \<Rightarrow>
   file_set_caps \<Rightarrow> snapshot \<Rightarrow> file_set option" where
  "build_entry_file_set nfc url fs hash_path caps s =
     (let roots = local_file_roots nfc s in
      if roots \<noteq> [] then
        Some (build_file_member_lines nfc fs hash_path caps roots [] (int (length roots)))
      else (case uri_list_text s of
        None \<Rightarrow> None
      | Some text \<Rightarrow>
          (case split_uri_lines nfc url 0 0 (str_lines text) of
             (members, others) \<Rightarrow>
               Some (build_file_member_lines nfc fs hash_path caps members others
                       (int (length (str_lines text)))))))"

section \<open>The members of a tree\<close>

text \<open>The specification: what a tree contributes, by recursion on it, and when it is acceptable.\<close>

fun tree_members ::
  "(string \<Rightarrow> string) \<Rightarrow> string \<Rightarrow> string \<Rightarrow> fs_node \<Rightarrow> (string \<times> member_kind \<times> string option) list" where
  "tree_members nfc path rel (FFile sz x) = [(rel, mk_member_kind x, Some path)]"
| "tree_members nfc path rel (FDir (Some es)) =
     (if es = [] then [(if rel = [] then ''.'' else rel, EmptyDirectoryM, None)]
      else concat (map (\<lambda>(name, n). tree_members nfc (path_join path name) (child_path rel (nfc name)) n) es))"
| "tree_members nfc path rel _ = []"

fun tree_ok :: "fs_node \<Rightarrow> bool" where
  "tree_ok (FFile sz x) = True"
| "tree_ok (FDir (Some es)) = (\<forall>(name, n) \<in> set es. utf8_valid (str_bytes name) \<and> tree_ok n)"
| "tree_ok _ = False"

fun tree_bytes :: "fs_node \<Rightarrow> nat" where
  "tree_bytes (FFile sz x) = sz"
| "tree_bytes (FDir (Some es)) = sum_list (map (\<lambda>e. tree_bytes (snd e)) es)"
| "tree_bytes _ = 0"

fun tree_count :: "fs_node \<Rightarrow> nat" where
  "tree_count (FFile sz x) = 1"
| "tree_count (FDir (Some es)) = (if es = [] then 1 else sum_list (map (\<lambda>e. tree_count (snd e)) es))"
| "tree_count _ = 0"

definition grow :: "nat \<Rightarrow> nat \<Rightarrow> budget \<Rightarrow> budget" where
  "grow n sz b = \<lparr>b_count = u64_sat (b_count b + n), b_bytes = u64_sat (b_bytes b + sz)\<rparr>"

definition member_view :: "pending_line \<Rightarrow> string \<times> member_kind \<times> string option" where
  "member_view l = (relative_path (pl_location l), member_kind (pl_location l), pl_path l)"

definition of_root :: "top_level_member \<Rightarrow> pending_line \<Rightarrow> bool" where
  "of_root tm l \<longleftrightarrow> pl_text l = tm_text tm \<and> root_index (pl_location l) = tm_root tm \<and>
     root_name (pl_location l) = tm_name tm"

lemma u64_sat_add: "u64_sat (u64_sat a + c) = u64_sat (a + c)"
  by (simp add: u64_sat_def min_def u64_max_def)

lemma u64_sat_mono: "a \<le> c \<Longrightarrow> u64_sat a \<le> u64_sat c"
  by (simp add: u64_sat_def min_def)

lemma grow_grow: "grow n' sz' (grow n sz b) = grow (n + n') (sz + sz') b"
  by (simp add: grow_def u64_sat_add add.assoc)

lemma admit_grow: "admit sz caps b = (over_caps caps (grow 1 sz b), grow 1 sz b)"
  by (simp add: admit_def grow_def Let_def)

lemma over_caps_grow:
  assumes "over_caps caps (grow n sz b)" and "n \<le> n'" and "sz \<le> sz'"
  shows "over_caps caps (grow n' sz' b)"
proof -
  have "u64_sat (b_count b + n) \<le> u64_sat (b_count b + n')" "u64_sat (b_bytes b + sz) \<le> u64_sat (b_bytes b + sz')"
    using assms(2,3) by (simp_all add: u64_sat_mono)
  with assms(1) show ?thesis by (auto simp: over_caps_def grow_def)
qed

lemma member_view_root_line: "member_view (root_line tm idx rel k path) = (rel, k, path)"
  by (simp add: member_view_def root_line_def)

lemma of_root_line: "of_root tm (root_line tm idx rel k path)"
  by (simp add: of_root_def root_line_def)

text \<open>
  The work of the traversal is a list of trees with their place; each step moves members from the
  trees to the lines and keeps the sum.
\<close>

type_synonym work = "(string \<times> string \<times> fs_node) list"

definition work_members :: "(string \<Rightarrow> string) \<Rightarrow> work \<Rightarrow> (string \<times> member_kind \<times> string option) list" where
  "work_members nfc W = concat (map (\<lambda>(path, rel, n). tree_members nfc path rel n) W)"

definition work_count :: "work \<Rightarrow> nat" where
  "work_count W = sum_list (map (\<lambda>(_, _, n). tree_count n) W)"

definition work_bytes :: "work \<Rightarrow> nat" where
  "work_bytes W = sum_list (map (\<lambda>(_, _, n). tree_bytes n) W)"

definition work_ok :: "work \<Rightarrow> bool" where
  "work_ok W \<longleftrightarrow> (\<forall>(_, _, n) \<in> set W. tree_ok n)"

definition queue_work :: "queue_item list \<Rightarrow> work" where
  "queue_work q = map (\<lambda>(d, r, c). (d, r, FDir c)) q"

definition entry_work :: "(string \<Rightarrow> string) \<Rightarrow> string \<Rightarrow> string \<Rightarrow> (string \<times> fs_node) list \<Rightarrow> work" where
  "entry_work nfc dir rel es = map (\<lambda>(name, n). (path_join dir name, child_path rel (nfc name), n)) es"

definition names_ok :: "(string \<times> fs_node) list \<Rightarrow> bool" where
  "names_ok es \<longleftrightarrow> (\<forall>(name, n) \<in> set es. utf8_valid (str_bytes name))"

named_theorems work_simps \<open>the parts of a list of work\<close>

lemma work_append [work_simps]:
  "work_members nfc (V @ W) = work_members nfc V @ work_members nfc W"
  "work_count (V @ W) = work_count V + work_count W"
  "work_bytes (V @ W) = work_bytes V + work_bytes W"
  "work_ok (V @ W) \<longleftrightarrow> work_ok V \<and> work_ok W"
  by (simp_all add: work_members_def work_count_def work_bytes_def work_ok_def ball_Un)

lemma work_Cons [work_simps]:
  "work_members nfc ((p, r, n) # W) = tree_members nfc p r n @ work_members nfc W"
  "work_count ((p, r, n) # W) = tree_count n + work_count W"
  "work_bytes ((p, r, n) # W) = tree_bytes n + work_bytes W"
  "work_ok ((p, r, n) # W) \<longleftrightarrow> tree_ok n \<and> work_ok W"
  by (auto simp: work_members_def work_count_def work_bytes_def work_ok_def)

lemma work_Nil [work_simps]:
  "work_members nfc [] = []" "work_count [] = 0" "work_bytes [] = 0" "work_ok []"
  by (simp_all add: work_members_def work_count_def work_bytes_def work_ok_def)

lemma queue_entry_work [work_simps]:
  "queue_work (q @ q') = queue_work q @ queue_work q'"
  "queue_work ((d, r, c) # q) = (d, r, FDir c) # queue_work q"
  "queue_work [] = []"
  "entry_work nfc dir rel ((name, n) # es) =
     (path_join dir name, child_path rel (nfc name), n) # entry_work nfc dir rel es"
  "entry_work nfc dir rel [] = []"
  by (simp_all add: queue_work_def entry_work_def)

text \<open>A directory that is not empty is the work of its entries, in whatever order they are listed.\<close>

lemma work_mset:
  assumes "mset V = mset W"
  shows "mset (work_members nfc V) = mset (work_members nfc W)" and "work_count V = work_count W"
    and "work_bytes V = work_bytes W" and "work_ok V = work_ok W"
proof -
  show "mset (work_members nfc V) = mset (work_members nfc W)"
    unfolding work_members_def by (rule mset_concat_mset) (simp add: assms)
  show "work_count V = work_count W" "work_bytes V = work_bytes W"
    unfolding work_count_def work_bytes_def
    by (metis assms mset_map sum_mset_sum_list)+
  show "work_ok V = work_ok W"
    unfolding work_ok_def using assms by (metis set_mset_mset)
qed

lemma dir_work:
  assumes "es \<noteq> []"
  shows "mset (tree_members nfc dir rel (FDir (Some es))) = mset (work_members nfc (entry_work nfc dir rel (sort_key fst es)))"
    and "tree_count (FDir (Some es)) = work_count (entry_work nfc dir rel (sort_key fst es))"
    and "tree_bytes (FDir (Some es)) = work_bytes (entry_work nfc dir rel (sort_key fst es))"
    and "tree_ok (FDir (Some es)) \<longleftrightarrow> names_ok (sort_key fst es) \<and> work_ok (entry_work nfc dir rel (sort_key fst es))"
proof -
  have m: "mset (entry_work nfc dir rel (sort_key fst es)) = mset (entry_work nfc dir rel es)"
    by (simp add: entry_work_def)
  note w = work_mset [OF m]
  show "mset (tree_members nfc dir rel (FDir (Some es))) = mset (work_members nfc (entry_work nfc dir rel (sort_key fst es)))"
    using assms by (simp only: w) (simp add: work_members_def entry_work_def comp_def case_prod_unfold)
  show "tree_count (FDir (Some es)) = work_count (entry_work nfc dir rel (sort_key fst es))"
    using assms by (simp only: w) (simp add: work_count_def entry_work_def comp_def case_prod_unfold)
  show "tree_bytes (FDir (Some es)) = work_bytes (entry_work nfc dir rel (sort_key fst es))"
    by (simp only: w) (simp add: work_bytes_def entry_work_def comp_def case_prod_unfold)
  show "tree_ok (FDir (Some es)) \<longleftrightarrow> names_ok (sort_key fst es) \<and> work_ok (entry_work nfc dir rel (sort_key fst es))"
    by (simp only: w) (auto simp: work_ok_def entry_work_def names_ok_def)
qed

section \<open>The traversal against the members of the tree\<close>

text \<open>
  What a part of the traversal keeps: \<open>V\<close> is the work before, \<open>W\<close> the work after; nothing stopped it.
\<close>

definition moved ::
  "(string \<Rightarrow> string) \<Rightarrow> file_set_caps \<Rightarrow> top_level_member \<Rightarrow> work \<Rightarrow> walk \<Rightarrow> work \<Rightarrow> walk \<Rightarrow> bool" where
  "moved nfc caps tm V w W w' \<longleftrightarrow>
     (\<exists>ms. snd (snd w') = snd (snd w) @ ms \<and> list_all (of_root tm) ms \<and>
        mset (map member_view ms) + mset (work_members nfc W) = mset (work_members nfc V) \<and>
        length ms + work_count W = work_count V \<and>
        fst w' = (next_index ^^ length ms) (fst w) \<and>
        map pl_index ms = map (\<lambda>i. (next_index ^^ i) (fst w)) [0..<length ms]) \<and>
     grow (work_count W) (work_bytes W) (fst (snd w')) = grow (work_count V) (work_bytes V) (fst (snd w)) \<and>
     (\<not> over_caps caps (grow 0 0 (fst (snd w))) \<longrightarrow> \<not> over_caps caps (grow 0 0 (fst (snd w'))))"

lemma moved_refl [simp]: "moved nfc caps tm W w W w"
  by (simp add: moved_def)

lemma moved_trans:
  assumes "moved nfc caps tm U u V v" and "moved nfc caps tm V v W w"
  shows "moved nfc caps tm U u W w"
proof -
  from assms(1) obtain ms where a: "snd (snd v) = snd (snd u) @ ms" "list_all (of_root tm) ms"
    "mset (map member_view ms) + mset (work_members nfc V) = mset (work_members nfc U)"
    "length ms + work_count V = work_count U" "fst v = (next_index ^^ length ms) (fst u)"
    "map pl_index ms = map (\<lambda>i. (next_index ^^ i) (fst u)) [0..<length ms]"
    unfolding moved_def by blast
  from assms(2) obtain ns where b: "snd (snd w) = snd (snd v) @ ns" "list_all (of_root tm) ns"
    "mset (map member_view ns) + mset (work_members nfc W) = mset (work_members nfc V)"
    "length ns + work_count W = work_count V" "fst w = (next_index ^^ length ns) (fst v)"
    "map pl_index ns = map (\<lambda>i. (next_index ^^ i) (fst v)) [0..<length ns]"
    unfolding moved_def by blast
  have i: "map pl_index (ms @ ns) = map (\<lambda>i. (next_index ^^ i) (fst u)) [0..<length (ms @ ns)]"
  proof -
    have "map (\<lambda>i. (next_index ^^ i) (fst v)) [0..<length ns]
        = map (\<lambda>i. (next_index ^^ i) (fst u)) [length ms..<length ms + length ns]"
      by (rule nth_equalityI) (simp_all add: a(5) funpow_add [symmetric, THEN fun_cong, simplified] add.commute)
    then show ?thesis
      by (simp add: a(6) b(6) upt_add_eq_append [of 0 "length ms" "length ns"])
  qed
  have "snd (snd w) = snd (snd u) @ (ms @ ns) \<and> list_all (of_root tm) (ms @ ns) \<and>
        mset (map member_view (ms @ ns)) + mset (work_members nfc W) = mset (work_members nfc U) \<and>
        length (ms @ ns) + work_count W = work_count U \<and>
        fst w = (next_index ^^ length (ms @ ns)) (fst u) \<and>
        map pl_index (ms @ ns) = map (\<lambda>i. (next_index ^^ i) (fst u)) [0..<length (ms @ ns)]"
    using a b i by (simp add: funpow_add [THEN fun_cong] add.commute [of "length ms"] flip: a(3) b(3))
  then show ?thesis
    using assms unfolding moved_def by metis
qed

lemma moved_file:
  assumes "admit sz caps b = (False, b')"
  shows "moved nfc caps tm ((path, rel, FFile sz x) # W) (idx, b, pending) W
    (next_index idx, b', pending @ [root_line tm idx rel (mk_member_kind x) (Some path)])"
  using assms
  by (auto simp: moved_def work_simps member_view_root_line of_root_line admit_grow grow_grow add.commute
      root_line_def [of _ _ _ _ "Some path", THEN arg_cong [of _ _ pl_index]])

lemma moved_empty:
  assumes "admit 0 caps b = (False, b')"
  shows "moved nfc caps tm ((path, rel, FDir (Some [])) # W) (idx, b, pending) W
    (next_index idx, b', pending @ [root_line tm idx (if rel = [] then ''.'' else rel) EmptyDirectoryM None])"
  using assms
  by (auto simp: moved_def work_simps member_view_root_line of_root_line admit_grow grow_grow add.commute
      root_line_def [of _ _ _ _ None, THEN arg_cong [of _ _ pl_index]])

lemma moved_perm:
  assumes "mset V' = mset V" and "moved nfc caps tm V w W w'"
  shows "moved nfc caps tm V' w W w'"
  using assms(2) work_mset [OF assms(1)] unfolding moved_def by simp

text \<open>The pass over the entries of a directory: it ends well, or the entries are not acceptable.\<close>

lemma expand_entries_moved:
  "expand_entries nfc caps tm dir rel es w q = Inr (w', q') \<Longrightarrow>
     names_ok es \<and> (work_ok (entry_work nfc dir rel es @ queue_work q) \<longleftrightarrow> work_ok (queue_work q')) \<and>
     moved nfc caps tm (entry_work nfc dir rel es @ queue_work q) w (queue_work q') w'"
proof (induction es arbitrary: w q)
  case Nil
  then show ?case by (simp add: work_simps names_ok_def)
next
  case (Cons e es)
  obtain name node idx b pending where e: "e = (name, node)" "w = (idx, b, pending)"
    by (metis prod.exhaust)
  let ?p = "path_join dir name" and ?r = "child_path rel (nfc name)"
  from Cons.prems [unfolded e] show ?case
  proof (cases rule: expand_entries_Cons)
    case (Dir content)
    have ih: "names_ok es" "work_ok (entry_work nfc dir rel es @ queue_work (q @ [(?p, ?r, content)])) \<longleftrightarrow> work_ok (queue_work q')"
      "moved nfc caps tm (entry_work nfc dir rel es @ queue_work (q @ [(?p, ?r, content)])) w (queue_work q') w'"
      using Cons.IH [OF Dir(3)] by (simp_all add: e)
    have "moved nfc caps tm (entry_work nfc dir rel (e # es) @ queue_work q) w (queue_work q') w'"
      by (rule moved_perm [OF _ ih(3)]) (simp add: e Dir(2) work_simps)
    then show ?thesis
      using ih(1,2) Dir(1,2) by (auto simp: e names_ok_def work_simps)
  next
    case (Reg sz x b')
    let ?w = "(next_index idx, b', pending @ [root_line tm idx ?r (mk_member_kind x) (Some ?p)])"
    have ih: "names_ok es" "work_ok (entry_work nfc dir rel es @ queue_work q) \<longleftrightarrow> work_ok (queue_work q')"
      "moved nfc caps tm (entry_work nfc dir rel es @ queue_work q) ?w (queue_work q') w'"
      using Cons.IH [OF Reg(4)] by simp_all
    have "moved nfc caps tm (entry_work nfc dir rel (e # es) @ queue_work q) w (queue_work q') w'"
      using moved_trans [OF moved_file [OF Reg(3)] ih(3)] by (simp add: e Reg(2) work_simps)
    then show ?thesis
      using ih(1,2) Reg(1,2) by (auto simp: e names_ok_def work_simps)
  qed
qed

text \<open>The other end: a name or a member that is refused, or the caps that its prefix exceeds.\<close>

lemma expand_entries_stops:
  "expand_entries nfc caps tm dir rel es w q = Inl e \<Longrightarrow>
     \<not> (names_ok es \<and> work_ok (entry_work nfc dir rel es)) \<or>
     over_caps caps (grow (work_count (entry_work nfc dir rel es)) (work_bytes (entry_work nfc dir rel es)) (fst (snd w)))"
proof (induction es arbitrary: w q)
  case (Cons x es)
  obtain name node idx b pending where x: "x = (name, node)" "w = (idx, b, pending)"
    by (metis prod.exhaust)
  show ?case
  proof (cases "utf8_valid (str_bytes name)")
    case valid: True
    show ?thesis
    proof (cases node)
      case (FDir content)
      then have "expand_entries nfc caps tm dir rel es w (q @ [(path_join dir name, child_path rel (nfc name), content)]) = Inl e"
        using Cons.prems valid by (simp add: x Let_def)
      from Cons.IH [OF this] show ?thesis
      proof
        assume "\<not> (names_ok es \<and> work_ok (entry_work nfc dir rel es))"
        then show ?thesis by (auto simp: x names_ok_def work_simps)
      next
        assume "over_caps caps (grow (work_count (entry_work nfc dir rel es)) (work_bytes (entry_work nfc dir rel es)) (fst (snd w)))"
        then have "over_caps caps (grow (work_count (entry_work nfc dir rel (x # es))) (work_bytes (entry_work nfc dir rel (x # es))) (fst (snd w)))"
          by (rule over_caps_grow) (simp_all add: x work_simps)
        then show ?thesis ..
      qed
    next
      case (FFile sz xb)
      let ?w = "(next_index idx, grow 1 sz b, pending @ [root_line tm idx (child_path rel (nfc name)) (mk_member_kind xb) (Some (path_join dir name))])"
      show ?thesis
      proof (cases "over_caps caps (grow 1 sz b)")
        case True
        then have "over_caps caps (grow (work_count (entry_work nfc dir rel (x # es))) (work_bytes (entry_work nfc dir rel (x # es))) b)"
          by (rule over_caps_grow) (simp_all add: x FFile work_simps)
        then show ?thesis by (simp add: x)
      next
        case False
        then have "expand_entries nfc caps tm dir rel es ?w q = Inl e"
          using Cons.prems valid FFile by (simp add: x Let_def admit_grow)
        from Cons.IH [OF this] show ?thesis
          using FFile by (auto simp: x names_ok_def work_simps grow_grow)
      qed
    qed (auto simp: x names_ok_def work_simps)
  qed (auto simp: x names_ok_def)
qed simp

text \<open>The pass over a directory that is not empty, against the work of the queue it came from.\<close>

lemma dir_queue_work:
  assumes "es \<noteq> []"
  shows "mset (work_members nfc (queue_work ((dir, rel, Some es) # q))) =
      mset (work_members nfc (entry_work nfc dir rel (sort_key fst es) @ queue_work q))"
    and "work_count (queue_work ((dir, rel, Some es) # q)) =
      work_count (entry_work nfc dir rel (sort_key fst es) @ queue_work q)"
    and "work_bytes (queue_work ((dir, rel, Some es) # q)) =
      work_bytes (entry_work nfc dir rel (sort_key fst es) @ queue_work q)"
    and "work_ok (queue_work ((dir, rel, Some es) # q)) \<longleftrightarrow>
      names_ok (sort_key fst es) \<and> work_ok (entry_work nfc dir rel (sort_key fst es) @ queue_work q)"
proof -
  note d = dir_work [OF assms, where nfc = nfc and dir = dir and rel = rel]
  show "mset (work_members nfc (queue_work ((dir, rel, Some es) # q))) =
      mset (work_members nfc (entry_work nfc dir rel (sort_key fst es) @ queue_work q))"
    by (simp only: work_simps mset_append d(1))
  show "work_count (queue_work ((dir, rel, Some es) # q)) =
      work_count (entry_work nfc dir rel (sort_key fst es) @ queue_work q)"
    by (simp only: work_simps d(2))
  show "work_bytes (queue_work ((dir, rel, Some es) # q)) =
      work_bytes (entry_work nfc dir rel (sort_key fst es) @ queue_work q)"
    by (simp only: work_simps d(3))
  show "work_ok (queue_work ((dir, rel, Some es) # q)) \<longleftrightarrow>
      names_ok (sort_key fst es) \<and> work_ok (entry_work nfc dir rel (sort_key fst es) @ queue_work q)"
    by (simp only: work_simps d(4) conj_assoc)
qed

lemma expand_loop_moved:
  "expand_loop nfc caps tm q w = Inr w' \<Longrightarrow>
     work_ok (queue_work q) \<and> moved nfc caps tm (queue_work q) w [] w'"
proof (induction nfc caps tm q w arbitrary: w' rule: expand_loop.induct)
  case (1 nfc caps tm w)
  then show ?case by (simp add: work_simps)
next
  case (3 nfc caps tm dir rel es q idx b pending)
  show ?case
  proof (cases "es = []")
    case True
    let ?l = "root_line tm idx (if rel = [] then ''.'' else rel) EmptyDirectoryM None"
    obtain b' where adm: "admit 0 caps b = (False, b')"
      and rest: "expand_loop nfc caps tm q (next_index idx, b', pending @ [?l]) = Inr w'"
      using "3.prems" True by (auto simp: expand_loop.simps(3) Let_def split: prod.splits bool.splits)
    have "work_ok (queue_work q) \<and> moved nfc caps tm (queue_work q) (next_index idx, b', pending @ [?l]) [] w'"
      using "3.IH"(1) [OF refl _ refl adm [symmetric] refl rest] True by simp
    then show ?thesis
      using moved_trans [OF moved_empty [OF adm]] True by (auto simp: work_simps)
  next
    case False
    then have sorted: "sort_key fst es \<noteq> []" by (metis length_0_conv length_sort)
    obtain w1 q1 where step: "expand_entries nfc caps tm dir rel (sort_key fst es) (idx, b, pending) q = Inr (w1, q1)"
      and rest: "expand_loop nfc caps tm q1 w1 = Inr w'"
      using "3.prems" sorted by (auto simp: expand_loop.simps(3) Let_def split: sum.splits)
    have ih: "work_ok (queue_work q1)" "moved nfc caps tm (queue_work q1) w1 [] w'"
      using "3.IH"(2) [OF refl sorted step refl rest] by simp_all
    note ent = expand_entries_moved [OF step]
    have "moved nfc caps tm (entry_work nfc dir rel (sort_key fst es) @ queue_work q) (idx, b, pending) [] w'"
      using ent ih(2) by (auto intro: moved_trans)
    then have "moved nfc caps tm (queue_work ((dir, rel, Some es) # q)) (idx, b, pending) [] w'"
      using dir_queue_work [OF False, where nfc = nfc and dir = dir and rel = rel and q = q] unfolding moved_def by simp
    then show ?thesis
      using ent ih(1) dir_queue_work(4) [OF False, where nfc = nfc and dir = dir and rel = rel and q = q] by blast
  qed
qed simp

lemma expand_loop_stops:
  "expand_loop nfc caps tm q w = Inl e \<Longrightarrow>
     \<not> work_ok (queue_work q) \<or>
     over_caps caps (grow (work_count (queue_work q)) (work_bytes (queue_work q)) (fst (snd w)))"
proof (induction nfc caps tm q w rule: expand_loop.induct)
  case (2 nfc caps tm dir rel q idx b pending)
  then show ?case by (simp add: work_simps)
next
  case (3 nfc caps tm dir rel es q idx b pending)
  show ?case
  proof (cases "es = []")
    case True
    let ?l = "root_line tm idx (if rel = [] then ''.'' else rel) EmptyDirectoryM None"
    show ?thesis
    proof (cases "over_caps caps (grow 1 0 b)")
      case over: True
      have "over_caps caps (grow (work_count (queue_work ((dir, rel, Some es) # q)))
          (work_bytes (queue_work ((dir, rel, Some es) # q))) b)"
        by (rule over_caps_grow [OF over]) (simp_all add: work_simps True)
      then show ?thesis by simp
    next
      case False
      then have adm: "admit 0 caps b = (False, grow 1 0 b)" by (simp add: admit_grow)
      have rest: "expand_loop nfc caps tm q (next_index idx, grow 1 0 b, pending @ [?l]) = Inl e"
        using "3.prems" True adm by (simp add: expand_loop.simps(3) Let_def)
      show ?thesis
        using "3.IH"(1) [OF refl _ refl adm [symmetric] refl rest] True
        by (simp add: work_simps grow_grow)
    qed
  next
    case False
    then have sorted: "sort_key fst es \<noteq> []" by (metis length_0_conv length_sort)
    note d = dir_queue_work [OF False, where nfc = nfc and dir = dir and rel = rel and q = q]
    show ?thesis
    proof (cases "expand_entries nfc caps tm dir rel (sort_key fst es) (idx, b, pending) q")
      case (Inl f)
      have "\<not> (names_ok (sort_key fst es) \<and> work_ok (entry_work nfc dir rel (sort_key fst es) @ queue_work q)) \<or>
          over_caps caps (grow (work_count (entry_work nfc dir rel (sort_key fst es) @ queue_work q))
            (work_bytes (entry_work nfc dir rel (sort_key fst es) @ queue_work q)) b)"
        using expand_entries_stops [OF Inl] by (auto simp: work_simps elim: over_caps_grow)
      then show ?thesis by (simp only: d) simp
    next
      case (Inr r)
      obtain w1 q1 where r: "r = (w1, q1)" by (cases r)
      have rest: "expand_loop nfc caps tm q1 w1 = Inl e"
        using "3.prems" sorted Inr r by (simp add: expand_loop.simps(3) Let_def)
      note ent = expand_entries_moved [OF Inr [unfolded r]]
      then have g: "grow (work_count (queue_work q1)) (work_bytes (queue_work q1)) (fst (snd w1)) =
          grow (work_count (entry_work nfc dir rel (sort_key fst es) @ queue_work q))
            (work_bytes (entry_work nfc dir rel (sort_key fst es) @ queue_work q)) b"
        unfolding moved_def by simp
      have "\<not> work_ok (queue_work q1) \<or> over_caps caps (grow (work_count (queue_work q1)) (work_bytes (queue_work q1)) (fst (snd w1)))"
        using "3.IH"(2) [OF refl sorted Inr r [symmetric] rest] .
      then show ?thesis
        using ent by (simp only: d g) auto
    qed
  qed
qed simp

lemma expand_directory_moved:
  "expand_directory nfc caps tm content idx b = Inr w' \<Longrightarrow>
     tree_ok (FDir content) \<and> moved nfc caps tm [(tm_path tm, [], FDir content)] (idx, b, []) [] w'"
  using expand_loop_moved [of nfc caps tm "[(tm_path tm, [], content)]" "(idx, b, [])" w']
  by (simp add: expand_directory_def work_simps)

lemma expand_directory_stops:
  "expand_directory nfc caps tm content idx b = Inl e \<Longrightarrow>
     \<not> tree_ok (FDir content) \<or> over_caps caps (grow (tree_count (FDir content)) (tree_bytes (FDir content)) b)"
  using expand_loop_stops [of nfc caps tm "[(tm_path tm, [], content)]" "(idx, b, [])" e]
  by (simp add: expand_directory_def work_simps)

section \<open>The members of the roots\<close>

definition root_members ::
  "(string \<Rightarrow> string) \<Rightarrow> (string \<Rightarrow> fs_node) \<Rightarrow> top_level_member \<Rightarrow> (string \<times> member_kind \<times> string option) list" where
  "root_members nfc fs tm =
     (case fs (tm_path tm) of
        FDir content \<Rightarrow> tree_members nfc (tm_path tm) [] (FDir content)
      | FFile sz x \<Rightarrow> [(normalized_basename nfc (tm_path tm), mk_member_kind x, Some (tm_path tm))]
      | FAbsent \<Rightarrow> [(normalized_basename nfc (tm_path tm), FileM, Some (tm_path tm))]
      | _ \<Rightarrow> [])"

definition root_ok :: "(string \<Rightarrow> fs_node) \<Rightarrow> top_level_member \<Rightarrow> bool" where
  "root_ok fs tm \<longleftrightarrow> fs (tm_path tm) = FAbsent \<or> tree_ok (fs (tm_path tm))"

definition root_count :: "(string \<Rightarrow> fs_node) \<Rightarrow> top_level_member \<Rightarrow> nat" where
  "root_count fs tm = (if fs (tm_path tm) = FAbsent then 1 else tree_count (fs (tm_path tm)))"

definition root_bytes :: "(string \<Rightarrow> fs_node) \<Rightarrow> top_level_member \<Rightarrow> nat" where
  "root_bytes fs tm =
     (case (fs (tm_path tm), tm_known_size tm) of
        (FFile _ _, Some n) \<Rightarrow> n
      | (FAbsent, Some n) \<Rightarrow> n
      | (node, _) \<Rightarrow> tree_bytes node)"

text \<open>What a line says, but for its index.\<close>

definition full_view :: "pending_line \<Rightarrow> string \<times> member_location \<times> string option" where
  "full_view l = (pl_text l, pl_location l, pl_path l)"

definition placed ::
  "top_level_member \<Rightarrow> string \<times> member_kind \<times> string option \<Rightarrow> string \<times> member_location \<times> string option" where
  "placed tm = (\<lambda>(rel, k, path).
     (tm_text tm, \<lparr>root_index = tm_root tm, root_name = tm_name tm, relative_path = rel, member_kind = k\<rparr>, path))"

lemma full_view_placed: "of_root tm l \<Longrightarrow> full_view l = placed tm (member_view l)"
  by (simp add: full_view_def placed_def member_view_def of_root_def)

lemma full_view_root_line: "full_view (root_line tm idx rel k path) = placed tm (rel, k, path)"
  by (simp add: full_view_def placed_def root_line_def)

text \<open>The traversal of the roots: how it moves the budget, and when it ends well.\<close>

definition roots_view ::
  "(string \<Rightarrow> string) \<Rightarrow> (string \<Rightarrow> fs_node) \<Rightarrow> top_level_member list \<Rightarrow>
   (string \<times> member_location \<times> string option) list" where
  "roots_view nfc fs roots = concat (map (\<lambda>tm. map (placed tm) (root_members nfc fs tm)) roots)"

definition roots_count :: "(string \<Rightarrow> fs_node) \<Rightarrow> top_level_member list \<Rightarrow> nat" where
  "roots_count fs roots = sum_list (map (root_count fs) roots)"

definition roots_bytes :: "(string \<Rightarrow> fs_node) \<Rightarrow> top_level_member list \<Rightarrow> nat" where
  "roots_bytes fs roots = sum_list (map (root_bytes fs) roots)"

lemma roots_simps [work_simps]:
  "roots_view nfc fs [] = []" "roots_count fs [] = 0" "roots_bytes fs [] = 0"
  "roots_view nfc fs (tm # roots) = map (placed tm) (root_members nfc fs tm) @ roots_view nfc fs roots"
  "roots_count fs (tm # roots) = root_count fs tm + roots_count fs roots"
  "roots_bytes fs (tm # roots) = root_bytes fs tm + roots_bytes fs roots"
  by (simp_all add: roots_view_def roots_count_def roots_bytes_def)

text \<open>One root: the step of the loop, as the budget and the lines before and after.\<close>

definition root_step ::
  "(string \<Rightarrow> string) \<Rightarrow> (string \<Rightarrow> fs_node) \<Rightarrow> file_set_caps \<Rightarrow> top_level_member \<Rightarrow> walk \<Rightarrow> walk \<Rightarrow> bool" where
  "root_step nfc fs caps tm w w' \<longleftrightarrow>
     root_ok fs tm \<and>
     (\<exists>ms. snd (snd w') = snd (snd w) @ ms \<and>
        mset (map full_view ms) = mset (map (placed tm) (root_members nfc fs tm))) \<and>
     grow 0 0 (fst (snd w')) = grow (root_count fs tm) (root_bytes fs tm) (fst (snd w)) \<and>
     (\<not> over_caps caps (grow 0 0 (fst (snd w))) \<longrightarrow> \<not> over_caps caps (grow 0 0 (fst (snd w'))))"

lemma root_step_dir:
  assumes "fs (tm_path tm) = FDir content" and "expand_directory nfc caps tm content idx b = Inr (idx', b', ms)"
  shows "root_step nfc fs caps tm (idx, b, pending) (idx', b', pending @ ms)"
proof -
  have m: "tree_ok (FDir content)" "moved nfc caps tm [(tm_path tm, [], FDir content)] (idx, b, []) [] (idx', b', ms)"
    using expand_directory_moved [OF assms(2)] by auto
  have "map full_view ms = map (placed tm) (map member_view ms)"
    using m(2) by (simp add: moved_def list_all_iff full_view_placed)
  then have "mset (map full_view ms) = image_mset (placed tm) (mset (map member_view ms))"
    by (metis mset_map)
  also have "\<dots> = mset (map (placed tm) (root_members nfc fs tm))"
    using m(2) by (simp add: moved_def work_simps root_members_def assms(1))
  finally show ?thesis
    using m by (auto simp: root_step_def moved_def work_simps root_ok_def root_count_def root_bytes_def assms(1) split: option.split)
qed

lemma root_step_line:
  assumes "root_members nfc fs tm = [(rel, k, path)]" and "root_ok fs tm" and "root_count fs tm = 1"
    and "admit (root_bytes fs tm) caps b = (False, b')"
  shows "root_step nfc fs caps tm (idx, b, pending) (idx', b', pending @ [root_line tm i rel k path])"
  using assms by (auto simp: root_step_def full_view_root_line admit_grow grow_grow)

text \<open>The loop over the roots ends well exactly when every root does and the caps hold for all.\<close>

lemma root_step_trans:
  assumes "root_step nfc fs caps tm (idx, b, pending) (idx', b', p')"
  shows "grow (roots_count fs roots) (roots_bytes fs roots) b' =
      grow (roots_count fs (tm # roots)) (roots_bytes fs (tm # roots)) b"
    and "\<not> over_caps caps (grow 0 0 b) \<Longrightarrow> \<not> over_caps caps (grow 0 0 b')"
proof -
  have "grow (roots_count fs roots) (roots_bytes fs roots) (grow 0 0 b') =
      grow (roots_count fs roots) (roots_bytes fs roots) (grow (root_count fs tm) (root_bytes fs tm) b)"
    using assms by (simp add: root_step_def)
  then show "grow (roots_count fs roots) (roots_bytes fs roots) b' =
      grow (roots_count fs (tm # roots)) (roots_bytes fs (tm # roots)) b"
    by (simp add: grow_grow work_simps)
  show "\<not> over_caps caps (grow 0 0 b) \<Longrightarrow> \<not> over_caps caps (grow 0 0 b')"
    using assms by (auto simp: root_step_def)
qed

text \<open>The step of the loop for one root: it goes on, or the root or the caps stop it.\<close>

lemma walk_roots_Cons:
  obtains (Step) idx' b' ms where "root_step nfc fs caps tm (idx, b, pending) (idx', b', pending @ ms)"
      and "walk_roots nfc fs caps (tm # roots) (idx, b, pending) = walk_roots nfc fs caps roots (idx', b', pending @ ms)"
    | (Stop) f l where "walk_roots nfc fs caps (tm # roots) (idx, b, pending) = (pending @ [l], Some (f, roots))"
      and "\<not> root_ok fs tm \<or> over_caps caps (grow (root_count fs tm) (root_bytes fs tm) b)"
proof (cases "fs (tm_path tm)")
  case (FDir content)
  show thesis
  proof (cases "expand_directory nfc caps tm content idx b")
    case (Inl e)
    obtain f l where e: "e = (f, l)" by (cases e)
    show thesis
      by (rule Stop [of l f])
        (use expand_directory_stops [OF Inl] in
          \<open>auto simp: FDir Inl e root_ok_def root_count_def root_bytes_def split: option.split\<close>)
  next
    case (Inr r)
    obtain idx' b' ms where r: "r = (idx', b', ms)" by (cases r)
    show thesis
      by (rule Step [OF root_step_dir [where fs = fs and tm = tm, OF FDir Inr [unfolded r]]]) (simp add: FDir Inr r)
  qed
next
  case (FFile sz x)
  have m: "root_members nfc fs tm = [(normalized_basename nfc (tm_path tm), mk_member_kind x, Some (tm_path tm))]"
    "root_ok fs tm" "root_count fs tm = 1"
    "root_bytes fs tm = (case tm_known_size tm of Some n \<Rightarrow> n | None \<Rightarrow> sz)"
    by (auto simp: FFile root_members_def root_ok_def root_count_def root_bytes_def split: option.split)
  obtain over b' where a: "admit (root_bytes fs tm) caps b = (over, b')" by (cases "admit (root_bytes fs tm) caps b")
  show thesis
  proof (cases over)
    case True
    with a have "over_caps caps (grow 1 (root_bytes fs tm) b)" by (auto simp: admit_grow)
    then show thesis
      using a True m by (intro Stop [of "pending_flat_file nfc tm x" CapF]) (simp_all add: FFile Let_def)
  next
    case False
    with a have "admit (root_bytes fs tm) caps b = (False, b')" by simp
    from root_step_line [OF m(1) m(2) m(3) this] show thesis
      by (rule Step)
        (use a False m(4) in \<open>simp add: FFile Let_def pending_flat_file_def\<close>)
  qed
next
  case FAbsent
  have m: "root_members nfc fs tm = [(normalized_basename nfc (tm_path tm), FileM, Some (tm_path tm))]"
    "root_ok fs tm" "root_count fs tm = 1"
    "root_bytes fs tm = (case tm_known_size tm of Some n \<Rightarrow> n | None \<Rightarrow> 0)"
    by (auto simp: FAbsent root_members_def root_ok_def root_count_def root_bytes_def split: option.split)
  obtain over b' where a: "admit (root_bytes fs tm) caps b = (over, b')" by (cases "admit (root_bytes fs tm) caps b")
  show thesis
  proof (cases over)
    case True
    with a have "over_caps caps (grow 1 (root_bytes fs tm) b)" by (auto simp: admit_grow)
    then show thesis
      using a True m by (intro Stop [of "pending_missing_file nfc tm" CapF]) (simp_all add: FAbsent Let_def)
  next
    case False
    with a have "admit (root_bytes fs tm) caps b = (False, b')" by simp
    from root_step_line [OF m(1) m(2) m(3) this] show thesis
      by (rule Step)
        (use a False m(4) in \<open>simp add: FAbsent Let_def pending_missing_file_def\<close>)
  qed
qed (use Stop [of "pending_root_marker tm idx" UnsupportedF] in \<open>simp_all add: root_ok_def\<close>)

lemma walk_roots_outcome:
  assumes "\<not> over_caps caps (grow 0 0 b)"
  shows "(snd (walk_roots nfc fs caps roots (idx, b, pending)) = None \<longleftrightarrow>
       list_all (root_ok fs) roots \<and> \<not> over_caps caps (grow (roots_count fs roots) (roots_bytes fs roots) b)) \<and>
     (snd (walk_roots nfc fs caps roots (idx, b, pending)) = None \<longrightarrow>
       (\<exists>ms. fst (walk_roots nfc fs caps roots (idx, b, pending)) = pending @ ms \<and>
          mset (map full_view ms) = mset (roots_view nfc fs roots)))"
  using assms
proof (induction roots arbitrary: idx b pending)
  case Nil
  then show ?case by (simp add: work_simps)
next
  case (Cons tm roots)
  show ?case
  proof (cases rule: walk_roots_Cons [of nfc fs caps tm idx b pending roots])
    case (Step idx' b' ms)
    note t = root_step_trans [OF Step(1)]
    have ih: "(snd (walk_roots nfc fs caps roots (idx', b', pending @ ms)) = None \<longleftrightarrow>
       list_all (root_ok fs) roots \<and> \<not> over_caps caps (grow (roots_count fs (tm # roots)) (roots_bytes fs (tm # roots)) b)) \<and>
     (snd (walk_roots nfc fs caps roots (idx', b', pending @ ms)) = None \<longrightarrow>
       (\<exists>ns. fst (walk_roots nfc fs caps roots (idx', b', pending @ ms)) = (pending @ ms) @ ns \<and>
          mset (map full_view ns) = mset (roots_view nfc fs roots)))"
      using Cons.IH [OF t(2) [OF Cons.prems], of idx' "pending @ ms"] unfolding t(1) .
    have ok: "root_ok fs tm" and ms: "mset (map full_view ms) = mset (map (placed tm) (root_members nfc fs tm))"
      using Step(1) by (simp_all add: root_step_def)
    have "mset (map full_view (ms @ ns)) = mset (roots_view nfc fs (tm # roots))"
      if "mset (map full_view ns) = mset (roots_view nfc fs roots)" for ns
      using ms that by (simp add: work_simps)
    then show ?thesis
      using ih ok by (auto simp: Step(2) simp del: walk_roots.simps)
  next
    case (Stop f l)
    have "over_caps caps (grow (root_count fs tm) (root_bytes fs tm) b) \<Longrightarrow>
        over_caps caps (grow (roots_count fs (tm # roots)) (roots_bytes fs (tm # roots)) b)"
      by (erule over_caps_grow) (simp_all add: work_simps)
    then show ?thesis
      using Stop by (auto simp del: walk_roots.simps)
  qed
qed

section \<open>All or nothing\<close>

definition no_budget :: budget where "no_budget = \<lparr>b_count = 0, b_bytes = 0\<rparr>"

definition set_fits ::
  "(string \<Rightarrow> fs_node) \<Rightarrow> file_set_caps \<Rightarrow> top_level_member list \<Rightarrow> bool" where
  "set_fits fs caps roots \<longleftrightarrow>
     \<not> (0 < max_member_count caps \<and> max_member_count caps < length roots) \<and>
     list_all (root_ok fs) roots \<and>
     \<not> over_caps caps (grow (roots_count fs roots) (roots_bytes fs roots) no_budget)"

definition unindexed :: "file_set_line \<Rightarrow> string \<times> member_location option \<times> line_kind" where
  "unindexed l = (original_text l, member_location l, line_kind l)"

definition hashed_view ::
  "(string \<Rightarrow> string + digest) \<Rightarrow> string \<times> member_location \<times> string option \<Rightarrow>
   string \<times> member_location option \<times> line_kind" where
  "hashed_view hash_path = (\<lambda>(t, loc, path).
     (t, Some loc, case path of Some p \<Rightarrow> classify_file_path hash_path p False | None \<Rightarrow> NonFileLine))"

lemma unindexed_hashed: "unindexed (hashed_pending hash_path l) = hashed_view hash_path (full_view l)"
  by (simp add: unindexed_def hashed_pending_def hashed_view_def full_view_def)

lemma no_budget_under [simp]: "\<not> over_caps caps (grow 0 0 no_budget)"
  by (simp add: over_caps_def grow_def no_budget_def u64_sat_def)

lemma walk_roots_stopped:
  "snd (walk_roots nfc fs caps roots (idx, b, pending)) \<noteq> None \<Longrightarrow>
     fst (walk_roots nfc fs caps roots (idx, b, pending)) \<noteq> []"
proof (induction roots arbitrary: idx b pending)
  case (Cons tm roots)
  show ?case
  proof (cases rule: walk_roots_Cons [of nfc fs caps tm idx b pending roots])
    case (Step idx' b' ms)
    then show ?thesis using Cons by metis
  qed simp
qed simp

lemma build_lines_fits:
  assumes "set_fits fs caps roots"
  obtains pending where "fst (walk_roots nfc fs caps roots (n, no_budget, [])) = pending"
    and "mset (map full_view pending) = mset (roots_view nfc fs roots)"
    and "build_file_member_lines nfc fs hash_path caps roots lines n =
      sort_key line_index (lines @ map (hashed_pending hash_path) pending)"
    and "snd (walk_roots nfc fs caps roots (n, no_budget, [])) = None"
proof -
  have out: "snd (walk_roots nfc fs caps roots (n, no_budget, [])) = None"
    using walk_roots_outcome [OF no_budget_under, of nfc fs caps roots n "[]"] assms by (simp add: set_fits_def)
  then have "mset (map full_view (fst (walk_roots nfc fs caps roots (n, no_budget, [])))) = mset (roots_view nfc fs roots)"
    using walk_roots_outcome [OF no_budget_under, of nfc fs caps roots n "[]"] by auto
  moreover have "build_file_member_lines nfc fs hash_path caps roots lines n =
      sort_key line_index (lines @ map (hashed_pending hash_path) (fst (walk_roots nfc fs caps roots (n, no_budget, []))))"
    using assms out unfolding build_file_member_lines_def no_budget_def [symmetric]
    by (cases "walk_roots nfc fs caps roots (n, no_budget, [])") (auto simp: set_fits_def)
  ultimately show thesis using that out by blast
qed

lemma build_lines_view:
  assumes "set_fits fs caps roots"
  shows "mset (map unindexed (build_file_member_lines nfc fs hash_path caps roots lines n)) =
    mset (map unindexed lines) + mset (map (hashed_view hash_path) (roots_view nfc fs roots))"
proof -
  obtain pending where p: "mset (map full_view pending) = mset (roots_view nfc fs roots)"
    "build_file_member_lines nfc fs hash_path caps roots lines n =
      sort_key line_index (lines @ map (hashed_pending hash_path) pending)"
    by (rule build_lines_fits [OF assms])
  have "map unindexed (map (hashed_pending hash_path) pending) = map (hashed_view hash_path) (map full_view pending)"
    by (simp add: unindexed_hashed)
  then have "mset (map unindexed (map (hashed_pending hash_path) pending)) =
      image_mset (hashed_view hash_path) (mset (map full_view pending))"
    by (metis mset_map)
  also have "\<dots> = mset (map (hashed_view hash_path) (roots_view nfc fs roots))"
    by (metis p(1) mset_map)
  finally show ?thesis
    unfolding p(2) by (simp only: mset_map mset_sort mset_append image_mset_union)
qed

lemma build_lines_excluded:
  assumes "\<not> set_fits fs caps roots"
  shows "\<exists>reason. \<forall>l \<in> set (build_file_member_lines nfc fs hash_path caps roots lines n).
      l \<in> set lines \<or> line_kind l = ExcludedLine reason"
    and "has_excluded (build_file_member_lines nfc fs hash_path caps roots lines n)"
proof -
  consider (Early) "0 < max_member_count caps" "max_member_count caps < length roots"
    | (Late) "\<not> (0 < max_member_count caps \<and> max_member_count caps < length roots)"
        "snd (walk_roots nfc fs caps roots (n, no_budget, [])) \<noteq> None"
    using walk_roots_outcome [OF no_budget_under, of nfc fs caps roots n "[]"] assms
    unfolding set_fits_def by metis
  then have "\<exists>reason ex. ex \<noteq> [] \<and> (\<forall>l \<in> set ex. line_kind l = ExcludedLine reason) \<and>
      build_file_member_lines nfc fs hash_path caps roots lines n = sort_key line_index (lines @ ex)"
  proof cases
    case Early
    then show ?thesis
      by (intro exI [of _ SizeCapExceeded] exI [of _ "map (excluded_root_line nfc SizeCapExceeded) roots"])
        (auto simp: build_file_member_lines_def excluded_root_line_def)
  next
    case Late
    obtain pending f rest where w: "walk_roots nfc fs caps roots (n, no_budget, []) = (pending, Some (f, rest))"
      using Late(2) by (cases "walk_roots nfc fs caps roots (n, no_budget, [])") auto
    have "pending \<noteq> []"
      using walk_roots_stopped [OF Late(2)] w by simp
    then show ?thesis
      using Late(1) w unfolding build_file_member_lines_def no_budget_def [symmetric]
      by (intro exI [of _ "failure_reason_of f"]
          exI [of _ "map (excluded_pending (failure_reason_of f)) (pending @ map (failed_root_line nfc) rest)"])
        (auto simp: excluded_pending_def)
  qed
  then obtain reason ex where "ex \<noteq> []" "\<forall>l \<in> set ex. line_kind l = ExcludedLine reason"
    "build_file_member_lines nfc fs hash_path caps roots lines n = sort_key line_index (lines @ ex)"
    by blast
  then show "\<exists>reason. \<forall>l \<in> set (build_file_member_lines nfc fs hash_path caps roots lines n).
      l \<in> set lines \<or> line_kind l = ExcludedLine reason"
    and "has_excluded (build_file_member_lines nfc fs hash_path caps roots lines n)"
    by (cases ex; auto simp: has_excluded_def list_ex_iff)+
qed

section \<open>Line indices\<close>

text \<open>
  The lines of the members of directories are numbered on from the number of top-level lines; all
  other lines keep the index of their root.
\<close>

definition dir_roots :: "(string \<Rightarrow> fs_node) \<Rightarrow> top_level_member list \<Rightarrow> top_level_member list" where
  "dir_roots fs roots = filter (\<lambda>tm. case fs (tm_path tm) of FDir _ \<Rightarrow> True | _ \<Rightarrow> False) roots"

definition numbered ::
  "(string \<Rightarrow> fs_node) \<Rightarrow> top_level_member list \<Rightarrow> int \<Rightarrow> pending_line list \<Rightarrow> nat \<Rightarrow> bool" where
  "numbered fs roots idx ms d \<longleftrightarrow>
     length ms + length (dir_roots fs roots) = length roots + d \<and>
     (d = 0 \<longleftrightarrow> dir_roots fs roots = []) \<and>
     (0 < d \<longrightarrow> (next_index ^^ (d - 1)) idx \<in> pl_index ` set ms) \<and>
     (\<forall>l \<in> set ms. pl_index l \<in> tm_index ` set roots \<or> (\<exists>i < d. pl_index l = (next_index ^^ i) idx))"

lemma dir_roots_iff: "dir_roots fs roots \<noteq> [] \<longleftrightarrow> (\<exists>tm \<in> set roots. \<exists>content. fs (tm_path tm) = FDir content)"
proof -
  have "(case n of FDir _ \<Rightarrow> True | _ \<Rightarrow> False) \<longleftrightarrow> (\<exists>content. n = FDir content)" for n
    by (cases n) auto
  then show ?thesis by (simp add: dir_roots_def filter_empty_conv)
qed

lemma tree_count_pos: "tree_ok n \<Longrightarrow> 0 < tree_count n"
proof (induction n rule: tree_ok.induct)
  case (2 es)
  show ?case
  proof (cases es)
    case (Cons e es')
    then have "0 < tree_count (snd e)"
      using 2 by (cases e) auto
    then show ?thesis by (simp add: Cons)
  qed simp
qed simp_all

lemma walk_dir_index:
  assumes "expand_directory nfc caps tm content idx b = Inr (idx', b', ms)"
  shows "0 < length ms" and "idx' = (next_index ^^ length ms) idx"
    and "map pl_index ms = map (\<lambda>i. (next_index ^^ i) idx) [0..<length ms]"
proof -
  have m: "tree_ok (FDir content)" "moved nfc caps tm [(tm_path tm, [], FDir content)] (idx, b, []) [] (idx', b', ms)"
    using expand_directory_moved [OF assms] by auto
  then show "idx' = (next_index ^^ length ms) idx"
    and "map pl_index ms = map (\<lambda>i. (next_index ^^ i) idx) [0..<length ms]"
    and "0 < length ms"
    using tree_count_pos [OF m(1)] by (simp_all add: moved_def work_simps)
qed

lemma numbered_flat:
  assumes "numbered fs roots idx ms d" and "dir_roots fs [tm] = []" and "pl_index l = tm_index tm"
  shows "numbered fs (tm # roots) idx (l # ms) d"
  using assms unfolding numbered_def dir_roots_def by (auto split: if_splits)

lemma numbered_dir:
  assumes "numbered fs roots ((next_index ^^ length ns) idx) ms d" and "dir_roots fs [tm] = [tm]"
    and "0 < length ns" and "map pl_index ns = map (\<lambda>i. (next_index ^^ i) idx) [0..<length ns]"
  shows "numbered fs (tm # roots) idx (ns @ ms) (length ns + d)"
proof -
  have idx: "pl_index ` set ns = (\<lambda>i. (next_index ^^ i) idx) ` {0..<length ns}"
    using assms(4) by (metis set_map set_upt)
  have shift: "(next_index ^^ i) ((next_index ^^ length ns) idx) = (next_index ^^ (length ns + i)) idx" for i
    by (simp add: add.commute funpow_add)
  have last_in: "(next_index ^^ (length ns + d - 1)) idx \<in> pl_index ` set (ns @ ms)"
  proof (cases "d = 0")
    case True
    then show ?thesis using assms(3) by (simp add: idx image_Un)
  next
    case False
    then have "(next_index ^^ (length ns + (d - 1))) idx \<in> pl_index ` set ms"
      using assms(1) by (simp add: numbered_def shift)
    with False show ?thesis by (simp add: image_Un)
  qed
  have "pl_index l \<in> tm_index ` set (tm # roots) \<or> (\<exists>i < length ns + d. pl_index l = (next_index ^^ i) idx)"
    if "l \<in> set (ns @ ms)" for l
  proof (cases "l \<in> set ns")
    case True
    then have "pl_index l \<in> (\<lambda>i. (next_index ^^ i) idx) ` {0..<length ns}" using idx by blast
    then obtain i where "i < length ns" "pl_index l = (next_index ^^ i) idx" by auto
    then show ?thesis by (auto intro!: exI [of _ i])
  next
    case False
    with that have "l \<in> set ms" by simp
    then have "pl_index l \<in> tm_index ` set roots \<or> (\<exists>i < d. pl_index l = (next_index ^^ (length ns + i)) idx)"
      using assms(1) by (simp add: numbered_def shift)
    then show ?thesis
      by (metis image_insert insertCI list.simps(15) nat_add_left_cancel_less)
  qed
  then show ?thesis
    using assms(1-3) last_in unfolding numbered_def dir_roots_def by (auto split: if_splits)
qed

lemma walk_roots_numbered:
  "walk_roots nfc fs caps roots (idx, b, pending) = (p', None) \<Longrightarrow>
     \<exists>ms d. p' = pending @ ms \<and> numbered fs roots idx ms d"
proof (induction roots arbitrary: idx b pending)
  case Nil
  then show ?case by (simp add: numbered_def dir_roots_def)
next
  case (Cons tm roots)
  consider (Dir) content idx' b' ns where "fs (tm_path tm) = FDir content"
      "expand_directory nfc caps tm content idx b = Inr (idx', b', ns)"
      "walk_roots nfc fs caps roots (idx', b', pending @ ns) = (p', None)"
    | (Flat) b' l where "dir_roots fs [tm] = []" "pl_index l = tm_index tm"
      "walk_roots nfc fs caps roots (idx, b', pending @ [l]) = (p', None)"
  proof (cases "fs (tm_path tm)")
    case (FDir content)
    then show thesis
      using Cons.prems Dir by (auto split: sum.splits prod.splits)
  next
    case (FFile sz x)
    then show thesis
      using Cons.prems Flat [of "pending_flat_file nfc tm x"]
      by (auto simp: dir_roots_def Let_def pending_flat_file_def root_line_def split: prod.splits bool.splits)
  next
    case FAbsent
    then show thesis
      using Cons.prems Flat [of "pending_missing_file nfc tm"]
      by (auto simp: dir_roots_def Let_def pending_missing_file_def root_line_def split: prod.splits bool.splits)
  qed (use Cons.prems in simp_all)
  then show ?case
  proof cases
    case Dir
    note d = walk_dir_index [OF Dir(2)]
    obtain ms k where "p' = (pending @ ns) @ ms" "numbered fs roots idx' ms k"
      using Cons.IH [OF Dir(3)] by blast
    then show ?thesis
      using numbered_dir [of fs roots ns idx ms k tm] d Dir(1) by (auto simp: dir_roots_def)
  next
    case Flat
    obtain ms k where "p' = (pending @ [l]) @ ms" "numbered fs roots idx ms k"
      using Cons.IH [OF Flat(3)] by blast
    then show ?thesis
      using numbered_flat [OF _ Flat(1,2), of roots idx ms k] by auto
  qed
qed

lemma next_index_funpow:
  assumes "0 \<le> idx" and "idx + int i \<le> i64_max"
  shows "(next_index ^^ i) idx = idx + int i"
  using assms
proof (induction i)
  case (Suc i)
  then show ?case by (simp add: next_index_def in_i64_def i64_min_def)
qed simp

section \<open>Directories are recognised\<close>

text \<open>The roots and the other lines of a snapshot, whichever of the two shapes it has.\<close>

definition top_level ::
  "(string \<Rightarrow> string) \<Rightarrow> url_file \<Rightarrow> snapshot \<Rightarrow> top_level_member list \<times> file_set_line list" where
  "top_level nfc url s =
     (if local_file_roots nfc s \<noteq> [] then (local_file_roots nfc s, [])
      else (case uri_list_text s of
              None \<Rightarrow> ([], [])
            | Some text \<Rightarrow> split_uri_lines nfc url 0 0 (str_lines text)))"

definition top_level_ok :: "top_level_member list \<Rightarrow> file_set_line list \<Rightarrow> bool" where
  "top_level_ok roots others \<longleftrightarrow>
     (\<forall>tm \<in> set roots. 0 \<le> tm_index tm \<and> tm_index tm < int (length roots + length others)) \<and>
     (\<forall>l \<in> set others. member_location l = None)"

lemma split_uri_lines_ok:
  "split_uri_lines nfc url i r raws = (ms, os) \<Longrightarrow>
     length ms + length os = length raws \<and>
     (\<forall>tm \<in> set ms. i \<le> tm_index tm \<and> tm_index tm < i + int (length raws)) \<and>
     (\<forall>l \<in> set os. member_location l = None)"
proof (induction raws arbitrary: i r ms os)
  case (Cons raw raws)
  obtain ms' os' r' where ih: "split_uri_lines nfc url (i + 1) r' raws = (ms', os')"
    and "length ms + length os = Suc (length ms' + length os')"
    and "\<forall>tm \<in> set ms. tm_index tm = i \<or> tm \<in> set ms'"
    and "\<forall>l \<in> set os. member_location l = None \<or> l \<in> set os'"
    using Cons.prems by (auto split: uri_line_kind.splits prod.splits)
  with Cons.IH [OF ih] show ?case by fastforce
qed simp

lemma build_entry_file_set_cases:
  assumes "build_entry_file_set nfc url fs hash_path caps s = Some ls"
  obtains roots others where "top_level nfc url s = (roots, others)" and "top_level_ok roots others"
    and "ls = build_file_member_lines nfc fs hash_path caps roots others (int (length roots + length others))"
proof (cases "local_file_roots nfc s = []")
  case False
  have "top_level_ok (local_file_roots nfc s) []"
    by (auto simp: top_level_ok_def local_file_roots_def in_set_enumerate_eq)
  then show thesis
    using assms False by (intro that [of "local_file_roots nfc s" "[]"]) (simp_all add: top_level_def build_entry_file_set_def Let_def)
next
  case True
  obtain raw where t: "uri_list_text s = Some raw"
    using assms True by (auto simp: build_entry_file_set_def split: option.splits)
  obtain ms os where sp: "split_uri_lines nfc url 0 0 (str_lines raw) = (ms, os)"
    by (cases "split_uri_lines nfc url 0 0 (str_lines raw)")
  note ok = split_uri_lines_ok [OF sp]
  show thesis
    by (rule that [of ms os]) (use assms True t sp ok in \<open>auto simp: top_level_def build_entry_file_set_def top_level_ok_def simp flip: of_nat_add\<close>)
qed

definition keeps_slash_free :: "(string \<Rightarrow> string) \<Rightarrow> bool" where
  "keeps_slash_free nfc \<longleftrightarrow> (\<forall>s. CHR ''/'' \<notin> set s \<longrightarrow> CHR ''/'' \<notin> set (nfc s))"

lemma split_on_no_sep: "p \<in> set (split_on c s) \<Longrightarrow> c \<notin> set p"
  by (induction c s arbitrary: p rule: split_on.induct) (auto split: list.splits if_splits)

lemma normalized_basename_slash_free:
  assumes "keeps_slash_free nfc"
  shows "CHR ''/'' \<notin> set (normalized_basename nfc p)"
proof (cases "path_file_name p")
  case (Some n)
  then have "n \<in> set (filter (\<lambda>c. c \<noteq> [] \<and> c \<noteq> ''.'') (split_on (CHR ''/'') p))"
    unfolding path_file_name_def by (auto split: list.splits if_splits simp del: set_filter)
  then have "n \<in> set (split_on (CHR ''/'') p)" by simp
  then show ?thesis
    using assms Some split_on_no_sep [of n "CHR ''/''" p] by (simp add: normalized_basename_def keeps_slash_free_def)
qed (simp add: normalized_basename_def)

lemma indicates_pending:
  "indicates_directory_root (hashed_pending hash_path l) n \<longleftrightarrow>
     member_kind (pl_location l) = EmptyDirectoryM \<or> CHR ''/'' \<in> set (relative_path (pl_location l)) \<or>
     n \<le> pl_index l"
  by (simp add: indicates_directory_root_def hashed_pending_def)

lemma flat_line:
  assumes "keeps_slash_free nfc" and "dir_roots fs roots = []" and "full_view l \<in> set (roots_view nfc fs roots)"
  shows "member_kind (pl_location l) \<noteq> EmptyDirectoryM" and "CHR ''/'' \<notin> set (relative_path (pl_location l))"
proof -
  obtain tm m where tm: "tm \<in> set roots" "m \<in> set (root_members nfc fs tm)" "full_view l = placed tm m"
    using assms(3) by (auto simp: roots_view_def)
  then have "fst m = normalized_basename nfc (tm_path tm) \<and> fst (snd m) \<noteq> EmptyDirectoryM"
    using assms(2) by (auto simp: dir_roots_def filter_empty_conv root_members_def mk_member_kind_def split: fs_node.splits)
  then show "member_kind (pl_location l) \<noteq> EmptyDirectoryM" and "CHR ''/'' \<notin> set (relative_path (pl_location l))"
    using tm(3) normalized_basename_slash_free [OF assms(1)]
    by (auto simp: full_view_def placed_def split: prod.splits)
qed

lemma directory_structure_built:
  assumes "set_fits fs caps roots" and "top_level_ok roots others" and "keeps_slash_free nfc"
    and T: "T = length roots + length others"
    and small: "int (T + length (build_file_member_lines nfc fs hash_path caps roots others (int T))) \<le> i64_max"
  shows "has_directory_structure (build_file_member_lines nfc fs hash_path caps roots others (int T)) \<longleftrightarrow>
    dir_roots fs roots \<noteq> []"
proof -
  obtain pending where w: "walk_roots nfc fs caps roots (int T, no_budget, []) = (pending, None)"
    and view: "mset (map full_view pending) = mset (roots_view nfc fs roots)"
    and built: "build_file_member_lines nfc fs hash_path caps roots others (int T) =
      sort_key line_index (others @ map (hashed_pending hash_path) pending)"
    by (rule build_lines_fits [OF assms(1), of nfc "int T" hash_path others]) (metis prod.collapse)
  obtain d where num: "numbered fs roots (int T) pending d"
    using walk_roots_numbered [OF w] by auto
  let ?n = "int (length others + length pending)"
  have others: "\<not> indicates_directory_root l ?n" if "l \<in> set others" for l
    using assms(2) that by (simp add: top_level_ok_def indicates_directory_root_def)
  have struct: "has_directory_structure (build_file_member_lines nfc fs hash_path caps roots others (int T)) \<longleftrightarrow>
      (\<exists>l \<in> set pending. indicates_directory_root (hashed_pending hash_path l) ?n)"
    unfolding built has_directory_structure_def using others by (auto simp: list_ex_iff)
  have len: "length pending + length (dir_roots fs roots) = length roots + d"
    and dz: "d = 0 \<longleftrightarrow> dir_roots fs roots = []"
    using num by (auto simp: numbered_def)
  have dirs_le: "length (dir_roots fs roots) \<le> length roots"
    by (simp add: dir_roots_def)
  show ?thesis
  proof (cases "d = 0")
    case True
    have "\<not> indicates_directory_root (hashed_pending hash_path l) ?n" if "l \<in> set pending" for l
    proof -
      have "full_view l \<in> set (roots_view nfc fs roots)"
        using that view by (metis image_eqI list.set_map set_mset_mset)
      note flat = flat_line [OF assms(3) dz [THEN iffD1, OF True] this]
      have "pl_index l \<in> tm_index ` set roots"
        using num that True by (auto simp: numbered_def)
      then have "pl_index l < int T"
        using assms(2) by (auto simp: top_level_ok_def T)
      then show ?thesis
        using flat len dz True by (simp add: indicates_pending T)
    qed
    then show ?thesis using struct dz True by blast
  next
    case False
    obtain l where l: "l \<in> set pending" "pl_index l = (next_index ^^ (d - 1)) (int T)"
      using num False by (auto simp: numbered_def)
    have "int T + int (d - 1) \<le> i64_max"
      using small len dirs_le by (simp add: built)
    then have "pl_index l = int T + int (d - 1)"
      by (simp add: l(2) next_index_funpow)
    then have "indicates_directory_root (hashed_pending hash_path l) ?n"
      using len False dz by (cases "dir_roots fs roots") (auto simp: indicates_pending T)
    then show ?thesis using struct l(1) dz False by blast
  qed
qed

end
