(* ===== verification/Blob_Store.thy ===== *)
theory Blob_Store
  imports Content_Identity
begin

text \<open>
  The blob store: the encrypting store \<^verbatim>\<open>uc-infra/security/encrypted_blob_store.rs\<close> over the
  files of \<^verbatim>\<open>uc-infra/blob/filesystem_store.rs\<close>, and the writer that deduplicates by content
  hash, \<^verbatim>\<open>uc-infra/blob/blob_writer.rs\<close>.

  zstd, XChaCha20-Poly1305 and BLAKE3 are parameters. The random nonce and the fresh blob id of an
  operation, and what the file system, the database and other tasks do meanwhile, are fields of
  its environment.
\<close>

section \<open>The format of a blob file\<close>

definition blob_magic :: "byte list" where "blob_magic = [0x55, 0x43, 0x42, 0x4C]"
definition blob_format_version :: byte where "blob_format_version = 1"
definition blob_header_size :: nat where "blob_header_size = 4 + 1 + 24"
definition max_blob_size :: nat where "max_blob_size = 500 * 1024 * 1024"

definition serialize_blob :: "byte list \<Rightarrow> byte list \<Rightarrow> byte list" where
  "serialize_blob nonce ciphertext = blob_magic @ [blob_format_version] @ nonce @ ciphertext"

datatype blob_error =
    BlobTruncated | BadMagic | BadVersion byte | NotReady | CompressFails | EncryptFails
  | DecryptFails | DecompressFails | BlobIo | BlobDb

definition parse_blob :: "byte list \<Rightarrow> blob_error + byte list \<times> byte list" where
  "parse_blob data =
     (if length data < blob_header_size then Inl BlobTruncated
      else if take 4 data \<noteq> blob_magic then Inl BadMagic
      else if data ! 4 \<noteq> blob_format_version then Inl (BadVersion (data ! 4))
      else Inr (take 24 (drop 5 data), drop 29 data))"

definition blob_aad :: "string \<Rightarrow> byte list" where
  "blob_aad blob_id = str_bytes (''uc:blob:v2|'' @ blob_id)"

section \<open>The encrypting store\<close>

record blob_prims =
  bp_compress :: "byte list \<Rightarrow> byte list option"
  bp_decompress :: "byte list \<Rightarrow> nat \<Rightarrow> byte list option"
  bp_seal :: "byte list \<Rightarrow> byte list \<Rightarrow> byte list \<Rightarrow> byte list \<Rightarrow> byte list option"
  bp_open :: "byte list \<Rightarrow> byte list \<Rightarrow> byte list \<Rightarrow> byte list \<Rightarrow> byte list option"

type_synonym blob_files = "string \<rightharpoonup> byte list"

text \<open>
  What the disk does with one write: \<open>None\<close> writes the bytes and flushes them; \<open>Some left\<close> fails
  and leaves what is given.
\<close>

type_synonym disk_fault = "byte list option option"

definition fs_put :: "disk_fault \<Rightarrow> string \<Rightarrow> byte list \<Rightarrow> blob_files \<Rightarrow> (blob_error + unit) \<times> blob_files" where
  "fs_put fault blob_id data files =
     (case fault of
        None \<Rightarrow> (Inr (), files(blob_id \<mapsto> data))
      | Some left \<Rightarrow> (Inl BlobIo, files(blob_id := left)))"

definition fs_get :: "string \<Rightarrow> blob_files \<Rightarrow> blob_error + byte list" where
  "fs_get blob_id files = (case files blob_id of None \<Rightarrow> Inl BlobIo | Some b \<Rightarrow> Inr b)"

definition encrypted_put ::
  "blob_prims \<Rightarrow> byte list option \<Rightarrow> byte list \<Rightarrow> disk_fault \<Rightarrow> string \<Rightarrow> byte list \<Rightarrow> blob_files \<Rightarrow>
   (blob_error + nat) \<times> blob_files" where
  "encrypted_put P session nonce fault blob_id data files =
     (case session of
        None \<Rightarrow> (Inl NotReady, files)
      | Some key \<Rightarrow>
          (case bp_compress P data of
             None \<Rightarrow> (Inl CompressFails, files)
           | Some compressed \<Rightarrow>
               (case bp_seal P key nonce compressed (blob_aad blob_id) of
                  None \<Rightarrow> (Inl EncryptFails, files)
                | Some ct \<Rightarrow>
                    if length nonce \<noteq> 24 then (Inl EncryptFails, files)
                    else
                      (let binary = serialize_blob nonce ct in
                       case fs_put fault blob_id binary files of
                         (Inl e, files') \<Rightarrow> (Inl e, files')
                       | (Inr _, files') \<Rightarrow> (Inr (length binary), files')))))"

definition encrypted_get ::
  "blob_prims \<Rightarrow> byte list option \<Rightarrow> string \<Rightarrow> blob_files \<Rightarrow> blob_error + byte list" where
  "encrypted_get P session blob_id files =
     (case fs_get blob_id files of
        Inl e \<Rightarrow> Inl e
      | Inr data \<Rightarrow>
          (case parse_blob data of
             Inl e \<Rightarrow> Inl e
           | Inr (nonce, ct) \<Rightarrow>
               (case session of
                  None \<Rightarrow> Inl NotReady
                | Some key \<Rightarrow>
                    (case bp_open P key nonce ct (blob_aad blob_id) of
                       None \<Rightarrow> Inl DecryptFails
                     | Some compressed \<Rightarrow>
                         (case bp_decompress P compressed max_blob_size of
                            None \<Rightarrow> Inl DecompressFails
                          | Some b \<Rightarrow> Inr b)))))"

text \<open>
  \<^verbatim>\<open>put_from_path\<close> reads the source whole, hashes what it read and puts it. \<open>None\<close> is a source
  that cannot be read.
\<close>

definition put_from_path ::
  "blob_prims \<Rightarrow> (byte list \<Rightarrow> digest) \<Rightarrow> byte list option \<Rightarrow> byte list \<Rightarrow> disk_fault \<Rightarrow> string \<Rightarrow>
   byte list option \<Rightarrow> blob_files \<Rightarrow> (blob_error + digest \<times> nat \<times> nat) \<times> blob_files" where
  "put_from_path P h session nonce fault blob_id source files =
     (case source of
        None \<Rightarrow> (Inl BlobIo, files)
      | Some bytes \<Rightarrow>
          (case encrypted_put P session nonce fault blob_id bytes files of
             (Inl e, files') \<Rightarrow> (Inl e, files')
           | (Inr stored, files') \<Rightarrow> (Inr (h bytes, length bytes, stored), files')))"

text \<open>Documented behaviour of the third-party functions.\<close>

definition blob_sound :: "blob_prims \<Rightarrow> bool" where
  "blob_sound P \<longleftrightarrow>
     (\<forall>k n m a ct. bp_seal P k n m a = Some ct \<longrightarrow> bp_open P k n ct a = Some m) \<and>
     (\<forall>m z cap. bp_compress P m = Some z \<longrightarrow>
        bp_decompress P z cap = (if length m \<le> cap then Some m else None))"

lemma serialize_parts:
  assumes "length nonce = 24"
  shows "\<not> length (serialize_blob nonce ct) < blob_header_size" and "take 4 (serialize_blob nonce ct) = blob_magic"
    and "serialize_blob nonce ct ! 4 = blob_format_version" and "take 24 (drop 5 (serialize_blob nonce ct)) = nonce"
    and "drop 29 (serialize_blob nonce ct) = ct"
proof -
  have m: "length blob_magic = 4" by (simp add: blob_magic_def)
  have five: "length (blob_magic @ [blob_format_version]) = 5" by (simp add: m)
  have all: "length (blob_magic @ [blob_format_version] @ nonce) = 29" by (simp add: m assms)
  show "\<not> length (serialize_blob nonce ct) < blob_header_size"
    by (simp add: serialize_blob_def blob_header_size_def m assms)
  show "take 4 (serialize_blob nonce ct) = blob_magic"
    unfolding serialize_blob_def by (metis append_eq_conv_conj m)
  show "serialize_blob nonce ct ! 4 = blob_format_version"
    unfolding serialize_blob_def by (metis append_Cons m nth_append_length)
  have "drop 5 (serialize_blob nonce ct) = nonce @ ct"
    unfolding serialize_blob_def by (metis append_assoc append_eq_conv_conj five)
  then show "take 24 (drop 5 (serialize_blob nonce ct)) = nonce"
    using assms by simp
  show "drop 29 (serialize_blob nonce ct) = ct"
    unfolding serialize_blob_def by (metis append_assoc append_eq_conv_conj all)
qed

lemma parse_serialize: "length nonce = 24 \<Longrightarrow> parse_blob (serialize_blob nonce ct) = Inr (nonce, ct)"
  unfolding parse_blob_def by (simp only: serialize_parts if_False not_True_eq_False simp_thms)

lemma parse_blob_canonical:
  assumes "parse_blob data = Inr (nonce, ct)"
  shows "data = serialize_blob nonce ct \<and> length nonce = 24"
proof -
  from assms have len: "29 \<le> length data" and m: "take 4 data = blob_magic" and v: "data ! 4 = blob_format_version"
    and n: "nonce = take 24 (drop 5 data)" and c: "ct = drop 29 data"
    by (auto simp: parse_blob_def blob_header_size_def split: if_splits)
  have "data = take 4 data @ data ! 4 # drop 5 data"
    using len id_take_nth_drop [of 4 data] by simp
  also have "drop 5 data = take 24 (drop 5 data) @ drop 29 data"
    using append_take_drop_id [of 24 "drop 5 data"] by simp
  finally show ?thesis using m v n c len by (simp add: serialize_blob_def)
qed

lemma encrypted_put_file:
  assumes "encrypted_put P session nonce fault i data files = (Inr n, files')"
  obtains key z ct where "session = Some key" and "bp_compress P data = Some z"
    and "bp_seal P key nonce z (blob_aad i) = Some ct" and "length nonce = 24"
    and "files' = files(i \<mapsto> serialize_blob nonce ct)"
  using assms by (auto simp: encrypted_put_def fs_put_def Let_def split: option.splits if_splits sum.splits prod.splits)

text \<open>
  What was put is read back with the same key, as long as it is at most 500 MiB; anything larger is
  accepted by the put and never read again.
\<close>

lemma get_after_put:
  assumes "blob_sound P" and "encrypted_put P (Some key) nonce fault i data files = (Inr n, files')"
  shows "encrypted_get P (Some key) i files' = (if length data \<le> max_blob_size then Inr data else Inl DecompressFails)"
proof -
  obtain z ct where "bp_compress P data = Some z" "bp_seal P key nonce z (blob_aad i) = Some ct" "length nonce = 24"
    "files' = files(i \<mapsto> serialize_blob nonce ct)"
    by (rule encrypted_put_file [OF assms(2)]) auto
  then show ?thesis
    using assms(1) by (simp add: encrypted_get_def fs_get_def parse_serialize blob_sound_def)
qed

lemma encrypted_put_other:
  "j \<noteq> i \<Longrightarrow> snd (encrypted_put P session nonce fault i data files) j = files j"
  by (auto simp: encrypted_put_def fs_put_def Let_def split: option.split)

lemma encrypted_get_other:
  "files i = files' i \<Longrightarrow> encrypted_get P session i files = encrypted_get P session i files'"
  by (simp add: encrypted_get_def fs_get_def)

section \<open>The writer\<close>

record blob_row =
  bl_id :: string
  bl_size :: int
  bl_hash :: digest
  bl_created :: int
  bl_stored :: int

record blob_db =
  bd_files :: blob_files
  bd_rows :: "blob_row list"

definition find_by_hash :: "bool \<Rightarrow> digest \<Rightarrow> blob_db \<Rightarrow> blob_error + blob_row option" where
  "find_by_hash db_error h d =
     (if db_error then Inl BlobDb else Inr (find (\<lambda>r. bl_hash r = h) (bd_rows d)))"

text \<open>The insertion fails on an error and on the unique columns of the table.\<close>

definition insert_blob :: "bool \<Rightarrow> blob_row \<Rightarrow> blob_db \<Rightarrow> (blob_error + unit) \<times> blob_db" where
  "insert_blob db_error row d =
     (if db_error \<or> (\<exists>r \<in> set (bd_rows d). bl_hash r = bl_hash row \<or> bl_id r = bl_id row)
      then (Inl BlobDb, d) else (Inr (), d\<lparr>bd_rows := bd_rows d @ [row]\<rparr>))"

record blob_env =
  be_session :: "byte list option"
  be_id :: string
  be_nonce :: "byte list"
  be_now :: int
  be_find_fails :: bool
  be_disk :: disk_fault
  be_between :: "blob_db \<Rightarrow> blob_db"
  be_insert_fails :: bool
  be_refind_fails :: bool
  be_discard_fails :: bool

definition write_if_absent ::
  "blob_prims \<Rightarrow> blob_env \<Rightarrow> digest \<Rightarrow> byte list \<Rightarrow> blob_db \<Rightarrow> (blob_error + string) \<times> blob_db" where
  "write_if_absent P e content_id bytes d =
     (case find_by_hash (be_find_fails e) content_id d of
        Inl err \<Rightarrow> (Inl err, d)
      | Inr (Some existing) \<Rightarrow> (Inr (bl_id existing), d)
      | Inr None \<Rightarrow>
          (case encrypted_put P (be_session e) (be_nonce e) (be_disk e) (be_id e) bytes (bd_files d) of
             (Inl err, files) \<Rightarrow> (Inl err, d\<lparr>bd_files := files\<rparr>)
           | (Inr stored, files) \<Rightarrow>
               (let d1 = be_between e (d\<lparr>bd_files := files\<rparr>);
                    row = \<lparr>bl_id = be_id e, bl_size = int (length bytes), bl_hash = content_id,
                           bl_created = be_now e, bl_stored = int stored\<rparr> in
                case insert_blob (be_insert_fails e) row d1 of
                  (Inr _, d2) \<Rightarrow> (Inr (be_id e), d2)
                | (Inl err, _) \<Rightarrow>
                    (case find_by_hash (be_refind_fails e) content_id d1 of
                       Inl err2 \<Rightarrow> (Inl err2, d1)
                     | Inr (Some existing) \<Rightarrow> (Inr (bl_id existing), d1)
                     | Inr None \<Rightarrow> (Inl err, d1)))))"

definition discard_blob :: "blob_env \<Rightarrow> blob_db \<Rightarrow> blob_db" where
  "discard_blob e d =
     (if be_discard_fails e then d else d\<lparr>bd_files := (bd_files d)(be_id e := None)\<rparr>)"

text \<open>The content hash and size that come with the id are the fields of \<^verbatim>\<open>IngestedBlob\<close>.\<close>

definition ingest_path ::
  "blob_prims \<Rightarrow> (byte list \<Rightarrow> digest) \<Rightarrow> blob_env \<Rightarrow> byte list option \<Rightarrow> blob_db \<Rightarrow>
   (blob_error + string \<times> digest \<times> nat) \<times> blob_db" where
  "ingest_path P h e source d =
     (case put_from_path P h (be_session e) (be_nonce e) (be_disk e) (be_id e) source (bd_files d) of
        (Inl err, files) \<Rightarrow> (Inl err, discard_blob e (d\<lparr>bd_files := files\<rparr>))
      | (Inr (ch, sz, stored), files) \<Rightarrow>
          (let d0 = d\<lparr>bd_files := files\<rparr> in
           case find_by_hash (be_find_fails e) ch d0 of
             Inr (Some existing) \<Rightarrow> (Inr (bl_id existing, ch, sz), discard_blob e d0)
           | Inl err \<Rightarrow> (Inl err, discard_blob e d0)
           | Inr None \<Rightarrow>
               (let d1 = be_between e d0;
                    row = \<lparr>bl_id = be_id e, bl_size = i64_wrap (int sz), bl_hash = ch,
                           bl_created = be_now e, bl_stored = int stored\<rparr> in
                case insert_blob (be_insert_fails e) row d1 of
                  (Inr _, d2) \<Rightarrow> (Inr (be_id e, ch, sz), d2)
                | (Inl err, _) \<Rightarrow>
                    (case find_by_hash (be_refind_fails e) ch d1 of
                       Inr (Some existing) \<Rightarrow> (Inr (bl_id existing, ch, sz), discard_blob e d1)
                     | _ \<Rightarrow> (Inl err, discard_blob e d1)))))"

section \<open>What a record vouches for\<close>

definition blob_holds :: "blob_prims \<Rightarrow> byte list \<Rightarrow> blob_db \<Rightarrow> string \<Rightarrow> byte list \<Rightarrow> bool" where
  "blob_holds P key d i b \<longleftrightarrow>
     (\<exists>nonce z ct. bd_files d i = Some (serialize_blob nonce ct) \<and> length nonce = 24 \<and>
        bp_compress P b = Some z \<and> bp_seal P key nonce z (blob_aad i) = Some ct)"

definition blob_inv ::
  "blob_prims \<Rightarrow> (byte list \<Rightarrow> digest) \<Rightarrow> byte list \<Rightarrow> byte list set \<Rightarrow> blob_db \<Rightarrow> bool" where
  "blob_inv P h key S d \<longleftrightarrow>
     distinct (map bl_id (bd_rows d)) \<and> distinct (map bl_hash (bd_rows d)) \<and>
     (\<forall>r \<in> set (bd_rows d). \<exists>b \<in> S. blob_holds P key d (bl_id r) b \<and> h b = bl_hash r)"

text \<open>
  \<open>S\<close> is the set of contents that are stored at all: the hash is taken to have no collision on it.
\<close>

text \<open>What other tasks may do meanwhile: add blobs under other ids, and keep those there are.\<close>

definition blob_grows :: "string \<Rightarrow> blob_db \<Rightarrow> blob_db \<Rightarrow> bool" where
  "blob_grows i d d' \<longleftrightarrow>
     set (bd_rows d) \<subseteq> set (bd_rows d') \<and> bd_files d' i = bd_files d i \<and>
     (\<forall>r \<in> set (bd_rows d). bd_files d' (bl_id r) = bd_files d (bl_id r)) \<and>
     (i \<notin> bl_id ` set (bd_rows d) \<longrightarrow> i \<notin> bl_id ` set (bd_rows d'))"

definition blob_quiet ::
  "blob_prims \<Rightarrow> (byte list \<Rightarrow> digest) \<Rightarrow> byte list \<Rightarrow> byte list set \<Rightarrow> blob_env \<Rightarrow> bool" where
  "blob_quiet P h key S e \<longleftrightarrow>
     (\<forall>d. blob_grows (be_id e) d (be_between e d) \<and> (blob_inv P h key S d \<longrightarrow> blob_inv P h key S (be_between e d)))"

lemma blob_holds_get:
  "\<lbrakk>blob_sound P; blob_holds P key d i b; length b \<le> max_blob_size\<rbrakk> \<Longrightarrow>
   encrypted_get P (Some key) i (bd_files d) = Inr b"
  by (auto simp: blob_holds_def encrypted_get_def fs_get_def parse_serialize blob_sound_def)

lemma blob_holds_cong: "bd_files d i = bd_files d' i \<Longrightarrow> blob_holds P key d i b = blob_holds P key d' i b"
  by (simp add: blob_holds_def)

lemma encrypted_put_holds:
  assumes "encrypted_put P (Some key) nonce fault i data (bd_files d) = (Inr n, files)"
  shows "blob_holds P key (d\<lparr>bd_files := files\<rparr>) i data"
  by (rule encrypted_put_file [OF assms]) (auto simp: blob_holds_def)

text \<open>A file that no record names may be written or removed.\<close>

lemma blob_inv_files:
  assumes "blob_inv P h key S d" and "\<forall>r \<in> set (bd_rows d). files (bl_id r) = bd_files d (bl_id r)"
  shows "blob_inv P h key S (d\<lparr>bd_files := files\<rparr>)"
  using assms by (auto simp: blob_inv_def blob_holds_def)

lemma blob_inv_put:
  assumes "blob_inv P h key S d" and "i \<notin> bl_id ` set (bd_rows d)"
  shows "blob_inv P h key S (d\<lparr>bd_files := snd (encrypted_put P session nonce fault i data (bd_files d))\<rparr>)"
  by (rule blob_inv_files [OF assms(1)]) (use assms(2) in \<open>auto intro: encrypted_put_other\<close>)

lemma blob_inv_discard:
  assumes "blob_inv P h key S d" and "be_id e \<notin> bl_id ` set (bd_rows d)"
  shows "blob_inv P h key S (discard_blob e d)"
proof (cases "be_discard_fails e")
  case False
  have "blob_inv P h key S (d\<lparr>bd_files := (bd_files d)(be_id e := None)\<rparr>)"
    by (rule blob_inv_files [OF assms(1)]) (use assms(2) in \<open>auto simp: image_iff\<close>)
  then show ?thesis using False by (simp add: discard_blob_def)
qed (use assms in \<open>simp add: discard_blob_def\<close>)

lemma find_by_hash_SomeD:
  "find_by_hash f h d = Inr (Some r) \<Longrightarrow> r \<in> set (bd_rows d) \<and> bl_hash r = h"
  by (auto simp: find_by_hash_def find_Some_iff split: if_splits)

lemma insert_blob_inv:
  assumes "blob_inv P h key S d" and "insert_blob f row d = (Inr u, d')" and "blob_holds P key d (bl_id row) b"
    and "h b = bl_hash row" and "b \<in> S"
  shows "blob_inv P h key S d' \<and> row \<in> set (bd_rows d') \<and> bd_files d' = bd_files d"
proof -
  from assms(2) have d': "d' = d\<lparr>bd_rows := bd_rows d @ [row]\<rparr>"
    and new: "bl_hash row \<notin> bl_hash ` set (bd_rows d)" "bl_id row \<notin> bl_id ` set (bd_rows d)"
    by (auto simp: insert_blob_def image_iff split: if_splits)
  have same: "blob_holds P key d' = blob_holds P key d"
    by (simp add: blob_holds_def d' fun_eq_iff)
  have "\<exists>b \<in> S. blob_holds P key d' (bl_id r) b \<and> h b = bl_hash r" if "r \<in> set (bd_rows d')" for r
  proof -
    from that consider "r = row" | "r \<in> set (bd_rows d)" by (auto simp: d')
    then show ?thesis
    proof cases
      case 1
      with assms(3-5) show ?thesis unfolding same by blast
    next
      case 2
      with assms(1) show ?thesis unfolding same blob_inv_def by blast
    qed
  qed
  then show ?thesis
    using assms(1) new by (simp add: blob_inv_def d')
qed

lemma blob_grows_fresh:
  "\<lbrakk>blob_grows i d d'; i \<notin> bl_id ` set (bd_rows d)\<rbrakk> \<Longrightarrow> i \<notin> bl_id ` set (bd_rows d')"
  by (simp add: blob_grows_def)

text \<open>
  A write that returns an id left a record of that id and content behind, whoever wrote it; the
  invariant is kept on every path.
\<close>

lemma write_if_absent_inv:
  assumes inv: "blob_inv P h key S d" and q: "blob_quiet P h key S e" and fresh: "be_id e \<notin> bl_id ` set (bd_rows d)"
    and key: "be_session e \<in> {None, Some key}" and hash: "h bytes = content_id" "bytes \<in> S"
  shows "blob_inv P h key S (snd (write_if_absent P e content_id bytes d)) \<and>
    (\<forall>i. fst (write_if_absent P e content_id bytes d) = Inr i \<longrightarrow>
       (\<exists>r \<in> set (bd_rows (snd (write_if_absent P e content_id bytes d))). bl_id r = i \<and> bl_hash r = content_id))"
proof (cases "find_by_hash (be_find_fails e) content_id d")
  case (Inl err)
  then show ?thesis using inv by (simp add: write_if_absent_def)
next
  case (Inr found)
  show ?thesis
  proof (cases found)
    case (Some r)
    then show ?thesis
      using inv Inr find_by_hash_SomeD [of _ content_id d r] by (auto simp: write_if_absent_def)
  next
    case None
    obtain res files where p: "encrypted_put P (be_session e) (be_nonce e) (be_disk e) (be_id e) bytes (bd_files d) = (res, files)"
      by (cases "encrypted_put P (be_session e) (be_nonce e) (be_disk e) (be_id e) bytes (bd_files d)")
    have inv0: "blob_inv P h key S (d\<lparr>bd_files := files\<rparr>)"
      using blob_inv_put [OF inv fresh, of "be_session e" "be_nonce e" "be_disk e" bytes] p by simp
    show ?thesis
    proof (cases res)
      case (Inl err)
      then show ?thesis using Inr None p inv0 by (simp add: write_if_absent_def)
    next
      case stored: (Inr n)
      let ?d1 = "be_between e (d\<lparr>bd_files := files\<rparr>)"
      let ?row = "\<lparr>bl_id = be_id e, bl_size = int (length bytes), bl_hash = content_id,
        bl_created = be_now e, bl_stored = int n\<rparr>"
      have inv1: "blob_inv P h key S ?d1" and g: "blob_grows (be_id e) (d\<lparr>bd_files := files\<rparr>) ?d1"
        using q inv0 by (auto simp: blob_quiet_def)
      have "be_session e = Some key"
        using key p stored by (auto simp: encrypted_put_def)
      then have "blob_holds P key (d\<lparr>bd_files := files\<rparr>) (be_id e) bytes"
        using encrypted_put_holds p stored by metis
      then have holds: "blob_holds P key ?d1 (bl_id ?row) bytes"
        using g blob_holds_cong [of ?d1 "be_id e" "d\<lparr>bd_files := files\<rparr>"] by (simp add: blob_grows_def)
      obtain ins d2 where ins: "insert_blob (be_insert_fails e) ?row ?d1 = (ins, d2)"
        by (cases "insert_blob (be_insert_fails e) ?row ?d1")
      show ?thesis
      proof (cases ins)
        case (Inr u)
        then have "blob_inv P h key S d2" and row: "?row \<in> set (bd_rows d2)"
          using insert_blob_inv [OF inv1, of "be_insert_fails e" ?row u d2 bytes] ins holds hash by simp_all
        moreover have "write_if_absent P e content_id bytes d = (Inr (be_id e), d2)"
          using Inr ins \<open>found = None\<close> \<open>find_by_hash (be_find_fails e) content_id d = Inr found\<close> p stored
          by (simp add: write_if_absent_def Let_def)
        ultimately show ?thesis
          using bexI [OF _ row, of "\<lambda>r. bl_id r = be_id e \<and> bl_hash r = content_id"] by simp
      next
        case (Inl err)
        then show ?thesis
          using inv1 ins \<open>found = None\<close> \<open>find_by_hash (be_find_fails e) content_id d = Inr found\<close> p stored
          by (auto simp: write_if_absent_def Let_def dest: find_by_hash_SomeD split: sum.split option.split)
      qed
    qed
  qed
qed

text \<open>Without a collision of hashes, content is read back under the id its write returned.\<close>

lemma write_if_absent_read:
  assumes "blob_sound P" and "blob_inv P h key S d" and "blob_quiet P h key S e" and "be_id e \<notin> bl_id ` set (bd_rows d)"
    and "be_session e \<in> {None, Some key}" and "inj_on h S" and "bytes \<in> S"
    and ok: "write_if_absent P e (h bytes) bytes d = (Inr i, d')"
  shows "blob_holds P key d' i bytes \<and>
    encrypted_get P (Some key) i (bd_files d') = (if length bytes \<le> max_blob_size then Inr bytes else Inl DecompressFails)"
proof -
  have "blob_inv P h key S d'" and "\<exists>r \<in> set (bd_rows d'). bl_id r = i \<and> bl_hash r = h bytes"
    using write_if_absent_inv [OF assms(2-5) refl assms(7)] ok by simp_all
  then have holds: "blob_holds P key d' i bytes"
    using assms(6,7) unfolding blob_inv_def inj_on_def by metis
  then obtain nonce z ct where "bd_files d' i = Some (serialize_blob nonce ct)" "length nonce = 24"
    "bp_compress P bytes = Some z" "bp_seal P key nonce z (blob_aad i) = Some ct"
    unfolding blob_holds_def by blast
  then show ?thesis
    using holds assms(1) by (simp add: encrypted_get_def fs_get_def parse_serialize blob_sound_def)
qed

text \<open>
  An ingest that fails, or that finds its content there already, leaves no file of its own behind
  when the clean-up works; a write of bytes that loses the race against another one does.
\<close>

lemma ingest_no_orphan:
  assumes "\<not> be_discard_fails e" and "ingest_path P h e source d = (res, d')"
    and "\<forall>j. res = Inr j \<longrightarrow> fst j \<noteq> be_id e"
  shows "bd_files d' (be_id e) = None"
  using assms
  by (auto simp: ingest_path_def discard_blob_def Let_def split: prod.splits sum.splits option.splits)

lemma ingest_path_inv:
  assumes inv: "blob_inv P h key S d" and q: "blob_quiet P h key S e" and fresh: "be_id e \<notin> bl_id ` set (bd_rows d)"
    and key: "be_session e = Some key" and mem: "bytes \<in> S" and ok: "ingest_path P h e (Some bytes) d = (Inr (i, ch, n), d')"
  shows "blob_inv P h key S d' \<and> ch = h bytes \<and> n = length bytes \<and>
    (\<exists>r \<in> set (bd_rows d'). bl_id r = i \<and> bl_hash r = h bytes)"
proof -
  obtain stored files where p: "encrypted_put P (be_session e) (be_nonce e) (be_disk e) (be_id e) bytes (bd_files d) = (Inr stored, files)"
    using ok by (auto simp: ingest_path_def put_from_path_def split: prod.splits sum.splits)
  have put: "put_from_path P h (be_session e) (be_nonce e) (be_disk e) (be_id e) (Some bytes) (bd_files d) =
      (Inr (h bytes, length bytes, stored), files)"
    by (simp add: put_from_path_def p)
  let ?d0 = "d\<lparr>bd_files := files\<rparr>"
  have inv0: "blob_inv P h key S ?d0"
    using blob_inv_put [OF inv fresh, of "be_session e" "be_nonce e" "be_disk e" bytes] p by simp
  have fresh0: "be_id e \<notin> bl_id ` set (bd_rows ?d0)" using fresh by simp
  show ?thesis
  proof (cases "find_by_hash (be_find_fails e) (h bytes) ?d0")
    case (Inl err)
    then show ?thesis using ok by (simp add: ingest_path_def put Let_def)
  next
    case (Inr found)
    show ?thesis
    proof (cases found)
      case (Some r)
      note f = find_by_hash_SomeD [OF Inr [unfolded Some]]
      have rows: "bd_rows (discard_blob e ?d0) = bd_rows ?d0" by (simp add: discard_blob_def)
      show ?thesis
        using ok f Inr Some blob_inv_discard [OF inv0 fresh0] by (auto simp: ingest_path_def put Let_def rows)
    next
      case None
      let ?d1 = "be_between e ?d0"
      let ?row = "\<lparr>bl_id = be_id e, bl_size = i64_wrap (int (length bytes)), bl_hash = h bytes,
        bl_created = be_now e, bl_stored = int stored\<rparr>"
      have inv1: "blob_inv P h key S ?d1" and g: "blob_grows (be_id e) ?d0 ?d1"
        using q inv0 by (auto simp: blob_quiet_def)
      have fresh1: "be_id e \<notin> bl_id ` set (bd_rows ?d1)" by (rule blob_grows_fresh [OF g fresh0])
      have "blob_holds P key ?d0 (be_id e) bytes" using encrypted_put_holds p key by metis
      then have holds: "blob_holds P key ?d1 (bl_id ?row) bytes"
        using g blob_holds_cong [of ?d1 "be_id e" ?d0] by (simp add: blob_grows_def)
      obtain ins d2 where ins: "insert_blob (be_insert_fails e) ?row ?d1 = (ins, d2)"
        by (cases "insert_blob (be_insert_fails e) ?row ?d1")
      show ?thesis
      proof (cases ins)
        case u: (Inr u)
        then have "blob_inv P h key S d2" and row: "?row \<in> set (bd_rows d2)"
          using insert_blob_inv [OF inv1, of "be_insert_fails e" ?row u d2 bytes] ins holds mem by simp_all
        moreover have "i = be_id e \<and> ch = h bytes \<and> n = length bytes \<and> d' = d2"
          using ok Inr None u ins by (simp add: ingest_path_def put Let_def)
        ultimately show ?thesis
          using bexI [OF _ row, of "\<lambda>r. bl_id r = be_id e \<and> bl_hash r = h bytes"] by simp
      next
        case (Inl err)
        then obtain r where f: "find_by_hash (be_refind_fails e) (h bytes) ?d1 = Inr (Some r)"
          and i: "i = bl_id r" "ch = h bytes" "n = length bytes" "d' = discard_blob e ?d1"
          using ok Inr None ins by (auto simp: ingest_path_def put Let_def split: sum.splits option.splits)
        have rows: "bd_rows (discard_blob e ?d1) = bd_rows ?d1" by (simp add: discard_blob_def)
        show ?thesis
          using i find_by_hash_SomeD [OF f] blob_inv_discard [OF inv1 fresh1] by (auto simp: rows)
      qed
    qed
  qed
qed

end
