(* ===== verification/Spool.thy ===== *)
theory Spool
  imports Rep_Cache
begin

text \<open>
  The disk spool of representation bytes, \<^verbatim>\<open>uc-infra/clipboard/spool_manager.rs\<close>, and the
  queue in front of it, \<^verbatim>\<open>durable_spool_queue.rs\<close>. The directory is a map from file names to
  files with a modification time; what the operating system answers is a field of an environment.
  Representation ids are plain file names. The ledger is an association list in insertion order.
\<close>

section \<open>State\<close>

record spool_file =
  f_bytes :: "byte list"
  f_mtime :: int

record spool =
  sl_files :: "string \<rightharpoonup> spool_file"
  sl_entries :: "(string \<times> nat) list"
  sl_total :: nat
  sl_max :: nat

section \<open>The ledger\<close>

definition unregister :: "string \<Rightarrow> spool \<Rightarrow> bool \<times> spool" where
  "unregister k s =
     (case map_of (sl_entries s) k of
        Some old \<Rightarrow>
          (True, s\<lparr>sl_entries := AList.delete k (sl_entries s), sl_total := sl_total s - old\<rparr>)
      | None \<Rightarrow> (False, s))"

definition register :: "string \<Rightarrow> nat \<Rightarrow> spool \<Rightarrow> spool" where
  "register k sz s =
     (let s' = (case map_of (sl_entries s) k of
                  Some old \<Rightarrow>
                    s\<lparr>sl_entries := AList.delete k (sl_entries s), sl_total := sl_total s - old\<rparr>
                | None \<Rightarrow> s) in
      s'\<lparr>sl_entries := sl_entries s' @ [(k, sz)], sl_total := min usize_max (sl_total s' + sz)\<rparr>)"

definition pop_oldest_except :: "string option \<Rightarrow> spool \<Rightarrow> ((string \<times> nat) \<times> spool) option" where
  "pop_oldest_except exclude s =
     (case find_index (\<lambda>(k, _). exclude \<noteq> Some k) (sl_entries s) of
        None \<Rightarrow> None
      | Some i \<Rightarrow>
          (let (k, sz) = sl_entries s ! i in
           Some ((k, sz), s\<lparr>sl_entries := remove_index i (sl_entries s), sl_total := sl_total s - sz\<rparr>)))"

lemma pop_oldest_except_SomeD:
  assumes "pop_oldest_except exclude s = Some ((k, sz), s')"
  obtains xs ys where "sl_entries s = xs @ (k, sz) # ys" and "\<forall>e \<in> set xs. exclude = Some (fst e)"
    and "exclude \<noteq> Some k" and "s' = s\<lparr>sl_entries := xs @ ys, sl_total := sl_total s - sz\<rparr>"
proof -
  obtain i where i: "find_index (\<lambda>(k, _). exclude \<noteq> Some k) (sl_entries s) = Some i"
    and k: "sl_entries s ! i = (k, sz)"
    and s': "s' = s\<lparr>sl_entries := remove_index i (sl_entries s), sl_total := sl_total s - sz\<rparr>"
    using assms by (auto simp: pop_oldest_except_def split: option.splits prod.splits)
  note f = find_index_SomeD [OF i]
  show thesis
  proof (rule that [of "take i (sl_entries s)" "drop (Suc i) (sl_entries s)"])
    show "sl_entries s = take i (sl_entries s) @ (k, sz) # drop (Suc i) (sl_entries s)"
      using f k by (metis id_take_nth_drop)
    show "\<forall>e \<in> set (take i (sl_entries s)). exclude = Some (fst e)"
      using f by (force simp: in_set_conv_nth case_prod_unfold)
    show "exclude \<noteq> Some k" using f k by auto
  qed (simp add: s' remove_index_def)
qed

section \<open>Eviction\<close>

function evict_loop :: "string \<Rightarrow> nat \<Rightarrow> spool \<Rightarrow> string list \<Rightarrow> string list \<times> spool" where
  "evict_loop k running s victims =
     (if sl_max s < running then
        (case pop_oldest_except (Some k) s of
           None \<Rightarrow> (victims, s)
         | Some ((v, sz), s') \<Rightarrow> evict_loop k (running - sz) s' (victims @ [v]))
      else (victims, s))"
  by pat_completeness auto
termination
  by (relation "measure (\<lambda>(_, _, s, _). length (sl_entries s))") (auto elim!: pop_oldest_except_SomeD)

declare evict_loop.simps [simp del]

definition plan_eviction :: "string \<Rightarrow> nat \<Rightarrow> spool \<Rightarrow> string list \<times> spool" where
  "plan_eviction k sz s =
     (let existing = (case map_of (sl_entries s) k of Some n \<Rightarrow> n | None \<Rightarrow> 0);
          projected = min usize_max (sl_total s - existing + sz) in
      if projected \<le> sl_max s then ([], s) else evict_loop k projected s [])"

section \<open>Files\<close>

text \<open>
  What the file system does to one write: it succeeds; writing fails, leaving the file as given
  (\<open>None\<close> is no file); or the permissions of the written file cannot be set.
\<close>

datatype fs_write = WriteOk | WriteFails "spool_file option" | PermFails

record spool_env =
  se_keeps :: "string \<Rightarrow> bool"
  se_write :: fs_write
  se_now :: int

definition remove_files :: "(string \<Rightarrow> bool) \<Rightarrow> string list \<Rightarrow> (string \<rightharpoonup> spool_file) \<Rightarrow> (string \<rightharpoonup> spool_file)" where
  "remove_files keeps victims files = files |` (- {v \<in> set victims. \<not> keeps v})"

definition spool_write :: "spool_env \<Rightarrow> string \<Rightarrow> byte list \<Rightarrow> spool \<Rightarrow> (string + nat) \<times> spool" where
  "spool_write e k bytes s =
     (if sl_max s < length bytes then (Inl ''exceeds max_bytes'', s)
      else
        (let (victims, s1) = plan_eviction k (length bytes) s;
             s2 = s1\<lparr>sl_files := remove_files (se_keeps e) victims (sl_files s1)\<rparr>;
             file = \<lparr>f_bytes = bytes, f_mtime = se_now e\<rparr> in
         case se_write e of
           WriteFails left \<Rightarrow> (Inl ''write'', s2\<lparr>sl_files := (sl_files s2)(k := left)\<rparr>)
         | PermFails \<Rightarrow> (Inl ''permissions'', s2\<lparr>sl_files := (sl_files s2)(k \<mapsto> file)\<rparr>)
         | WriteOk \<Rightarrow>
             (Inr (length bytes), register k (length bytes) (s2\<lparr>sl_files := (sl_files s2)(k \<mapsto> file)\<rparr>))))"

definition spool_read :: "bool \<Rightarrow> string \<Rightarrow> spool \<Rightarrow> string + byte list option" where
  "spool_read io_error k s =
     (if io_error then Inl ''read'' else Inr (map_option f_bytes (sl_files s k)))"

definition spool_exists :: "bool \<Rightarrow> string \<Rightarrow> spool \<Rightarrow> string + bool" where
  "spool_exists io_error k s = (if io_error then Inl ''stat'' else Inr (sl_files s k \<noteq> None))"

definition spool_delete :: "bool \<Rightarrow> string \<Rightarrow> spool \<Rightarrow> (string + unit) \<times> spool" where
  "spool_delete io_error k s =
     (let s' = snd (unregister k s) in
      if io_error then (Inl ''delete'', s')
      else (Inr (), s'\<lparr>sl_files := (sl_files s')(k := None)\<rparr>))"

text \<open>The ledger of a new process, from the listing of the directory, oldest first, ties by name.\<close>

definition rebuild_state_from_dir :: "string list \<Rightarrow> nat \<Rightarrow> (string \<rightharpoonup> spool_file) \<Rightarrow> spool" where
  "rebuild_state_from_dir listing max_bytes files =
     (let collected = List.map_filter (\<lambda>k. map_option (\<lambda>f. (k, length (f_bytes f), f_mtime f)) (files k)) listing;
          sorted = sort_key (snd \<circ> snd) (sort_key fst collected) in
      fold (\<lambda>(k, sz, _) s. register k sz s) sorted
        \<lparr>sl_files = files, sl_entries = [], sl_total = 0, sl_max = max_bytes\<rparr>)"

text \<open>The files past their time to live, oldest first.\<close>

definition list_entries_by_mtime :: "string list \<Rightarrow> spool \<Rightarrow> (string \<times> int) list" where
  "list_entries_by_mtime listing s =
     sort_key snd (sort_key fst
       (List.map_filter (\<lambda>k. map_option (\<lambda>f. (k, f_mtime f)) (sl_files s k)) listing))"

definition list_expired :: "string list \<Rightarrow> int \<Rightarrow> nat \<Rightarrow> spool \<Rightarrow> (string \<times> int) list" where
  "list_expired listing now ttl_days s =
     (let ttl_ms = i64_wrap (i64_wrap (int ttl_days) * 24 * 60 * 60 * 1000) in
      filter (\<lambda>(_, m). ttl_ms < i64_wrap (now - m)) (list_entries_by_mtime listing s))"

section \<open>The queue in front of the spool\<close>

text \<open>The channel to the worker holds at most \<open>ch_cap\<close> ids; sending to a full one fails.\<close>

record channel =
  ch_ids :: "string list"
  ch_cap :: nat

definition try_send :: "string \<Rightarrow> channel \<Rightarrow> bool \<times> channel" where
  "try_send k c =
     (if length (ch_ids c) < ch_cap c then (True, c\<lparr>ch_ids := ch_ids c @ [k]\<rparr>) else (False, c))"

definition enqueue ::
  "spool_env \<Rightarrow> string \<Rightarrow> byte list \<Rightarrow> spool \<times> channel \<Rightarrow> (string + unit) \<times> spool \<times> channel" where
  "enqueue e k bytes = (\<lambda>(s, c).
     (case spool_write e k bytes s of
        (Inl err, s') \<Rightarrow> (Inl err, s', c)
      | (Inr _, s') \<Rightarrow> (Inr (), s', snd (try_send k c))))"

section \<open>The ledger invariant\<close>

definition ledger_bytes :: "(string \<times> nat) list \<Rightarrow> nat" where
  "ledger_bytes es = sum_list (map snd es)"

definition spool_inv :: "spool \<Rightarrow> bool" where
  "spool_inv s \<longleftrightarrow> distinct (map fst (sl_entries s)) \<and> sl_total s = ledger_bytes (sl_entries s)"

lemma ledger_bytes_append [simp]: "ledger_bytes (xs @ ys) = ledger_bytes xs + ledger_bytes ys"
  by (simp add: ledger_bytes_def)

lemma ledger_bytes_Cons [simp]: "ledger_bytes ((k, n) # es) = n + ledger_bytes es"
  by (simp add: ledger_bytes_def)

lemma ledger_bytes_Nil [simp]: "ledger_bytes [] = 0"
  by (simp add: ledger_bytes_def)

lemma ledger_bytes_delete:
  "\<lbrakk>distinct (map fst es); map_of es k = Some n\<rbrakk> \<Longrightarrow> ledger_bytes es = ledger_bytes (AList.delete k es) + n"
proof (induction es)
  case (Cons p es)
  obtain j m where p: "p = (j, m)" by (cases p)
  show ?case
  proof (cases "j = k")
    case True
    with Cons.prems p have "map_of es k = None" "m = n" by (auto simp: map_of_eq_None_iff)
    with True p show ?thesis by (simp add: delete_absent)
  next
    case False
    with Cons p show ?thesis by simp
  qed
qed simp

lemma delete_in_middle:
  "distinct (map fst (xs @ (k, n) # ys)) \<Longrightarrow> AList.delete k (xs @ (k, n) # ys) = xs @ ys"
  by (auto simp: AList.delete_eq image_iff intro!: arg_cong2 [where f = append] filter_True)

lemma unregister_inv: "spool_inv s \<Longrightarrow> spool_inv (snd (unregister k s))"
  using ledger_bytes_delete [of "sl_entries s" k]
  by (auto simp: unregister_def spool_inv_def AList.distinct_delete split: option.split)

lemma unregister_fields:
  "sl_files (snd (unregister k s)) = sl_files s" "sl_max (snd (unregister k s)) = sl_max s"
  "sl_entries (snd (unregister k s)) = AList.delete k (sl_entries s)"
  by (simp_all add: unregister_def delete_absent split: option.split)

lemma register_unregister:
  "register k sz s = (snd (unregister k s))\<lparr>sl_entries := AList.delete k (sl_entries s) @ [(k, sz)],
     sl_total := min usize_max (sl_total (snd (unregister k s)) + sz)\<rparr>"
  by (simp add: register_def unregister_def Let_def delete_absent split: option.split)

lemma register_inv:
  assumes "spool_inv s" and "ledger_bytes (AList.delete k (sl_entries s)) + sz \<le> usize_max"
  shows "spool_inv (register k sz s)"
proof -
  have "sl_total (snd (unregister k s)) = ledger_bytes (AList.delete k (sl_entries s))"
    using unregister_inv [OF assms(1), of k] by (simp add: spool_inv_def unregister_fields)
  moreover have "k \<notin> set (map fst (AList.delete k (sl_entries s)))"
    by (simp add: AList.delete_keys)
  ultimately show ?thesis
    using assms by (simp add: spool_inv_def register_unregister AList.distinct_delete)
qed

section \<open>What a write does\<close>

text \<open>The other entries, oldest first: the candidates of an eviction.\<close>

definition other_entries :: "string \<Rightarrow> (string \<times> nat) list \<Rightarrow> (string \<times> nat) list" where
  "other_entries k es = filter (\<lambda>e. fst e \<noteq> k) es"

lemma other_entries_eq_delete: "other_entries k es = AList.delete k es"
  by (auto simp: other_entries_def AList.delete_eq intro: filter_cong)

lemma other_entries_append [simp]: "other_entries k (xs @ ys) = other_entries k xs @ other_entries k ys"
  by (simp add: other_entries_def)

lemma evict_loop_spec:
  assumes "spool_inv s"
  shows "\<exists>popped. fst (evict_loop k running s victims) = victims @ map fst popped \<and>
     other_entries k (sl_entries s) = popped @ other_entries k (sl_entries (snd (evict_loop k running s victims))) \<and>
     spool_inv (snd (evict_loop k running s victims)) \<and>
     sl_files (snd (evict_loop k running s victims)) = sl_files s \<and>
     sl_max (snd (evict_loop k running s victims)) = sl_max s \<and>
     (running - ledger_bytes popped \<le> sl_max s \<or> other_entries k (sl_entries (snd (evict_loop k running s victims))) = []) \<and>
     (\<forall>m < length popped. sl_max s < running - ledger_bytes (take m popped))"
  using assms
proof (induction k running s victims rule: evict_loop.induct)
  case (1 k running s victims)
  show ?case
  proof (cases "sl_max s < running")
    case False
    then show ?thesis using 1 by (simp add: evict_loop.simps)
  next
    case over: True
    show ?thesis
    proof (cases "pop_oldest_except (Some k) s")
      case None
      then have "other_entries k (sl_entries s) = []"
        by (auto simp: pop_oldest_except_def find_index_None_iff other_entries_def filter_empty_conv split: option.splits prod.splits)
      then show ?thesis using None over 1 by (simp add: evict_loop.simps)
    next
      case (Some r)
      obtain v sz s' where r: "r = ((v, sz), s')" by (metis prod.exhaust)
      obtain xs ys where p: "sl_entries s = xs @ (v, sz) # ys" "\<forall>e \<in> set xs. Some k = Some (fst e)" "Some k \<noteq> Some v"
        "s' = s\<lparr>sl_entries := xs @ ys, sl_total := sl_total s - sz\<rparr>"
        by (rule pop_oldest_except_SomeD [OF Some [unfolded r]])
      have inv: "spool_inv s'"
        using "1.prems" p by (auto simp: spool_inv_def)
      have xs: "other_entries k xs = []"
        using p(2) by (simp add: other_entries_def filter_empty_conv)
      have ent: "other_entries k (sl_entries s) = (v, sz) # other_entries k (sl_entries s')"
        using p xs by (auto simp: other_entries_def)
      let ?R = "evict_loop k (running - sz) s' (victims @ [v])"
      have step: "evict_loop k running s victims = ?R"
        using over Some r by (simp add: evict_loop.simps [of k running])
      obtain popped where ih: "fst ?R = (victims @ [v]) @ map fst popped"
        "other_entries k (sl_entries s') = popped @ other_entries k (sl_entries (snd ?R))" "spool_inv (snd ?R)"
        "sl_files (snd ?R) = sl_files s'" "sl_max (snd ?R) = sl_max s'"
        "running - sz - ledger_bytes popped \<le> sl_max s' \<or> other_entries k (sl_entries (snd ?R)) = []"
        "\<forall>m < length popped. sl_max s' < running - sz - ledger_bytes (take m popped)"
        using "1.IH" [OF over Some [unfolded r] refl refl inv] by blast
      have "\<forall>m < length ((v, sz) # popped). sl_max s < running - ledger_bytes (take m ((v, sz) # popped))"
      proof (intro allI impI)
        fix m assume "m < length ((v, sz) # popped)"
        then show "sl_max s < running - ledger_bytes (take m ((v, sz) # popped))"
          using over ih(7) p(4) by (cases m) (simp_all add: diff_diff_left)
      qed
      then show ?thesis
        unfolding step using ih ent p(4) by (intro exI [of _ "(v, sz) # popped"]) (simp add: diff_diff_left)
    qed
  qed
qed

lemma other_entries_idem [simp]: "other_entries k (other_entries k es) = other_entries k es"
  by (simp add: other_entries_def)

lemma plan_eviction_spec:
  assumes inv: "spool_inv s" and small: "ledger_bytes (other_entries k (sl_entries s)) + sz \<le> usize_max"
    and fits: "sz \<le> sl_max s"
  obtains n where "other_entries k (sl_entries (snd (plan_eviction k sz s))) = drop n (other_entries k (sl_entries s))"
    and "fst (plan_eviction k sz s) = map fst (take n (other_entries k (sl_entries s)))"
    and "ledger_bytes (drop n (other_entries k (sl_entries s))) + sz \<le> sl_max s"
    and "\<forall>m < n. sl_max s < ledger_bytes (drop m (other_entries k (sl_entries s))) + sz"
    and "spool_inv (snd (plan_eviction k sz s))"
    and "sl_files (snd (plan_eviction k sz s)) = sl_files s" and "sl_max (snd (plan_eviction k sz s)) = sl_max s"
proof -
  let ?O = "other_entries k (sl_entries s)"
  let ?existing = "case map_of (sl_entries s) k of Some n \<Rightarrow> n | None \<Rightarrow> 0"
  have "sl_total s - ?existing = ledger_bytes ?O"
    using inv ledger_bytes_delete [of "sl_entries s" k]
    by (auto simp: spool_inv_def other_entries_eq_delete delete_absent split: option.split)
  then have plan: "plan_eviction k sz s =
      (if ledger_bytes ?O + sz \<le> sl_max s then ([], s) else evict_loop k (ledger_bytes ?O + sz) s [])"
    using small by (simp add: plan_eviction_def Let_def)
  show thesis
  proof (cases "ledger_bytes ?O + sz \<le> sl_max s")
    case True
    then show thesis using inv by (intro that [of 0]) (simp_all add: plan)
  next
    case False
    let ?R = "evict_loop k (ledger_bytes ?O + sz) s []"
    obtain popped where r: "fst ?R = map fst popped" "?O = popped @ other_entries k (sl_entries (snd ?R))"
      "spool_inv (snd ?R)" "sl_files (snd ?R) = sl_files s" "sl_max (snd ?R) = sl_max s"
      "ledger_bytes ?O + sz - ledger_bytes popped \<le> sl_max s \<or> other_entries k (sl_entries (snd ?R)) = []"
      "\<forall>m < length popped. sl_max s < ledger_bytes ?O + sz - ledger_bytes (take m popped)"
      using evict_loop_spec [OF inv, of k "ledger_bytes ?O + sz" "[]"] by auto
    have split: "ledger_bytes ?O = ledger_bytes (take m ?O) + ledger_bytes (drop m ?O)" for m
      by (metis append_take_drop_id ledger_bytes_append)
    have take: "take m popped = take m ?O" if "m < length popped" for m
      using that by (subst r(2)) simp
    have drop: "drop (length popped) ?O = other_entries k (sl_entries (snd ?R))"
      by (subst r(2)) simp
    have "ledger_bytes ?O = ledger_bytes popped + ledger_bytes (other_entries k (sl_entries (snd ?R)))"
      by (metis r(2) ledger_bytes_append)
    then have bound: "ledger_bytes (drop (length popped) ?O) + sz \<le> sl_max s"
      using r(6) fits by (auto simp: drop)
    have minimal: "\<forall>m < length popped. sl_max s < ledger_bytes (drop m ?O) + sz"
    proof (intro allI impI)
      fix m assume m: "m < length popped"
      then show "sl_max s < ledger_bytes (drop m ?O) + sz"
        using r(7) take [OF m] split [of m] by fastforce
    qed
    show thesis
    proof (rule that [of "length popped"])
      show "fst (plan_eviction k sz s) = map fst (take (length popped) ?O)"
        using False r(1) by (subst r(2)) (simp add: plan)
    qed (use False plan r drop bound minimal in auto)
  qed
qed

lemma spool_write_ok:
  assumes inv: "spool_inv s" and small: "ledger_bytes (other_entries k (sl_entries s)) + length bytes \<le> usize_max"
    and ok: "spool_write e k bytes s = (Inr r, s')"
  obtains n where "sl_entries s' = drop n (other_entries k (sl_entries s)) @ [(k, length bytes)]"
    and "ledger_bytes (sl_entries s') \<le> sl_max s'"
    and "\<forall>m < n. sl_max s < ledger_bytes (drop m (other_entries k (sl_entries s))) + length bytes"
    and "spool_inv s'" and "sl_max s' = sl_max s"
    and "sl_files s' = (remove_files (se_keeps e) (map fst (take n (other_entries k (sl_entries s)))) (sl_files s))
           (k \<mapsto> \<lparr>f_bytes = bytes, f_mtime = se_now e\<rparr>)"
proof -
  have fits: "length bytes \<le> sl_max s"
    using ok by (auto simp: spool_write_def split: if_splits)
  obtain n where n: "other_entries k (sl_entries (snd (plan_eviction k (length bytes) s))) = drop n (other_entries k (sl_entries s))"
    "fst (plan_eviction k (length bytes) s) = map fst (take n (other_entries k (sl_entries s)))"
    "ledger_bytes (drop n (other_entries k (sl_entries s))) + length bytes \<le> sl_max s"
    "\<forall>m < n. sl_max s < ledger_bytes (drop m (other_entries k (sl_entries s))) + length bytes"
    "spool_inv (snd (plan_eviction k (length bytes) s))"
    "sl_files (snd (plan_eviction k (length bytes) s)) = sl_files s"
    "sl_max (snd (plan_eviction k (length bytes) s)) = sl_max s"
    by (rule plan_eviction_spec [OF inv small fits])
  obtain vs s1 where p: "plan_eviction k (length bytes) s = (vs, s1)" by (cases "plan_eviction k (length bytes) s")
  let ?s3 = "s1\<lparr>sl_files := (remove_files (se_keeps e) vs (sl_files s1))(k \<mapsto> \<lparr>f_bytes = bytes, f_mtime = se_now e\<rparr>)\<rparr>"
  have s': "s' = register k (length bytes) ?s3"
    using ok fits p by (auto simp: spool_write_def Let_def split: fs_write.splits)
  have inv3: "spool_inv ?s3" using n(5) p by (simp add: spool_inv_def)
  have del: "AList.delete k (sl_entries s1) = drop n (other_entries k (sl_entries s))"
    using n(1) p by (simp add: other_entries_eq_delete)
  have le: "ledger_bytes (drop n (other_entries k (sl_entries s))) \<le> ledger_bytes (other_entries k (sl_entries s))"
    by (metis append_take_drop_id ledger_bytes_append le_add2)
  show thesis
  proof (rule that [of n])
    show "spool_inv s'"
      unfolding s' using small le by (intro register_inv [OF inv3]) (simp add: del)
  qed (use n p del in \<open>simp_all add: s' register_unregister unregister_fields\<close>)
qed

lemma spool_delete_inv: "spool_inv s \<Longrightarrow> spool_inv (snd (spool_delete io k s))"
  using unregister_inv [of s k] by (simp add: spool_delete_def Let_def spool_inv_def)

text \<open>A failed write only evicts: the ledger keeps no entry for what was not written.\<close>

lemma spool_write_failed:
  assumes "spool_inv s" and "ledger_bytes (other_entries k (sl_entries s)) + length bytes \<le> usize_max"
    and "spool_write e k bytes s = (Inl err, s')"
  shows "spool_inv s' \<and> (\<exists>n. other_entries k (sl_entries s') = drop n (other_entries k (sl_entries s)))"
proof (cases "sl_max s < length bytes")
  case True
  then show ?thesis using assms by (auto simp: spool_write_def intro: exI [of _ 0])
next
  case False
  then have fits: "length bytes \<le> sl_max s" by simp
  obtain n where "other_entries k (sl_entries (snd (plan_eviction k (length bytes) s))) = drop n (other_entries k (sl_entries s))"
    "spool_inv (snd (plan_eviction k (length bytes) s))"
    by (rule plan_eviction_spec [OF assms(1,2) fits])
  moreover have "sl_entries s' = sl_entries (snd (plan_eviction k (length bytes) s)) \<and>
      sl_total s' = sl_total (snd (plan_eviction k (length bytes) s))"
    using assms(3) False by (auto simp: spool_write_def Let_def split: fs_write.splits prod.splits)
  ultimately show ?thesis by (auto simp: spool_inv_def)
qed

text \<open>When the file system does as it is told, the ledger is the sizes of the files.\<close>

definition ledger_exact :: "spool \<Rightarrow> bool" where
  "ledger_exact s \<longleftrightarrow> map_of (sl_entries s) = (\<lambda>k. map_option (length \<circ> f_bytes) (sl_files s k))"

lemma map_of_take_drop:
  assumes "distinct (map fst es)"
  shows "map_of (drop n es) = map_of es |` (- set (map fst (take n es)))"
proof
  fix k
  have "map_of es k = (map_of (take n es) ++ map_of (drop n es)) k \<or> True" by simp
  have es: "map_of es = map_of (drop n es) ++ map_of (take n es)"
    by (metis append_take_drop_id map_of_append)
  have dis: "set (map fst (take n es)) \<inter> set (map fst (drop n es)) = {}"
    using assms by (metis append_take_drop_id distinct_append map_append)
  show "map_of (drop n es) k = (map_of es |` (- set (map fst (take n es)))) k"
  proof (cases "k \<in> set (map fst (take n es))")
    case True
    then have "k \<notin> set (map fst (drop n es))" using dis by blast
    then have "map_of (drop n es) k = None" by (simp add: map_of_eq_None_iff)
    with True show ?thesis by (simp add: restrict_map_def)
  next
    case False
    then have "map_of (take n es) k = None" by (simp add: map_of_eq_None_iff)
    with False show ?thesis by (simp add: es map_add_def restrict_map_def)
  qed
qed

lemma ledger_exact_write:
  assumes "spool_inv s" and "ledger_bytes (other_entries k (sl_entries s)) + length bytes \<le> usize_max"
    and ok: "spool_write e k bytes s = (Inr r, s')" and "ledger_exact s" and "\<forall>v. \<not> se_keeps e v"
  shows "ledger_exact s'"
proof -
  obtain n where n: "sl_entries s' = drop n (other_entries k (sl_entries s)) @ [(k, length bytes)]"
    "sl_files s' = (remove_files (se_keeps e) (map fst (take n (other_entries k (sl_entries s)))) (sl_files s))
       (k \<mapsto> \<lparr>f_bytes = bytes, f_mtime = se_now e\<rparr>)"
    by (rule spool_write_ok [OF assms(1,2) ok])
  let ?O = "other_entries k (sl_entries s)"
  have dO: "distinct (map fst ?O)"
    using assms(1) by (simp add: spool_inv_def other_entries_eq_delete AList.distinct_delete)
  have O: "map_of ?O = (map_of (sl_entries s))(k := None)"
    by (simp add: other_entries_eq_delete AList.delete_conv')
  have notin: "k \<notin> fst ` set (take n ?O)"
    by (auto simp: other_entries_def dest: in_set_takeD)
  have "map_of (sl_entries s') j = map_option (length \<circ> f_bytes) (sl_files s' j)" for j
  proof (cases "j = k")
    case True
    have "map_of (drop n ?O) k = None"
      by (simp add: map_of_take_drop [OF dO] O restrict_map_def)
    with True show ?thesis by (simp add: n map_add_def)
  next
    case False
    then show ?thesis
      using assms(4,5) by (simp add: n map_add_def map_of_take_drop [OF dO] O restrict_map_def remove_files_def ledger_exact_def
          split: option.split)
  qed
  then show ?thesis by (simp add: ledger_exact_def fun_eq_iff)
qed

lemma ledger_exact_delete: "ledger_exact s \<Longrightarrow> ledger_exact (snd (spool_delete False k s))"
  by (auto simp: ledger_exact_def spool_delete_def Let_def unregister_fields AList.delete_conv' fun_eq_iff)

end
