(* ===== verification/Payload_Store.thy ===== *)
theory Payload_Store
  imports Blob_Store Spool
begin

text \<open>
  Where the bytes of captured representations live: the rows of the representation table
  (\<^verbatim>\<open>uc-core/clipboard/snapshot.rs, payload_availability.rs\<close>,
  \<^verbatim>\<open>uc-infra/db/repositories/representation_repo.rs\<close> and its row mapper), the normalizer, the
  background worker that turns staged bytes into blobs, the start-up scanner and reconciler, the
  janitor and the resolver of \<^verbatim>\<open>uc-infra/clipboard\<close>.

  The encryption of inline data by a decorator of the table is left out. SQL statements act on a
  map from ids to rows; image decoding and scaling are parameters.
\<close>

section \<open>Representations and rows\<close>

datatype availability = InlineA | BlobReadyA | StagedA | ProcessingA | FailedA string | LostA

fun requires_inline_data :: "availability \<Rightarrow> bool" where
  "requires_inline_data InlineA = True"
| "requires_inline_data _ = False"

fun requires_blob_id :: "availability \<Rightarrow> bool" where
  "requires_blob_id BlobReadyA = True"
| "requires_blob_id _ = False"

fun avail_str :: "availability \<Rightarrow> string" where
  "avail_str InlineA = ''Inline''"
| "avail_str BlobReadyA = ''BlobReady''"
| "avail_str StagedA = ''Staged''"
| "avail_str ProcessingA = ''Processing''"
| "avail_str (FailedA _) = ''Failed''"
| "avail_str LostA = ''Lost''"

record persisted =
  p_id :: rep_id
  p_format :: format_id
  p_mime :: "mime_type option"
  p_size :: int
  p_inline :: "byte list option"
  p_blob :: "string option"
  p_state :: availability
  p_error :: "string option"

definition persisted_new ::
  "rep_id \<Rightarrow> format_id \<Rightarrow> mime_type option \<Rightarrow> int \<Rightarrow> byte list option \<Rightarrow> string option \<Rightarrow> persisted" where
  "persisted_new i f m n inline blob =
     \<lparr>p_id = i, p_format = f, p_mime = m, p_size = n, p_inline = inline, p_blob = blob,
      p_state = (case (inline, blob) of
                   (Some _, None) \<Rightarrow> InlineA
                 | (None, Some _) \<Rightarrow> BlobReadyA
                 | _ \<Rightarrow> StagedA),
      p_error = None\<rparr>"

definition persisted_with_state ::
  "rep_id \<Rightarrow> format_id \<Rightarrow> mime_type option \<Rightarrow> int \<Rightarrow> byte list option \<Rightarrow> string option \<Rightarrow>
   availability \<Rightarrow> string option \<Rightarrow> string + persisted" where
  "persisted_with_state i f m n inline blob st err =
     (if inline \<noteq> None \<and> blob \<noteq> None then Inl ''both set''
      else if requires_inline_data st \<and> inline = None then Inl ''requires inline_data''
      else if requires_blob_id st \<and> blob = None then Inl ''requires blob_id''
      else
        (let rep = \<lparr>p_id = i, p_format = f, p_mime = m, p_size = n, p_inline = inline, p_blob = blob,
                    p_state = st, p_error = err\<rparr> in
         case st of
           FailedA e \<Rightarrow>
             (case err of
                None \<Rightarrow> Inl ''requires last_error''
              | Some v \<Rightarrow> if v \<noteq> e then Inl ''last_error differs'' else Inr rep)
         | _ \<Rightarrow> Inr rep))"

definition persisted_staged ::
  "rep_id \<Rightarrow> format_id \<Rightarrow> mime_type option \<Rightarrow> int \<Rightarrow> persisted" where
  "persisted_staged i f m n =
     \<lparr>p_id = i, p_format = f, p_mime = m, p_size = n, p_inline = None, p_blob = None,
      p_state = StagedA, p_error = None\<rparr>"

text \<open>A row of \<^verbatim>\<open>clipboard_snapshot_representation\<close>; its id is the key of the table.\<close>

record rep_row =
  rr_event :: string
  rr_format :: string
  rr_mime :: "string option"
  rr_size :: int
  rr_inline :: "byte list option"
  rr_blob :: "string option"
  rr_state :: string
  rr_error :: "string option"

type_synonym rep_table = "rep_id \<rightharpoonup> rep_row"

definition to_row :: "string \<Rightarrow> persisted \<Rightarrow> rep_row" where
  "to_row event p =
     \<lparr>rr_event = event, rr_format = p_format p, rr_mime = p_mime p, rr_size = p_size p,
      rr_inline = p_inline p, rr_blob = p_blob p, rr_state = avail_str (p_state p),
      rr_error = (case p_state p of FailedA e \<Rightarrow> Some e | _ \<Rightarrow> p_error p)\<rparr>"

definition parse_payload_state :: "rep_row \<Rightarrow> string + availability" where
  "parse_payload_state row =
     (if rr_state row = ''Inline'' then Inr InlineA
      else if rr_state row = ''BlobReady'' then Inr BlobReadyA
      else if rr_state row = ''Staged'' then Inr StagedA
      else if rr_state row = ''Processing'' then Inr ProcessingA
      else if rr_state row = ''Failed'' then
        (case rr_error row of None \<Rightarrow> Inl ''requires last_error'' | Some e \<Rightarrow> Inr (FailedA e))
      else if rr_state row = ''Lost'' then Inr LostA
      else Inl ''unknown payload_state'')"

definition to_domain :: "rep_id \<Rightarrow> rep_row \<Rightarrow> string + persisted" where
  "to_domain i row =
     (case parse_payload_state row of
        Inl e \<Rightarrow> Inl e
      | Inr st \<Rightarrow>
          persisted_with_state i (rr_format row) (rr_mime row) (rr_size row) (rr_inline row) (rr_blob row) st
            (case st of FailedA e \<Rightarrow> Some e | _ \<Rightarrow> rr_error row))"

section \<open>The table\<close>

text \<open>
  A statement may fail before it acts; of \<open>update_processing_result\<close>, the read after the update may
  fail too.
\<close>

datatype db_fault = DbOk | DbBefore | DbAfter

datatype update_outcome = Updated persisted | StateMismatch | NotFound

definition get_representation_by_id :: "bool \<Rightarrow> rep_id \<Rightarrow> rep_table \<Rightarrow> string + persisted option" where
  "get_representation_by_id db_error i tbl =
     (if db_error then Inl ''db''
      else (case tbl i of
              None \<Rightarrow> Inr None
            | Some row \<Rightarrow> (case to_domain i row of Inl e \<Rightarrow> Inl e | Inr p \<Rightarrow> Inr (Some p))))"

definition update_processing_result ::
  "db_fault \<Rightarrow> rep_id \<Rightarrow> availability list \<Rightarrow> string option \<Rightarrow> availability \<Rightarrow> string option \<Rightarrow>
   rep_table \<Rightarrow> (string + update_outcome) \<times> rep_table" where
  "update_processing_result fault i expected blob new_state err tbl =
     (if fault = DbBefore then (Inl ''db'', tbl)
      else (case tbl i of
        None \<Rightarrow> (Inr NotFound, tbl)
      | Some row \<Rightarrow>
          if rr_state row \<notin> avail_str ` set expected then (Inr StateMismatch, tbl)
          else
            (let row' = (case blob of
                           Some b \<Rightarrow> row\<lparr>rr_state := avail_str new_state, rr_error := err, rr_inline := None,
                                         rr_blob := Some b\<rparr>
                         | None \<Rightarrow> row\<lparr>rr_state := avail_str new_state, rr_error := err\<rparr>);
                 tbl' = tbl(i \<mapsto> row') in
             if fault = DbAfter then (Inl ''db'', tbl')
             else (case to_domain i row' of
                     Inl e \<Rightarrow> (Inl e, tbl')
                   | Inr p \<Rightarrow> (Inr (Updated p), tbl')))))"

definition update_mime_type :: "bool \<Rightarrow> rep_id \<Rightarrow> mime_type \<Rightarrow> rep_table \<Rightarrow> (string + unit) \<times> rep_table" where
  "update_mime_type db_error i m tbl =
     (if db_error then (Inl ''db'', tbl)
      else (Inr (), case tbl i of None \<Rightarrow> tbl | Some row \<Rightarrow> tbl(i \<mapsto> row\<lparr>rr_mime := Some m\<rparr>)))"

text \<open>The listing of the ids of the table in some order is an argument.\<close>

definition list_ids_by_payload_state ::
  "bool \<Rightarrow> rep_id list \<Rightarrow> availability list \<Rightarrow> rep_table \<Rightarrow> string + rep_id list" where
  "list_ids_by_payload_state db_error ids states tbl =
     (if states = [] then Inr []
      else if db_error then Inl ''db''
      else Inr (filter (\<lambda>i. case tbl i of None \<Rightarrow> False | Some row \<Rightarrow> rr_state row \<in> avail_str ` set states) ids))"

text \<open>The insertion of the representations of an event, one transaction with the checks of the table.\<close>

definition insert_reps :: "bool \<Rightarrow> string \<Rightarrow> persisted list \<Rightarrow> rep_table \<Rightarrow> (string + unit) \<times> rep_table" where
  "insert_reps db_error event reps tbl =
     (if db_error \<or> \<not> distinct (map p_id reps) \<or> (\<exists>p \<in> set reps. tbl (p_id p) \<noteq> None) \<or>
         (\<exists>p \<in> set reps. p_inline p \<noteq> None \<and> p_blob p \<noteq> None)
      then (Inl ''db'', tbl)
      else (Inr (), tbl ++ map_of (map (\<lambda>p. (p_id p, to_row event p)) reps)))"

section \<open>The normalizer\<close>

definition preview_length_chars :: nat where "preview_length_chars = 500"

definition is_text_mime_type :: "mime_type option \<Rightarrow> bool" where
  "is_text_mime_type m =
     (case m of
        None \<Rightarrow> False
      | Some s \<Rightarrow> starts_with ''text/'' s \<or> s = ''text/plain'' \<or> contains_sub ''json'' s \<or>
          contains_sub ''xml'' s \<or> contains_sub ''javascript'' s \<or> contains_sub ''html'' s \<or>
          contains_sub ''css'' s)"

text \<open>The first characters of a valid UTF-8 text: a character is a byte and its continuation bytes.\<close>

fun take_chars :: "nat \<Rightarrow> byte list \<Rightarrow> byte list" where
  "take_chars n [] = []"
| "take_chars n (b # bs) =
     (if utf8_cont (unat b) then b # take_chars n bs
      else if n = 0 then [] else b # take_chars (n - 1) bs)"

definition truncate_to_preview :: "byte list \<Rightarrow> byte list" where
  "truncate_to_preview bs =
     (if utf8_valid bs then take_chars preview_length_chars bs else take preview_length_chars bs)"

definition normalize :: "int \<Rightarrow> representation \<Rightarrow> (string + persisted) run" where
  "normalize inline_threshold observed =
     (case inline_bytes observed of
        None \<Rightarrow> Panic
      | Some bytes \<Rightarrow>
          (let n = size_bytes observed in
           if n \<le> inline_threshold then
             Done (Inr (persisted_new (rep_id observed) (format_id observed) (mime observed) n (Some bytes) None))
           else if is_text_mime_type (mime observed) then
             Done (persisted_with_state (rep_id observed) (format_id observed) (mime observed) n
               (Some (truncate_to_preview bytes)) None StagedA None)
           else Done (Inr (persisted_staged (rep_id observed) (format_id observed) (mime observed) n))))"

section \<open>The store\<close>

record store =
  st_reps :: rep_table
  st_spool :: spool
  st_cache :: cache
  st_blobs :: blob_db
  st_chan :: channel
  st_thumbs :: "rep_id \<rightharpoonup> string"

definition should_convert_to_png :: "mime_type option \<Rightarrow> bool" where
  "should_convert_to_png m =
     (case m of
        None \<Rightarrow> False
      | Some s \<Rightarrow> starts_with ''image/'' s \<and> s \<noteq> ''image/png'' \<and> s \<noteq> ''image/webp'')"

text \<open>
  The third-party image library: to PNG, to a thumbnail; and what the ports answer during one
  attempt of the worker.
\<close>

record worker_prims =
  wp_blob :: blob_prims
  wp_hash :: "byte list \<Rightarrow> digest"
  wp_png :: "byte list \<Rightarrow> byte list option"
  wp_thumb :: "byte list \<Rightarrow> byte list option"

record worker_env =
  wk_begin :: db_fault
  wk_read_fails :: bool
  wk_revert :: db_fault
  wk_meta_fails :: bool
  wk_blob :: blob_env
  wk_mime_fails :: bool
  wk_finish :: db_fault
  wk_delete_fails :: bool
  wk_failed :: db_fault
  wk_thumb_meta_fails :: bool
  wk_thumb_get_fails :: bool
  wk_thumb_blob :: blob_env
  wk_thumb_insert_fails :: bool

section \<open>The worker\<close>

datatype load_result = Skipped | MissingBytes | Loaded "byte list"

definition worker_load :: "worker_env \<Rightarrow> rep_id \<Rightarrow> store \<Rightarrow> (string + load_result) \<times> store" where
  "worker_load e i st =
     (case update_processing_result (wk_begin e) i [StagedA, ProcessingA] None ProcessingA None (st_reps st) of
        (Inl err, tbl) \<Rightarrow> (Inl err, st\<lparr>st_reps := tbl\<rparr>)
      | (Inr StateMismatch, tbl) \<Rightarrow> (Inr Skipped, st\<lparr>st_reps := tbl\<rparr>)
      | (Inr NotFound, tbl) \<Rightarrow> (Inr Skipped, st\<lparr>st_reps := tbl\<rparr>)
      | (Inr (Updated _), tbl) \<Rightarrow>
          (let st1 = st\<lparr>st_reps := tbl\<rparr> in
           case cache_get i (st_cache st1) of
             Some bytes \<Rightarrow> (Inr (Loaded bytes), st1)
           | None \<Rightarrow>
               (case spool_read (wk_read_fails e) i (st_spool st1) of
                  Inl err \<Rightarrow> (Inl err, st1)
                | Inr (Some bytes) \<Rightarrow> (Inr (Loaded bytes), st1)
                | Inr None \<Rightarrow>
                    (Inr MissingBytes,
                     st1\<lparr>st_reps := snd (update_processing_result (wk_revert e) i [ProcessingA] None StagedA
                            (Some ''cache/spool miss: bytes not available'') (st_reps st1))\<rparr>))))"

text \<open>
  From the bytes to the blob: the format conversion, the write, the MIME type. The bytes stored
  come with the id of the blob.
\<close>

definition worker_store ::
  "worker_prims \<Rightarrow> worker_env \<Rightarrow> rep_id \<Rightarrow> byte list \<Rightarrow> store \<Rightarrow> (string + string \<times> byte list) \<times> store" where
  "worker_store W e i raw st =
     (case get_representation_by_id (wk_meta_fails e) i (st_reps st) of
        Inl err \<Rightarrow> (Inl err, st)
      | Inr meta \<Rightarrow>
          (let m = Option.bind meta p_mime;
               (blob_bytes, mime_updated) =
                 (if should_convert_to_png m then
                    (case wp_png W raw of Some png \<Rightarrow> (png, True) | None \<Rightarrow> (raw, False))
                  else (raw, False)) in
           case write_if_absent (wp_blob W) (wk_blob e) (wp_hash W blob_bytes) blob_bytes (st_blobs st) of
             (Inl err, blobs) \<Rightarrow> (Inl ''failed to write blob'', st\<lparr>st_blobs := blobs\<rparr>)
           | (Inr b, blobs) \<Rightarrow>
               (let tbl = (if mime_updated
                           then snd (update_mime_type (wk_mime_fails e) i ''image/png'' (st_reps st))
                           else st_reps st) in
                (Inr (b, blob_bytes), st\<lparr>st_blobs := blobs, st_reps := tbl\<rparr>))))"

definition generate_thumbnail ::
  "worker_prims \<Rightarrow> worker_env \<Rightarrow> rep_id \<Rightarrow> byte list \<Rightarrow> store \<Rightarrow> store" where
  "generate_thumbnail W e i bytes st =
     (case get_representation_by_id (wk_thumb_meta_fails e) i (st_reps st) of
        Inr (Some rep) \<Rightarrow>
          if p_inline rep \<noteq> None \<or>
             \<not> (case p_mime rep of Some m \<Rightarrow> starts_with ''image/'' m | None \<Rightarrow> False) \<or>
             wk_thumb_get_fails e \<or> st_thumbs st i \<noteq> None
          then st
          else (case wp_thumb W bytes of
            None \<Rightarrow> st
          | Some thumb \<Rightarrow>
              (case write_if_absent (wp_blob W) (wk_thumb_blob e) (wp_hash W thumb) thumb (st_blobs st) of
                 (Inl _, blobs) \<Rightarrow> st\<lparr>st_blobs := blobs\<rparr>
               | (Inr b, blobs) \<Rightarrow>
                   if wk_thumb_insert_fails e then st\<lparr>st_blobs := blobs\<rparr>
                   else st\<lparr>st_blobs := blobs, st_thumbs := (st_thumbs st)(i \<mapsto> b)\<rparr>))
      | _ \<Rightarrow> st)"

definition worker_finish ::
  "worker_prims \<Rightarrow> worker_env \<Rightarrow> rep_id \<Rightarrow> string \<Rightarrow> byte list \<Rightarrow> store \<Rightarrow> (string + unit) \<times> store" where
  "worker_finish W e i b bytes st =
     (case update_processing_result (wk_finish e) i [ProcessingA] (Some b) BlobReadyA None (st_reps st) of
        (Inl err, tbl) \<Rightarrow> (Inl err, st\<lparr>st_reps := tbl\<rparr>)
      | (Inr (Updated _), tbl) \<Rightarrow>
          (Inr (), generate_thumbnail W e i bytes
             (st\<lparr>st_reps := tbl, st_spool := snd (spool_delete (wk_delete_fails e) i (st_spool st))\<rparr>))
      | (Inr _, tbl) \<Rightarrow> (Inr (), st\<lparr>st_reps := tbl\<rparr>))"

definition process_once :: "worker_prims \<Rightarrow> worker_env \<Rightarrow> rep_id \<Rightarrow> store \<Rightarrow> (string + unit) \<times> store" where
  "process_once W e i st =
     (case worker_load e i st of
        (Inl err, st1) \<Rightarrow> (Inl err, st1)
      | (Inr (Loaded bytes), st1) \<Rightarrow>
          (case worker_store W e i bytes st1 of
             (Inl err, st2) \<Rightarrow> (Inl err, st2)
           | (Inr (b, blob_bytes), st2) \<Rightarrow> worker_finish W e i b blob_bytes st2)
      | (Inr _, st1) \<Rightarrow> (Inr (), st1))"

definition mark_failed :: "worker_env \<Rightarrow> rep_id \<Rightarrow> string \<Rightarrow> store \<Rightarrow> store" where
  "mark_failed e i err st =
     st\<lparr>st_reps := snd (update_processing_result (wk_failed e) i [ProcessingA, StagedA] None (FailedA err)
           (Some err) (st_reps st))\<rparr>"

text \<open>The attempts; \<open>envs\<close> gives the environment of each of them.\<close>

function process_with_retry ::
  "worker_prims \<Rightarrow> (nat \<Rightarrow> worker_env) \<Rightarrow> nat \<Rightarrow> nat \<Rightarrow> rep_id \<Rightarrow> store \<Rightarrow> (string + unit) \<times> store" where
  "process_with_retry W envs max_attempts attempt i st =
     (case process_once W (envs attempt) i st of
        (Inr _, st1) \<Rightarrow> (Inr (), st1)
      | (Inl err, st1) \<Rightarrow>
          if max_attempts \<le> attempt
          then (Inl err, mark_failed (envs attempt) i (''worker failed: '' @ err) st1)
          else process_with_retry W envs max_attempts (attempt + 1) i st1)"
  by pat_completeness auto
termination by (relation "measure (\<lambda>(_, _, n, k, _). n - k)") auto

declare process_with_retry.simps [simp del]

text \<open>One turn of \<^verbatim>\<open>run\<close>: the id at the head of the channel, all attempts, the cache entry.\<close>

definition worker_turn :: "worker_prims \<Rightarrow> (nat \<Rightarrow> worker_env) \<Rightarrow> nat \<Rightarrow> store \<Rightarrow> store" where
  "worker_turn W envs max_attempts st =
     (case ch_ids (st_chan st) of
        [] \<Rightarrow> st
      | i # rest \<Rightarrow>
          (let st1 = snd (process_with_retry W envs max_attempts 1 i
                 (st\<lparr>st_chan := (st_chan st)\<lparr>ch_ids := rest\<rparr>\<rparr>)) in
           st1\<lparr>st_cache := cache_remove i (st_cache st1)\<rparr>))"

section \<open>The resolver\<close>

datatype resolve_error = Orphaned availability | LostE string | Integrity string

datatype resolved = ResolvedInline string "byte list" | ResolvedBlob string string

definition mime_or_default :: "persisted \<Rightarrow> string" where
  "mime_or_default p = (case p_mime p of Some m \<Rightarrow> m | None \<Rightarrow> ''application/octet-stream'')"

definition requeue :: "rep_id \<Rightarrow> store \<Rightarrow> store" where
  "requeue i st = st\<lparr>st_chan := snd (try_send i (st_chan st))\<rparr>"

definition resolve_staged ::
  "bool \<Rightarrow> persisted \<Rightarrow> store \<Rightarrow> (resolve_error + resolved) \<times> store" where
  "resolve_staged read_fails p st =
     (case cache_get (p_id p) (st_cache st) of
        Some bytes \<Rightarrow> (Inr (ResolvedInline (mime_or_default p) bytes), requeue (p_id p) st)
      | None \<Rightarrow>
          (case spool_read read_fails (p_id p) (st_spool st) of
             Inr (Some bytes) \<Rightarrow> (Inr (ResolvedInline (mime_or_default p) bytes), requeue (p_id p) st)
           | Inr None \<Rightarrow> (Inl (Orphaned (p_state p)), st)
           | Inl err \<Rightarrow> (Inl (Integrity err), st)))"

definition resolve :: "bool \<Rightarrow> persisted \<Rightarrow> store \<Rightarrow> (resolve_error + resolved) \<times> store" where
  "resolve read_fails p st =
     (case p_state p of
        InlineA \<Rightarrow>
          (case p_inline p of
             Some bytes \<Rightarrow> (Inr (ResolvedInline (mime_or_default p) bytes), st)
           | None \<Rightarrow> (Inl (Integrity ''payload_state Inline but inline_data is None''), st))
      | BlobReadyA \<Rightarrow>
          (case p_blob p of
             Some b \<Rightarrow> (Inr (ResolvedBlob (mime_or_default p) b), st)
           | None \<Rightarrow> (Inl (Integrity ''payload_state BlobReady but blob_id is None''), st))
      | LostA \<Rightarrow>
          (Inl (LostE (case p_error p of Some e \<Rightarrow> e | None \<Rightarrow> ''payload marked as lost'')), st)
      | _ \<Rightarrow> resolve_staged read_fails p st)"

section \<open>Start-up and clean-up\<close>

definition remove_spool_file :: "bool \<Rightarrow> string \<Rightarrow> store \<Rightarrow> store" where
  "remove_spool_file io_error i st =
     (if io_error then st
      else st\<lparr>st_spool := (st_spool st)\<lparr>sl_files := (sl_files (st_spool st))(i := None)\<rparr>\<rparr>)"

text \<open>
  The scanner, over the names of the regular files of the directory; an error of the table stops
  it. \<open>io_error\<close> says whether removing a file fails, \<open>db_error\<close> at which files the table does.
\<close>

fun scan_entries ::
  "(string \<Rightarrow> bool) \<Rightarrow> (string \<Rightarrow> bool) \<Rightarrow> string list \<Rightarrow> nat \<Rightarrow> store \<Rightarrow> (string + nat) \<times> store" where
  "scan_entries io_error db_error [] recovered st = (Inr recovered, st)"
| "scan_entries io_error db_error (name # names) recovered st =
     (if \<not> utf8_valid (str_bytes name) \<or> name = [] then scan_entries io_error db_error names recovered st
      else (case get_representation_by_id (db_error name) name (st_reps st) of
        Inl err \<Rightarrow> (Inl err, st)
      | Inr (Some rep) \<Rightarrow>
          (if p_state rep = StagedA \<or> p_state rep = ProcessingA then
             (case try_send name (st_chan st) of
                (True, c) \<Rightarrow> scan_entries io_error db_error names (recovered + 1) (st\<lparr>st_chan := c\<rparr>)
              | (False, c) \<Rightarrow> scan_entries io_error db_error names recovered (st\<lparr>st_chan := c\<rparr>))
           else scan_entries io_error db_error names recovered (remove_spool_file (io_error name) name st))
      | Inr None \<Rightarrow>
          scan_entries io_error db_error names recovered (remove_spool_file (io_error name) name st)))"

text \<open>The reconciler: the candidates are listed once, then each is checked and demoted.\<close>

definition reconcile_one :: "bool \<Rightarrow> db_fault \<Rightarrow> rep_id \<Rightarrow> store \<Rightarrow> bool \<times> store" where
  "reconcile_one stat_fails fault i st =
     (case spool_exists stat_fails i (st_spool st) of
        Inr True \<Rightarrow> (False, st)
      | Inl _ \<Rightarrow> (False, st)
      | Inr False \<Rightarrow>
          (case update_processing_result fault i [StagedA, ProcessingA] None LostA
                  (Some ''orphaned at startup: spool file missing'') (st_reps st) of
             (Inr (Updated _), tbl) \<Rightarrow> (True, st\<lparr>st_reps := tbl\<rparr>)
           | (_, tbl) \<Rightarrow> (False, st\<lparr>st_reps := tbl\<rparr>)))"

fun reconcile_all ::
  "(rep_id \<Rightarrow> bool) \<Rightarrow> (rep_id \<Rightarrow> db_fault) \<Rightarrow> rep_id list \<Rightarrow> nat \<Rightarrow> store \<Rightarrow> nat \<times> store" where
  "reconcile_all stat_fails fault [] demoted st = (demoted, st)"
| "reconcile_all stat_fails fault (i # ids) demoted st =
     (case reconcile_one (stat_fails i) (fault i) i st of
        (d, st') \<Rightarrow> reconcile_all stat_fails fault ids (if d then demoted + 1 else demoted) st')"

definition reconcile_run_once ::
  "bool \<Rightarrow> rep_id list \<Rightarrow> (rep_id \<Rightarrow> bool) \<Rightarrow> (rep_id \<Rightarrow> db_fault) \<Rightarrow> store \<Rightarrow> (string + nat) \<times> store" where
  "reconcile_run_once db_error ids stat_fails fault st =
     (case list_ids_by_payload_state db_error ids [StagedA, ProcessingA] (st_reps st) of
        Inl err \<Rightarrow> (Inl err, st)
      | Inr candidates \<Rightarrow>
          (case reconcile_all stat_fails fault candidates 0 st of (n, st') \<Rightarrow> (Inr n, st')))"

text \<open>The janitor removes the file of an expired entry when its row was demoted or is gone.\<close>

definition janitor_one :: "bool \<Rightarrow> db_fault \<Rightarrow> string \<Rightarrow> store \<Rightarrow> bool \<times> store" where
  "janitor_one io_error fault i st =
     (case update_processing_result fault i [StagedA, ProcessingA] None LostA (Some ''spool ttl expired'') (st_reps st) of
        (res, tbl) \<Rightarrow>
          (let st1 = st\<lparr>st_reps := tbl\<rparr>;
               updated = (case res of Inr (Updated _) \<Rightarrow> True | Inr NotFound \<Rightarrow> True | _ \<Rightarrow> False) in
           if updated then (\<not> io_error \<and> sl_files (st_spool st) i \<noteq> None, remove_spool_file io_error i st1)
           else (False, st1)))"

fun janitor_all :: "(string \<Rightarrow> bool) \<Rightarrow> (string \<Rightarrow> db_fault) \<Rightarrow> string list \<Rightarrow> nat \<Rightarrow> store \<Rightarrow> nat \<times> store" where
  "janitor_all io_error fault [] removed st = (removed, st)"
| "janitor_all io_error fault (i # ids) removed st =
     (case janitor_one (io_error i) (fault i) i st of
        (r, st') \<Rightarrow> janitor_all io_error fault ids (if r then removed + 1 else removed) st')"

definition janitor_run_once ::
  "(string \<Rightarrow> bool) \<Rightarrow> (string \<Rightarrow> db_fault) \<Rightarrow> string list \<Rightarrow> int \<Rightarrow> nat \<Rightarrow> store \<Rightarrow> nat \<times> store" where
  "janitor_run_once io_error fault listing now ttl_days st =
     janitor_all io_error fault (map fst (list_expired listing now ttl_days (st_spool st))) 0 st"

text \<open>\<^verbatim>\<open>demote_orphaned_to_lost\<close> of \<^verbatim>\<open>uc-application: snapshot_from_entry.rs\<close>.\<close>

definition demote_orphaned_to_lost :: "db_fault \<Rightarrow> rep_id \<Rightarrow> store \<Rightarrow> store" where
  "demote_orphaned_to_lost fault i st =
     st\<lparr>st_reps := snd (update_processing_result fault i [StagedA, ProcessingA, FailedA ''''] None LostA
           (Some ''orphaned during snapshot reconstruction: bytes lost before blob materialization'')
           (st_reps st))\<rparr>"

end
