(* ===== verification/Payload_Safety.thy ===== *)
theory Payload_Safety
  imports Payload_Store
begin

text \<open>
  No payload is lost on the way from the capture to the blob: the tasks that share the stores of
  \<open>Payload_Store\<close> as a transition system, and its invariant.

  Captures, the worker, the resolver, the start-up scanner and reconciler, the janitor and restarts
  interleave in any order. History variables record the bytes each representation was captured
  with, and for which the spool accepted or refused them.
\<close>

section \<open>Rows\<close>

definition updated_row :: "string option \<Rightarrow> availability \<Rightarrow> string option \<Rightarrow> rep_row \<Rightarrow> rep_row" where
  "updated_row blob new_state err row =
     (case blob of
        Some b \<Rightarrow> row\<lparr>rr_state := avail_str new_state, rr_error := err, rr_inline := None, rr_blob := Some b\<rparr>
      | None \<Rightarrow> row\<lparr>rr_state := avail_str new_state, rr_error := err\<rparr>)"

lemma update_processing_result_cases:
  assumes "update_processing_result fault i expected blob new_state err tbl = (r, tbl')"
  obtains (Kept) "tbl' = tbl" and "\<forall>p. r \<noteq> Inr (Updated p)" and "r = Inr NotFound \<Longrightarrow> tbl i = None"
    | (Changed) row where "tbl i = Some row" and "rr_state row \<in> avail_str ` set expected"
        and "tbl' = tbl(i \<mapsto> updated_row blob new_state err row)" and "r \<noteq> Inr NotFound"
proof (cases "fault = DbBefore")
  case True
  then show thesis using assms by (intro Kept) (auto simp: update_processing_result_def)
next
  case ok: False
  show thesis
  proof (cases "tbl i")
    case None
    then show thesis using assms ok by (intro Kept) (auto simp: update_processing_result_def)
  next
    case (Some row)
    show thesis
    proof (cases "rr_state row \<in> avail_str ` set expected")
      case True
      have "tbl' = tbl(i \<mapsto> updated_row blob new_state err row) \<and> r \<noteq> Inr NotFound"
        using assms ok Some True unfolding update_processing_result_def updated_row_def
        by (simp add: Let_def split: if_splits sum.splits option.splits) blast+
      then show thesis using Some True by (intro Changed) auto
    next
      case False
      then show thesis using assms ok Some by (intro Kept) (auto simp: update_processing_result_def)
    qed
  qed
qed

lemma updated_row_state [simp]: "rr_state (updated_row blob new_state err row) = avail_str new_state"
  by (simp add: updated_row_def split: option.split)

lemma updated_row_blob [simp]: "rr_blob (updated_row (Some b) new_state err row) = Some b"
  by (simp add: updated_row_def)

text \<open>What a row says of the state is read back as that state, and nothing is read from an invalid row.\<close>

definition persisted_ok :: "persisted \<Rightarrow> bool" where
  "persisted_ok p \<longleftrightarrow>
     \<not> (p_inline p \<noteq> None \<and> p_blob p \<noteq> None) \<and>
     (p_state p = InlineA \<longrightarrow> p_inline p \<noteq> None) \<and> (p_state p = BlobReadyA \<longrightarrow> p_blob p \<noteq> None) \<and>
     (\<forall>e. p_state p = FailedA e \<longrightarrow> p_error p = Some e)"

lemma row_roundtrip: "persisted_ok p \<Longrightarrow> to_domain (p_id p) (to_row event p) = Inr p"
  by (cases "p_state p")
    (auto simp: to_domain_def to_row_def parse_payload_state_def persisted_with_state_def persisted_ok_def)

lemma to_domain_row:
  assumes "to_domain i row = Inr p"
  shows "p_id p = i \<and> avail_str (p_state p) = rr_state row \<and> p_inline p = rr_inline row \<and> p_blob p = rr_blob row \<and>
    p_mime p = rr_mime row \<and> persisted_ok p"
  using assms
  by (auto simp: to_domain_def parse_payload_state_def persisted_with_state_def persisted_ok_def Let_def
      split: if_splits option.splits availability.splits)

lemma with_state_ok: "persisted_with_state i f m n inline blob st err = Inr p \<Longrightarrow> persisted_ok p"
  by (auto simp: persisted_with_state_def persisted_ok_def Let_def split: if_splits option.splits availability.splits)

lemma normalize_ok:
  assumes "normalize thr r = Done (Inr p)" and "inline_bytes r = Some bytes"
  shows "p_id p = rep_id r \<and> p_blob p = None \<and> persisted_ok p \<and>
    (p_state p = InlineA \<and> p_inline p = Some bytes \<or> p_state p = StagedA)"
proof -
  consider "p = persisted_new (rep_id r) (format_id r) (mime r) (size_bytes r) (Some bytes) None"
    | "persisted_with_state (rep_id r) (format_id r) (mime r) (size_bytes r) (Some (truncate_to_preview bytes)) None
         StagedA None = Inr p"
    | "p = persisted_staged (rep_id r) (format_id r) (mime r) (size_bytes r)"
    using assms by (auto simp: normalize_def Let_def split: if_splits)
  then show ?thesis
    by cases (auto simp: persisted_new_def persisted_staged_def persisted_ok_def persisted_with_state_def)
qed

text \<open>A row that can be read, and what an update has to say for it to stay so.\<close>

definition readable :: "rep_id \<Rightarrow> rep_row \<Rightarrow> bool" where
  "readable i row \<longleftrightarrow> (\<exists>p. to_domain i row = Inr p)"

lemma readable_iff:
  "readable i row \<longleftrightarrow> \<not> (rr_inline row \<noteq> None \<and> rr_blob row \<noteq> None) \<and>
     rr_state row \<in> avail_str ` {InlineA, BlobReadyA, StagedA, ProcessingA, FailedA [], LostA} \<and>
     (rr_state row = avail_str InlineA \<longrightarrow> rr_inline row \<noteq> None) \<and>
     (rr_state row = avail_str BlobReadyA \<longrightarrow> rr_blob row \<noteq> None) \<and>
     (rr_state row = avail_str (FailedA []) \<longrightarrow> rr_error row \<noteq> None)"
  by (auto simp: readable_def to_domain_def parse_payload_state_def persisted_with_state_def Let_def
      split: option.split)

definition update_sane :: "string option \<Rightarrow> availability \<Rightarrow> string option \<Rightarrow> bool" where
  "update_sane blob new_state err \<longleftrightarrow>
     new_state \<noteq> InlineA \<and> (new_state = BlobReadyA \<longrightarrow> blob \<noteq> None) \<and> (\<forall>e. new_state = FailedA e \<longrightarrow> err \<noteq> None)"

lemma readable_updated:
  "\<lbrakk>readable i row; update_sane blob new_state err\<rbrakk> \<Longrightarrow> readable i (updated_row blob new_state err row)"
  by (cases new_state; cases blob) (auto simp: readable_iff updated_row_def update_sane_def)

lemma readable_mime [simp]: "readable i (row\<lparr>rr_mime := m\<rparr>) = readable i row"
  by (simp add: readable_iff)

lemma readable_to_row: "persisted_ok p \<Longrightarrow> readable (p_id p) (to_row event p)"
  using row_roundtrip unfolding readable_def by blast

section \<open>Frames\<close>

lemma remove_entry_values: "map_of (c_entries (remove_entry k d)) j \<in> {None, map_of (c_entries d) j}"
  by (auto simp: remove_entry_def AList.delete_conv' split: option.split)

lemma evict_values: "map_of (c_entries (evict_if_needed c)) j \<in> {None, map_of (c_entries c) j}"
proof (induction c rule: evict_if_needed.induct)
  case (1 c)
  have pop: "c_entries c' = c_entries c" if "pop_oldest_by_status CompletedC c = Some (k, c')" for k c'
    using that by (auto simp: pop_oldest_by_status_def split: option.splits)
  show ?case
  proof (cases "over_limit c")
    case over: True
    show ?thesis
    proof (cases "pop_oldest_by_status CompletedC c")
      case None
      show ?thesis
      proof (cases "c_queue c")
        case Nil
        then show ?thesis using None over by (subst evict_if_needed.simps) simp
      next
        case (Cons k rest)
        then have "evict_if_needed c = evict_if_needed (remove_entry k (c\<lparr>c_queue := rest\<rparr>))"
          by (subst evict_if_needed.simps) (simp add: over None)
        then show ?thesis
          using 1(1) [OF over None Cons] remove_entry_values [of k "c\<lparr>c_queue := rest\<rparr>" j] by auto
      qed
    next
      case (Some r)
      obtain k c' where r: "r = (k, c')" by (cases r)
      have "evict_if_needed c = evict_if_needed (remove_entry k c')"
        by (subst evict_if_needed.simps) (simp add: over Some r)
      then show ?thesis
        using 1(2) [OF over Some r [symmetric]] remove_entry_values [of k c' j]
        unfolding pop [OF Some [unfolded r]] by auto
    qed
  qed (subst evict_if_needed.simps, simp)
qed

lemma cache_put_values:
  assumes "cache_get j (cache_put k bytes c) = Some x"
  shows "j = k \<and> x = bytes \<or> cache_get j c = Some x"
proof -
  obtain d where d: "cache_put k bytes c = evict_if_needed d"
    and e: "c_entries d = AList.update k \<lparr>raw_bytes = bytes, c_status = PendingC\<rparr> (c_entries (remove_entry k c))"
    by (simp add: cache_put_def Let_def)
  obtain f where f: "map_of (c_entries (evict_if_needed d)) j = Some f" "raw_bytes f = x"
    using assms by (auto simp: cache_get_def d)
  then have "map_of (c_entries d) j = Some f"
    using evict_values [of d j] by auto
  then show ?thesis
    using f(2) remove_entry_values [of k c j]
    by (auto simp: e AList.update_conv' cache_get_def dest: sym [of "Some _"] split: if_splits)
qed

lemma cache_remove_values: "cache_get j (cache_remove k c) = Some x \<Longrightarrow> cache_get j c = Some x"
  by (auto simp: cache_get_def cache_remove_map split: if_splits)

lemma cache_get_new [simp]: "cache_get j (cache_new n m) = None"
  by (simp add: cache_get_def cache_new_def)

definition blobs_kept :: "blob_db \<Rightarrow> blob_db \<Rightarrow> bool" where
  "blobs_kept d d' \<longleftrightarrow>
     set (bd_rows d) \<subseteq> set (bd_rows d') \<and> (\<forall>r \<in> set (bd_rows d). bd_files d' (bl_id r) = bd_files d (bl_id r))"

lemma blobs_kept_refl [simp]: "blobs_kept d d"
  by (simp add: blobs_kept_def)

lemma write_if_absent_keeps:
  assumes q: "blob_quiet P h key S e" and fresh: "be_id e \<notin> bl_id ` set (bd_rows d)"
  shows "blobs_kept d (snd (write_if_absent P e ch bytes d))"
proof (cases "find_by_hash (be_find_fails e) ch d")
  case (Inr found)
  show ?thesis
  proof (cases found)
    case None
    obtain res files where p: "encrypted_put P (be_session e) (be_nonce e) (be_disk e) (be_id e) bytes (bd_files d) = (res, files)"
      by (cases "encrypted_put P (be_session e) (be_nonce e) (be_disk e) (be_id e) bytes (bd_files d)")
    have put: "files (bl_id r) = bd_files d (bl_id r)" if "r \<in> set (bd_rows d)" for r
      using encrypted_put_other [of "bl_id r" "be_id e" P "be_session e" "be_nonce e" "be_disk e" bytes "bd_files d"] fresh that p
      by (auto simp: image_iff)
    let ?d1 = "be_between e (d\<lparr>bd_files := files\<rparr>)"
    have "blob_grows (be_id e) (d\<lparr>bd_files := files\<rparr>) ?d1"
      using q by (simp add: blob_quiet_def)
    then have kept: "blobs_kept d ?d1"
      using put by (auto simp: blob_grows_def blobs_kept_def)
    have ins: "blobs_kept d (snd (insert_blob f row ?d1))" for f row
      using kept by (auto simp: insert_blob_def blobs_kept_def)
    show ?thesis
    proof (cases res)
      case (Inl err)
      then show ?thesis using Inr None p put by (simp add: write_if_absent_def blobs_kept_def)
    next
      case stored: (Inr n)
      let ?row = "\<lparr>bl_id = be_id e, bl_size = int (length bytes), bl_hash = ch, bl_created = be_now e, bl_stored = int n\<rparr>"
      obtain r d2 where r: "insert_blob (be_insert_fails e) ?row ?d1 = (r, d2)"
        by (cases "insert_blob (be_insert_fails e) ?row ?d1")
      then show ?thesis
        using Inr None p stored kept ins [of "be_insert_fails e" ?row]
        by (auto simp: write_if_absent_def Let_def split: sum.split option.split)
    qed
  qed (simp add: write_if_absent_def Inr)
qed (simp add: write_if_absent_def)

text \<open>A blob on record that holds some bytes.\<close>

definition vouched :: "worker_prims \<Rightarrow> byte list \<Rightarrow> blob_db \<Rightarrow> string \<Rightarrow> byte list \<Rightarrow> bool" where
  "vouched W key d k b \<longleftrightarrow> k \<in> bl_id ` set (bd_rows d) \<and> blob_holds (wp_blob W) key d k b"

lemma vouched_kept: "\<lbrakk>vouched W key d k b; blobs_kept d d'\<rbrakk> \<Longrightarrow> vouched W key d' k b"
  using blob_holds_cong [of d k d'] by (fastforce simp: vouched_def blobs_kept_def)

section \<open>The system\<close>

text \<open>Where the worker is: between ids, before an attempt, with the bytes, with the blob, done.\<close>

datatype worker_pc = WIdle | WAttempt rep_id | WLoaded rep_id "byte list" | WStored rep_id string "byte list" | WDone rep_id

record sys =
  sy_store :: store
  sy_pc :: worker_pc
  sy_orig :: "rep_id \<rightharpoonup> byte list"
  sy_spooled :: "rep_id set"
  sy_refused :: "rep_id set"

text \<open>What a capture inserts for a representation of the given bytes.\<close>

definition rep_captures :: "worker_prims \<Rightarrow> byte list \<Rightarrow> blob_db \<Rightarrow> persisted \<Rightarrow> byte list \<Rightarrow> bool" where
  "rep_captures W key d p b \<longleftrightarrow>
     persisted_ok p \<and>
     (p_state p = InlineA \<and> p_inline p = Some b \<or> p_state p = StagedA \<or>
      p_state p = BlobReadyA \<and> (\<exists>k. p_blob p = Some k \<and> vouched W key d k b))"

text \<open>The environment of a blob write: the session closed or open, a fresh id, and other tasks that only add blobs.\<close>

definition blob_env_ok :: "worker_prims \<Rightarrow> byte list \<Rightarrow> byte list set \<Rightarrow> blob_db \<Rightarrow> blob_env \<Rightarrow> bool" where
  "blob_env_ok W key S d e \<longleftrightarrow>
     blob_quiet (wp_blob W) (wp_hash W) key S e \<and> be_id e \<notin> bl_id ` set (bd_rows d) \<and> be_session e \<in> {None, Some key}"

definition worker_env_ok :: "worker_prims \<Rightarrow> byte list \<Rightarrow> byte list set \<Rightarrow> blob_db \<Rightarrow> worker_env \<Rightarrow> bool" where
  "worker_env_ok W key S d e \<longleftrightarrow> blob_env_ok W key S d (wk_blob e) \<and> blob_env_ok W key S d (wk_thumb_blob e)"

definition leftover_in :: "byte list set \<Rightarrow> spool_env \<Rightarrow> bool" where
  "leftover_in S e \<longleftrightarrow> (case se_write e of WriteFails (Some f) \<Rightarrow> f_bytes f \<in> S | _ \<Rightarrow> True)"

fun pc_after_load :: "rep_id \<Rightarrow> string + load_result \<Rightarrow> worker_pc" where
  "pc_after_load i (Inl _) = WAttempt i"
| "pc_after_load i (Inr (Loaded bytes)) = WLoaded i bytes"
| "pc_after_load i (Inr _) = WDone i"

fun pc_after_store :: "rep_id \<Rightarrow> string + string \<times> byte list \<Rightarrow> worker_pc" where
  "pc_after_store i (Inl _) = WAttempt i"
| "pc_after_store i (Inr (k, bytes)) = WStored i k bytes"

fun pc_after_finish :: "rep_id \<Rightarrow> string + unit \<Rightarrow> worker_pc" where
  "pc_after_finish i (Inl _) = WAttempt i"
| "pc_after_finish i (Inr _) = WDone i"

inductive payload_step :: "worker_prims \<Rightarrow> byte list \<Rightarrow> byte list set \<Rightarrow> sys \<Rightarrow> sys \<Rightarrow> bool"
  for W key S where
  Insert: "payload_step W key S s (s\<lparr>sy_store := (sy_store s)\<lparr>st_reps := tbl\<rparr>, sy_orig := sy_orig s ++ map_of (map (\<lambda>(p, b). (p_id p, b)) pbs)\<rparr>)"
  if "insert_reps db_error event (map fst pbs) (st_reps (sy_store s)) = (Inr (), tbl)"
    and "\<forall>(p, b) \<in> set pbs. b \<in> S \<and> rep_captures W key (st_blobs (sy_store s)) p b \<and> sy_orig s (p_id p) = None"
| Delete: "payload_step W key S s (s\<lparr>sy_store := (sy_store s)\<lparr>st_reps := (st_reps (sy_store s))(i := None)\<rparr>\<rparr>)"
| Blobs: "payload_step W key S s (s\<lparr>sy_store := (sy_store s)\<lparr>st_blobs := d\<rparr>\<rparr>)"
  if "blobs_kept (st_blobs (sy_store s)) d" and "blob_inv (wp_blob W) (wp_hash W) key S d"
| Cache: "payload_step W key S s (s\<lparr>sy_store := (sy_store s)\<lparr>st_cache := cache_put i b (st_cache (sy_store s))\<rparr>\<rparr>)"
  if "sy_orig s i = Some b"
| Spool: "payload_step W key S s (s\<lparr>sy_store := (sy_store s)\<lparr>st_spool := sp, st_chan := ch\<rparr>,
      sy_spooled := (if isl res then sy_spooled s else insert i (sy_spooled s)),
      sy_refused := (if isl res then insert i (sy_refused s) else sy_refused s)\<rparr>)"
  if "sy_orig s i = Some b" and "i \<notin> sy_spooled s \<union> sy_refused s" and "leftover_in S e"
    and "fst (plan_eviction i (length b) (st_spool (sy_store s))) = []"
    and "enqueue e i b (st_spool (sy_store s), st_chan (sy_store s)) = (res, sp, ch)"
| Take: "payload_step W key S s (s\<lparr>sy_store := (sy_store s)\<lparr>st_chan := (st_chan (sy_store s))\<lparr>ch_ids := rest\<rparr>\<rparr>, sy_pc := WAttempt i\<rparr>)"
  if "sy_pc s = WIdle" and "ch_ids (st_chan (sy_store s)) = i # rest"
| Load: "payload_step W key S s (s\<lparr>sy_store := st, sy_pc := pc_after_load i r\<rparr>)"
  if "sy_pc s = WAttempt i" and "worker_load e i (sy_store s) = (r, st)"
| Store: "payload_step W key S s (s\<lparr>sy_store := st, sy_pc := pc_after_store i r\<rparr>)"
  if "sy_pc s = WLoaded i bytes" and "worker_env_ok W key S (st_blobs (sy_store s)) e"
    and "worker_store W e i bytes (sy_store s) = (r, st)"
| Finish: "payload_step W key S s (s\<lparr>sy_store := st, sy_pc := pc_after_finish i r\<rparr>)"
  if "sy_pc s = WStored i k bytes" and "worker_env_ok W key S (st_blobs (sy_store s)) e"
    and "worker_finish W e i k bytes (sy_store s) = (r, st)"
| GiveUp: "payload_step W key S s (s\<lparr>sy_store := mark_failed e i err (sy_store s), sy_pc := WDone i\<rparr>)"
  if "sy_pc s = WAttempt i"
| Forget: "payload_step W key S s (s\<lparr>sy_store := (sy_store s)\<lparr>st_cache := cache_remove i (st_cache (sy_store s))\<rparr>, sy_pc := WIdle\<rparr>)"
  if "sy_pc s = WDone i"
| Resolve: "payload_step W key S s (s\<lparr>sy_store := snd (resolve f p (sy_store s))\<rparr>)"
| Demote: "payload_step W key S s (s\<lparr>sy_store := demote_orphaned_to_lost fault i (sy_store s)\<rparr>)"
| Scan: "payload_step W key S s (s\<lparr>sy_store := snd (scan_entries io db [name] n (sy_store s))\<rparr>)"
| Reconcile: "payload_step W key S s (s\<lparr>sy_store := snd (reconcile_one stat fault i (sy_store s))\<rparr>)"
| Janitor: "payload_step W key S s (s\<lparr>sy_store := snd (janitor_one ioerr fault i (sy_store s))\<rparr>)"
| Restart: "payload_step W key S s (s\<lparr>sy_store := (sy_store s)\<lparr>st_cache := cache_new n m,
      st_spool := rebuild_state_from_dir listing mx (sl_files (st_spool (sy_store s))),
      st_chan := (st_chan (sy_store s))\<lparr>ch_ids := []\<rparr>\<rparr>, sy_pc := WIdle\<rparr>)"


section \<open>The invariant\<close>

text \<open>A blob holds the bytes as captured or, for images, their conversion to PNG.\<close>

definition stored_as :: "worker_prims \<Rightarrow> byte list \<Rightarrow> byte list \<Rightarrow> bool" where
  "stored_as W b b' \<longleftrightarrow> b' = b \<or> wp_png W b = Some b'"

definition row_safe ::
  "worker_prims \<Rightarrow> byte list \<Rightarrow> blob_db \<Rightarrow> (string \<rightharpoonup> spool_file) \<Rightarrow> rep_id set \<Rightarrow> rep_id \<Rightarrow> byte list \<Rightarrow> rep_row \<Rightarrow> bool" where
  "row_safe W key d files spooled i b row \<longleftrightarrow>
     (rr_state row = avail_str InlineA \<longrightarrow> rr_inline row = Some b) \<and>
     (rr_state row = avail_str BlobReadyA \<longrightarrow>
        (\<exists>k b'. rr_blob row = Some k \<and> stored_as W b b' \<and> vouched W key d k b')) \<and>
     (rr_state row \<in> avail_str ` {StagedA, ProcessingA} \<and> i \<in> spooled \<longrightarrow>
        (\<exists>f. files i = Some f \<and> f_bytes f = b))"

definition row_kept :: "worker_prims \<Rightarrow> byte list \<Rightarrow> sys \<Rightarrow> rep_id \<Rightarrow> rep_row \<Rightarrow> bool" where
  "row_kept W key s i row \<longleftrightarrow>
     readable i row \<and>
     (\<exists>b. sy_orig s i = Some b \<and>
        (i \<notin> sy_refused s \<longrightarrow>
           row_safe W key (st_blobs (sy_store s)) (sl_files (st_spool (sy_store s))) (sy_spooled s) i b row))"

definition rows_inv :: "worker_prims \<Rightarrow> byte list \<Rightarrow> sys \<Rightarrow> bool" where
  "rows_inv W key s \<longleftrightarrow> (\<forall>i row. st_reps (sy_store s) i = Some row \<longrightarrow> row_kept W key s i row)"

definition files_inv :: "byte list set \<Rightarrow> sys \<Rightarrow> bool" where
  "files_inv S s \<longleftrightarrow>
     (\<forall>i f. sl_files (st_spool (sy_store s)) i = Some f \<longrightarrow>
        f_bytes f \<in> S \<and> i \<in> sy_spooled s \<union> sy_refused s \<and> (i \<notin> sy_refused s \<longrightarrow> sy_orig s i = Some (f_bytes f)))"

definition cached_inv :: "sys \<Rightarrow> bool" where
  "cached_inv s \<longleftrightarrow> (\<forall>i x. cache_get i (st_cache (sy_store s)) = Some x \<longrightarrow> sy_orig s i = Some x)"

fun pc_inv :: "worker_prims \<Rightarrow> byte list \<Rightarrow> byte list set \<Rightarrow> sys \<Rightarrow> worker_pc \<Rightarrow> bool" where
  "pc_inv W key S s (WLoaded i x) = (x \<in> S \<and> (i \<notin> sy_refused s \<longrightarrow> sy_orig s i = Some x))"
| "pc_inv W key S s (WStored i k x) =
     (x \<in> S \<and> vouched W key (st_blobs (sy_store s)) k x \<and>
      (i \<notin> sy_refused s \<longrightarrow> (\<exists>b. sy_orig s i = Some b \<and> stored_as W b x)))"
| "pc_inv W key S s _ = True"

text \<open>The contents there are: without a collision of hashes, closed under what the worker makes of them.\<close>

definition contents_ok :: "worker_prims \<Rightarrow> byte list set \<Rightarrow> bool" where
  "contents_ok W S \<longleftrightarrow>
     blob_sound (wp_blob W) \<and> inj_on (wp_hash W) S \<and>
     (\<forall>b \<in> S. (\<forall>p. wp_png W b = Some p \<longrightarrow> p \<in> S) \<and> (\<forall>t. wp_thumb W b = Some t \<longrightarrow> t \<in> S))"

definition sys_inv :: "worker_prims \<Rightarrow> byte list \<Rightarrow> byte list set \<Rightarrow> sys \<Rightarrow> bool" where
  "sys_inv W key S s \<longleftrightarrow>
     contents_ok W S \<and> blob_inv (wp_blob W) (wp_hash W) key S (st_blobs (sy_store s)) \<and>
     ran (sy_orig s) \<subseteq> S \<and> sy_spooled s \<union> sy_refused s \<subseteq> dom (sy_orig s) \<and> sy_spooled s \<inter> sy_refused s = {} \<and>
     rows_inv W key s \<and> files_inv S s \<and> cached_inv s \<and> pc_inv W key S s (sy_pc s)"

text \<open>What keeps a row safe.\<close>

lemma row_safe_blobs:
  "\<lbrakk>row_safe W key d files sp i b row; blobs_kept d d'\<rbrakk> \<Longrightarrow> row_safe W key d' files sp i b row"
  unfolding row_safe_def using vouched_kept by blast

lemma row_safe_files:
  "\<lbrakk>row_safe W key d files sp i b row; i \<in> sp \<Longrightarrow> files' i = files i\<rbrakk> \<Longrightarrow> row_safe W key d files' sp i b row"
  by (auto simp: row_safe_def)

lemma row_safe_unstaged:
  "\<lbrakk>row_safe W key d files sp i b row; rr_state row \<notin> avail_str ` {StagedA, ProcessingA}\<rbrakk> \<Longrightarrow>
   row_safe W key d files' sp' i b row"
  by (simp add: row_safe_def)

lemma row_safe_mime [simp]:
  "row_safe W key d files sp i b (row\<lparr>rr_mime := m\<rparr>) = row_safe W key d files sp i b row"
  by (simp add: row_safe_def)

lemma avail_str_inj: "avail_str x = avail_str y \<longleftrightarrow> x = y \<or> (\<exists>e e'. x = FailedA e \<and> y = FailedA e')"
  by (cases x; cases y) auto

lemma row_safe_updated:
  assumes "row_safe W key d files sp i b row" and "rr_state row \<in> avail_str ` {StagedA, ProcessingA}"
    and "new_state \<in> {StagedA, ProcessingA, LostA} \<union> range FailedA"
  shows "row_safe W key d files sp i b (updated_row None new_state err row)"
  using assms by (auto simp: row_safe_def updated_row_def)

lemma row_safe_gone:
  assumes "new_state \<in> {LostA} \<union> range FailedA"
  shows "row_safe W key d files sp i b (updated_row None new_state err row)"
  using assms by (auto simp: row_safe_def updated_row_def)

lemma row_safe_ready:
  assumes "stored_as W b x" and "vouched W key d k x"
  shows "row_safe W key d files sp i b (updated_row (Some k) BlobReadyA err row)"
  using assms by (auto simp: row_safe_def updated_row_def)

section \<open>Its preservation\<close>

text \<open>Steps that touch one part of the store.\<close>

lemma rows_inv_table:
  assumes "rows_inv W key s" and "update_processing_result fault i expected blob new_state err (st_reps (sy_store s)) = (r, tbl)"
    and sane: "update_sane blob new_state err"
    and safe: "\<And>row b. \<lbrakk>st_reps (sy_store s) i = Some row; rr_state row \<in> avail_str ` set expected; sy_orig s i = Some b; i \<notin> sy_refused s;
      row_safe W key (st_blobs (sy_store s)) (sl_files (st_spool (sy_store s))) (sy_spooled s) i b row\<rbrakk> \<Longrightarrow>
      row_safe W key (st_blobs (sy_store s)) (sl_files (st_spool (sy_store s))) (sy_spooled s) i b (updated_row blob new_state err row)"
  shows "rows_inv W key (s\<lparr>sy_store := (sy_store s)\<lparr>st_reps := tbl\<rparr>\<rparr>)"
  using assms(2)
proof (cases rule: update_processing_result_cases)
  case Kept
  then show ?thesis using assms(1) by (simp add: rows_inv_def row_kept_def)
next
  case (Changed row)
  have "row_kept W key s i row"
    using assms(1) Changed(1) unfolding rows_inv_def by blast
  then have new: "row_kept W key s i (updated_row blob new_state err row)"
    using readable_updated [OF _ sane] safe [OF Changed(1,2)] unfolding row_kept_def by blast
  have "row_kept W key s j row'" if "tbl j = Some row'" for j row'
    using that new assms(1) Changed(3) by (cases "j = i") (auto simp: rows_inv_def)
  then show ?thesis by (simp add: rows_inv_def row_kept_def)
qed

lemma pc_inv_mono:
  assumes "pc_inv W key S s pc" and "blobs_kept (st_blobs (sy_store s)) (st_blobs (sy_store s'))"
    and "sy_refused s \<subseteq> sy_refused s'" and "sy_orig s \<subseteq>\<^sub>m sy_orig s'"
  shows "pc_inv W key S s' pc"
proof (cases pc)
  case (WLoaded i x)
  then show ?thesis using assms by (force simp: map_le_def)
next
  case (WStored i k x)
  then show ?thesis using assms vouched_kept [OF _ assms(2)] by (force simp: map_le_def)
qed simp_all

lemma sys_inv_pc: "\<lbrakk>sys_inv W key S s; pc_inv W key S s pc\<rbrakk> \<Longrightarrow> sys_inv W key S (s\<lparr>sy_pc := pc\<rparr>)"
  by (cases pc) (auto simp: sys_inv_def rows_inv_def row_kept_def files_inv_def cached_inv_def)

lemma sys_inv_store:
  assumes "sys_inv W key S s" and "blobs_kept (st_blobs (sy_store s)) (st_blobs st)"
    and "blob_inv (wp_blob W) (wp_hash W) key S (st_blobs st)"
    and "rows_inv W key (s\<lparr>sy_store := st\<rparr>)" and "files_inv S (s\<lparr>sy_store := st\<rparr>)" and "cached_inv (s\<lparr>sy_store := st\<rparr>)"
  shows "sys_inv W key S (s\<lparr>sy_store := st\<rparr>)"
proof -
  have "pc_inv W key S (s\<lparr>sy_store := st\<rparr>) (sy_pc s)"
    by (rule pc_inv_mono [of _ _ _ s]) (use assms in \<open>auto simp: sys_inv_def\<close>)
  then show ?thesis using assms by (simp add: sys_inv_def)
qed

lemma sys_inv_rows:
  assumes "sys_inv W key S s" and "rows_inv W key (s\<lparr>sy_store := (sy_store s)\<lparr>st_reps := tbl\<rparr>\<rparr>)"
  shows "sys_inv W key S (s\<lparr>sy_store := (sy_store s)\<lparr>st_reps := tbl\<rparr>\<rparr>)"
  by (rule sys_inv_store) (use assms in \<open>auto simp: sys_inv_def files_inv_def cached_inv_def\<close>)

lemma sys_inv_update:
  assumes "sys_inv W key S s" and "update_processing_result fault i expected None new_state err (st_reps (sy_store s)) = (r, tbl)"
    and "set expected \<subseteq> {StagedA, ProcessingA} \<and> new_state \<in> {StagedA, ProcessingA} \<or> new_state \<in> {LostA} \<union> range FailedA"
    and sane: "update_sane None new_state err"
  shows "sys_inv W key S (s\<lparr>sy_store := (sy_store s)\<lparr>st_reps := tbl\<rparr>\<rparr>)"
proof (rule sys_inv_rows [OF assms(1)], rule rows_inv_table [OF _ assms(2) sane])
  show "rows_inv W key s" using assms(1) by (simp add: sys_inv_def)
  fix row b
  assume "rr_state row \<in> avail_str ` set expected"
    and "row_safe W key (st_blobs (sy_store s)) (sl_files (st_spool (sy_store s))) (sy_spooled s) i b row"
  then show "row_safe W key (st_blobs (sy_store s)) (sl_files (st_spool (sy_store s))) (sy_spooled s) i b
      (updated_row None new_state err row)"
    using assms(3) by (elim disjE) (blast intro: row_safe_updated, rule row_safe_gone)
qed

lemma sys_inv_spool:
  assumes "sys_inv W key S s" and "sl_files sp = sl_files (st_spool (sy_store s)) \<or>
      sl_files sp = (sl_files (st_spool (sy_store s)))(i := None) \<and>
      (\<forall>row. st_reps (sy_store s) i = Some row \<longrightarrow> rr_state row \<notin> avail_str ` {StagedA, ProcessingA})"
  shows "sys_inv W key S (s\<lparr>sy_store := (sy_store s)\<lparr>st_spool := sp\<rparr>\<rparr>)"
proof (rule sys_inv_store)
  have "row_kept W key (s\<lparr>sy_store := (sy_store s)\<lparr>st_spool := sp\<rparr>\<rparr>) j row" if j: "st_reps (sy_store s) j = Some row" for j row
  proof -
    have kept: "row_kept W key s j row" using assms(1) j unfolding sys_inv_def rows_inv_def by blast
    have "row_safe W key (st_blobs (sy_store s)) (sl_files sp) (sy_spooled s) j b row"
      if "row_safe W key (st_blobs (sy_store s)) (sl_files (st_spool (sy_store s))) (sy_spooled s) j b row" for b
    proof (cases "j = i \<and> sl_files sp \<noteq> sl_files (st_spool (sy_store s))")
      case True
      then show ?thesis using row_safe_unstaged that assms(2) j by blast
    next
      case False
      then show ?thesis using assms(2) that by (auto elim!: row_safe_files)
    qed
    then show ?thesis using kept by (auto simp: row_kept_def)
  qed
  then show "rows_inv W key (s\<lparr>sy_store := (sy_store s)\<lparr>st_spool := sp\<rparr>\<rparr>)"
    by (simp add: rows_inv_def)
  have "sl_files (st_spool (sy_store s)) j = Some f" if "sl_files sp j = Some f" for j f
    using that assms(2) by (auto split: if_splits)
  moreover have "files_inv S s" using assms(1) by (simp add: sys_inv_def)
  ultimately show "files_inv S (s\<lparr>sy_store := (sy_store s)\<lparr>st_spool := sp\<rparr>\<rparr>)"
    unfolding files_inv_def by (simp, blast)
qed (use assms in \<open>auto simp: sys_inv_def cached_inv_def\<close>)

lemma sys_inv_blobs:
  assumes "sys_inv W key S s" and "blobs_kept (st_blobs (sy_store s)) d" and "blob_inv (wp_blob W) (wp_hash W) key S d"
  shows "sys_inv W key S (s\<lparr>sy_store := (sy_store s)\<lparr>st_blobs := d\<rparr>\<rparr>)"
proof (rule sys_inv_store [OF assms(1)])
  show "rows_inv W key (s\<lparr>sy_store := (sy_store s)\<lparr>st_blobs := d\<rparr>\<rparr>)"
    using assms(1) row_safe_blobs [OF _ assms(2)] by (fastforce simp: sys_inv_def rows_inv_def row_kept_def)
qed (use assms in \<open>auto simp: sys_inv_def files_inv_def cached_inv_def\<close>)

lemma sys_inv_cache:
  assumes "sys_inv W key S s" and "\<And>j x. cache_get j c = Some x \<Longrightarrow> sy_orig s j = Some x"
  shows "sys_inv W key S (s\<lparr>sy_store := (sy_store s)\<lparr>st_cache := c\<rparr>\<rparr>)"
  by (rule sys_inv_store [OF assms(1)])
    (use assms in \<open>auto simp: sys_inv_def files_inv_def cached_inv_def rows_inv_def row_kept_def\<close>)

lemma sys_inv_chan_thumbs:
  "sys_inv W key S s \<Longrightarrow> sys_inv W key S (s\<lparr>sy_store := (sy_store s)\<lparr>st_chan := c\<rparr>\<rparr>)"
  "sys_inv W key S s \<Longrightarrow> sys_inv W key S (s\<lparr>sy_store := (sy_store s)\<lparr>st_thumbs := t\<rparr>\<rparr>)"
  by (rule sys_inv_store; auto simp: sys_inv_def files_inv_def cached_inv_def rows_inv_def row_kept_def)+

lemma blob_write:
  assumes "contents_ok W S" and "blob_inv (wp_blob W) (wp_hash W) key S d" and "blob_env_ok W key S d e" and "x \<in> S"
    and w: "write_if_absent (wp_blob W) e (wp_hash W x) x d = (r, d')"
  shows "blob_inv (wp_blob W) (wp_hash W) key S d' \<and> blobs_kept d d' \<and> (\<forall>k. r = Inr k \<longrightarrow> vouched W key d' k x)"
proof -
  from assms(3) have q: "blob_quiet (wp_blob W) (wp_hash W) key S e" and f: "be_id e \<notin> bl_id ` set (bd_rows d)"
    and k: "be_session e \<in> {None, Some key}" by (auto simp: blob_env_ok_def)
  from assms(1) have sound: "blob_sound (wp_blob W)" and inj: "inj_on (wp_hash W) S"
    by (auto simp: contents_ok_def)
  note inv = write_if_absent_inv [OF assms(2) q f k refl assms(4)]
  have "vouched W key d' k' x" if "r = Inr k'" for k'
    using write_if_absent_read [OF sound assms(2) q f k inj assms(4) w [unfolded that]] inv w that
    by (auto simp: vouched_def)
  then show ?thesis using inv write_if_absent_keeps [OF q f, of "wp_hash W x" x] w by simp
qed

text \<open>The worker.\<close>

lemma load_kept:
  assumes inv: "sys_inv W key S s" and l: "worker_load e i (sy_store s) = (r, st)"
  shows "sys_inv W key S (s\<lparr>sy_store := st, sy_pc := pc_after_load i r\<rparr>)"
proof -
  obtain u tbl where u: "update_processing_result (wk_begin e) i [StagedA, ProcessingA] None ProcessingA None (st_reps (sy_store s)) = (u, tbl)"
    by (cases "update_processing_result (wk_begin e) i [StagedA, ProcessingA] None ProcessingA None (st_reps (sy_store s))")
  let ?s1 = "s\<lparr>sy_store := (sy_store s)\<lparr>st_reps := tbl\<rparr>\<rparr>"
  have inv1: "sys_inv W key S ?s1"
    by (rule sys_inv_update [OF inv u]) (simp_all add: update_sane_def)
  obtain v tbl2 where v: "update_processing_result (wk_revert e) i [ProcessingA] None StagedA
      (Some ''cache/spool miss: bytes not available'') tbl = (v, tbl2)"
    by (cases "update_processing_result (wk_revert e) i [ProcessingA] None StagedA
      (Some ''cache/spool miss: bytes not available'') tbl")
  have inv2: "sys_inv W key S (s\<lparr>sy_store := (sy_store s)\<lparr>st_reps := tbl2\<rparr>\<rparr>)"
    using sys_inv_update [OF inv1, of "wk_revert e" i "[ProcessingA]" StagedA _ v tbl2] v by (simp add: update_sane_def)
  have bytes: "x \<in> S \<and> (i \<notin> sy_refused s \<longrightarrow> sy_orig s i = Some x)"
    if "cache_get i (st_cache (sy_store s)) = Some x \<or> spool_read f i (st_spool (sy_store s)) = Inr (Some x)" for x f
    using that
  proof
    assume "cache_get i (st_cache (sy_store s)) = Some x"
    then have "sy_orig s i = Some x" using inv unfolding sys_inv_def cached_inv_def by blast
    then show ?thesis using inv ranI [of "sy_orig s" i x] unfolding sys_inv_def by blast
  next
    assume "spool_read f i (st_spool (sy_store s)) = Inr (Some x)"
    then obtain g where "sl_files (st_spool (sy_store s)) i = Some g" "f_bytes g = x"
      by (auto simp: spool_read_def split: if_splits)
    then show ?thesis using inv unfolding sys_inv_def files_inv_def by blast
  qed
  have keep: "sys_inv W key S (s\<lparr>sy_store := st', sy_pc := p\<rparr>)"
    if "sys_inv W key S (s\<lparr>sy_store := st'\<rparr>)" and "pc_inv W key S (s\<lparr>sy_store := st'\<rparr>) p" for st' p
    using sys_inv_pc [OF that] by simp
  consider "st = (sy_store s)\<lparr>st_reps := tbl\<rparr>" and "\<forall>x. r \<noteq> Inr (Loaded x)"
    | x where "st = (sy_store s)\<lparr>st_reps := tbl\<rparr>" and "r = Inr (Loaded x)"
        and "cache_get i (st_cache (sy_store s)) = Some x \<or> spool_read (wk_read_fails e) i (st_spool (sy_store s)) = Inr (Some x)"
    | "st = (sy_store s)\<lparr>st_reps := tbl2\<rparr>" and "r = Inr MissingBytes"
    using l by (auto simp: worker_load_def u v Let_def split: sum.splits update_outcome.splits option.splits)
  then show ?thesis
  proof cases
    case 1
    have "pc_after_load i r = WAttempt i \<or> pc_after_load i r = WDone i"
      using 1(2) by (cases "(i, r)" rule: pc_after_load.cases) auto
    then show ?thesis using keep [of "(sy_store s)\<lparr>st_reps := tbl\<rparr>" "pc_after_load i r"] inv1 1(1) by auto
  next
    case (2 x)
    then show ?thesis using keep inv1 bytes by simp
  next
    case 3
    then show ?thesis using keep inv2 by simp
  qed
qed

lemma store_kept:
  assumes inv: "sys_inv W key S s" and pc: "sy_pc s = WLoaded i x"
    and env: "worker_env_ok W key S (st_blobs (sy_store s)) e"
    and w: "worker_store W e i x (sy_store s) = (r, st)"
  shows "sys_inv W key S (s\<lparr>sy_store := st, sy_pc := pc_after_store i r\<rparr>)"
proof (cases "get_representation_by_id (wk_meta_fails e) i (st_reps (sy_store s))")
  case (Inl err)
  then show ?thesis using sys_inv_pc [OF inv] w by (auto simp: worker_store_def)
next
  case (Inr meta)
  obtain y png where y: "(if should_convert_to_png (Option.bind meta p_mime) then
      (case wp_png W x of Some png \<Rightarrow> (png, True) | None \<Rightarrow> (x, False)) else (x, False)) = (y, png)"
    by (cases "if should_convert_to_png (Option.bind meta p_mime) then
      (case wp_png W x of Some png \<Rightarrow> (png, True) | None \<Rightarrow> (x, False)) else (x, False)")
  have as: "stored_as W x y" using y by (auto simp: stored_as_def split: if_splits option.splits)
  have x: "x \<in> S" "i \<notin> sy_refused s \<longrightarrow> sy_orig s i = Some x"
    using inv pc by (auto simp: sys_inv_def)
  have c: "contents_ok W S" and binv: "blob_inv (wp_blob W) (wp_hash W) key S (st_blobs (sy_store s))"
    using inv by (auto simp: sys_inv_def)
  have y_in: "y \<in> S" using as x(1) c unfolding stored_as_def contents_ok_def by blast
  obtain q d where q: "write_if_absent (wp_blob W) (wk_blob e) (wp_hash W y) y (st_blobs (sy_store s)) = (q, d)"
    by (cases "write_if_absent (wp_blob W) (wk_blob e) (wp_hash W y) y (st_blobs (sy_store s))")
  have b: "blob_inv (wp_blob W) (wp_hash W) key S d" "blobs_kept (st_blobs (sy_store s)) d"
      "\<forall>k. q = Inr k \<longrightarrow> vouched W key d k y"
    using blob_write [OF c binv _ y_in q] env by (auto simp: worker_env_ok_def)
  have inv1: "sys_inv W key S (s\<lparr>sy_store := (sy_store s)\<lparr>st_blobs := d\<rparr>\<rparr>)"
    by (rule sys_inv_blobs [OF inv b(2,1)])
  have mime: "rows_inv W key (t\<lparr>sy_store := (sy_store t)\<lparr>st_reps := snd (update_mime_type f i m (st_reps (sy_store t)))\<rparr>\<rparr>)"
    if "rows_inv W key t" for f m t
    using that by (auto simp: rows_inv_def row_kept_def update_mime_type_def split: option.splits if_splits)
  have inv2: "sys_inv W key S (s\<lparr>sy_store := (sy_store s)\<lparr>st_blobs := d,
      st_reps := snd (update_mime_type f i m (st_reps (sy_store s)))\<rparr>\<rparr>)" for f m
    using sys_inv_rows [OF inv1, of "snd (update_mime_type f i m (st_reps (sy_store s)))"]
      mime [of "s\<lparr>sy_store := (sy_store s)\<lparr>st_blobs := d\<rparr>\<rparr>" f m] inv1 by (simp add: sys_inv_def)
  show ?thesis
  proof (cases q)
    case (Inl err)
    then have "st = (sy_store s)\<lparr>st_blobs := d\<rparr>" "pc_after_store i r = WAttempt i"
      using w Inr y q by (auto simp: worker_store_def Let_def)
    then show ?thesis using sys_inv_pc [OF inv1, of "WAttempt i"] by simp
  next
    case k: (Inr k)
    then have "st = (if png then (sy_store s)\<lparr>st_blobs := d,
          st_reps := snd (update_mime_type (wk_mime_fails e) i ''image/png'' (st_reps (sy_store s)))\<rparr>
        else (sy_store s)\<lparr>st_blobs := d\<rparr>)"
      and p: "pc_after_store i r = WStored i k y"
      using w Inr y q by (simp_all add: worker_store_def Let_def) auto
    then have st: "st = (sy_store s)\<lparr>st_blobs := d\<rparr> \<or>
        (\<exists>f m. st = (sy_store s)\<lparr>st_blobs := d, st_reps := snd (update_mime_type f i m (st_reps (sy_store s)))\<rparr>)"
      by auto
    have blobs: "st_blobs st = d" using st by auto
    have "sys_inv W key S (s\<lparr>sy_store := st\<rparr>)" using st inv1 inv2 by auto
    moreover have "pc_inv W key S (s\<lparr>sy_store := st\<rparr>) (WStored i k y)"
      using y_in b(3) k x(2) as blobs by auto
    ultimately show ?thesis using sys_inv_pc p by fastforce
  qed
qed

lemma thumbnail_kept:
  assumes inv: "sys_inv W key S s" and env: "blob_env_ok W key S (st_blobs (sy_store s)) (wk_thumb_blob e)" and x: "x \<in> S"
  shows "sys_inv W key S (s\<lparr>sy_store := generate_thumbnail W e i x (sy_store s)\<rparr>)"
proof -
  have c: "contents_ok W S" and binv: "blob_inv (wp_blob W) (wp_hash W) key S (st_blobs (sy_store s))"
    using inv by (auto simp: sys_inv_def)
  show ?thesis
  proof (cases "wp_thumb W x")
    case None
    then have "generate_thumbnail W e i x (sy_store s) = sy_store s"
      by (simp add: generate_thumbnail_def split: sum.split option.split)
    then show ?thesis using inv by simp
  next
    case (Some t)
    obtain q d where q: "write_if_absent (wp_blob W) (wk_thumb_blob e) (wp_hash W t) t (st_blobs (sy_store s)) = (q, d)"
      by (cases "write_if_absent (wp_blob W) (wk_thumb_blob e) (wp_hash W t) t (st_blobs (sy_store s))")
    have "t \<in> S" using c x Some unfolding contents_ok_def by blast
    then have "blob_inv (wp_blob W) (wp_hash W) key S d" "blobs_kept (st_blobs (sy_store s)) d"
      using blob_write [OF c binv env _ q] by auto
    then have inv1: "sys_inv W key S (s\<lparr>sy_store := (sy_store s)\<lparr>st_blobs := d\<rparr>\<rparr>)"
      using sys_inv_blobs [OF inv] by blast
    then have inv2: "sys_inv W key S (s\<lparr>sy_store := (sy_store s)\<lparr>st_blobs := d, st_thumbs := th\<rparr>\<rparr>)" for th
      using sys_inv_chan_thumbs(2) [OF inv1, of th] by simp
    have "generate_thumbnail W e i x (sy_store s) = sy_store s \<or>
        generate_thumbnail W e i x (sy_store s) = (sy_store s)\<lparr>st_blobs := d\<rparr> \<or>
        (\<exists>th. generate_thumbnail W e i x (sy_store s) = (sy_store s)\<lparr>st_blobs := d, st_thumbs := th\<rparr>)"
      by (simp add: generate_thumbnail_def Some q split: sum.split option.split) blast
    then show ?thesis using inv inv1 inv2 by auto
  qed
qed

lemma finish_kept:
  assumes inv: "sys_inv W key S s" and pc: "sy_pc s = WStored i k x"
    and env: "worker_env_ok W key S (st_blobs (sy_store s)) e"
    and w: "worker_finish W e i k x (sy_store s) = (r, st)"
  shows "sys_inv W key S (s\<lparr>sy_store := st, sy_pc := pc_after_finish i r\<rparr>)"
proof -
  obtain u tbl where u: "update_processing_result (wk_finish e) i [ProcessingA] (Some k) BlobReadyA None (st_reps (sy_store s)) = (u, tbl)"
    by (cases "update_processing_result (wk_finish e) i [ProcessingA] (Some k) BlobReadyA None (st_reps (sy_store s))")
  let ?s1 = "s\<lparr>sy_store := (sy_store s)\<lparr>st_reps := tbl\<rparr>\<rparr>"
  have pcx: "x \<in> S" "vouched W key (st_blobs (sy_store s)) k x"
      "i \<notin> sy_refused s \<longrightarrow> (\<exists>b. sy_orig s i = Some b \<and> stored_as W b x)" and rows: "rows_inv W key s"
    using inv pc by (auto simp: sys_inv_def)
  have inv1: "sys_inv W key S ?s1"
    by (rule sys_inv_rows [OF inv], rule rows_inv_table [OF rows u]) (use pcx in \<open>auto intro: row_safe_ready simp: update_sane_def\<close>)
  let ?sp = "snd (spool_delete (wk_delete_fails e) i (st_spool (sy_store s)))"
  have finish: "sys_inv W key S (s\<lparr>sy_store := generate_thumbnail W e i x ((sy_store s)\<lparr>st_reps := tbl, st_spool := ?sp\<rparr>)\<rparr>)"
    if up: "u = Inr (Updated p)" for p
  proof -
    from u have "st_reps (sy_store ?s1) i = Some row \<longrightarrow> rr_state row \<notin> avail_str ` {StagedA, ProcessingA}" for row
      by (cases rule: update_processing_result_cases) (use up in auto)
    moreover have "sl_files ?sp = sl_files (st_spool (sy_store ?s1)) \<or> sl_files ?sp = (sl_files (st_spool (sy_store ?s1)))(i := None)"
      by (simp add: spool_delete_def Let_def unregister_fields)
    ultimately have "sys_inv W key S (?s1\<lparr>sy_store := (sy_store ?s1)\<lparr>st_spool := ?sp\<rparr>\<rparr>)"
      by (intro sys_inv_spool [OF inv1]) blast
    from thumbnail_kept [OF this _ pcx(1)] show ?thesis using env by (simp add: worker_env_ok_def)
  qed
  have keep: "sys_inv W key S (s\<lparr>sy_store := st', sy_pc := pc_after_finish i r\<rparr>)"
    if "sys_inv W key S (s\<lparr>sy_store := st'\<rparr>)" for st'
    using sys_inv_pc [OF that, of "pc_after_finish i r"] by (cases r) auto
  show ?thesis
  proof (cases u)
    case (Inl err)
    then have "st = (sy_store s)\<lparr>st_reps := tbl\<rparr>" using w u by (simp add: worker_finish_def)
    then show ?thesis using keep inv1 by simp
  next
    case (Inr o1)
    then have "sys_inv W key S (s\<lparr>sy_store := st\<rparr>)"
      using w u inv1 finish by (cases o1) (auto simp: worker_finish_def)
    then show ?thesis by (rule keep)
  qed
qed

text \<open>The other tasks.\<close>

lemma mark_failed_kept: "sys_inv W key S s \<Longrightarrow> sys_inv W key S (s\<lparr>sy_store := mark_failed e i err (sy_store s)\<rparr>)"
  unfolding mark_failed_def by (rule sys_inv_update [OF _ surjective_pairing]) (auto simp: update_sane_def)

lemma demote_kept: "sys_inv W key S s \<Longrightarrow> sys_inv W key S (s\<lparr>sy_store := demote_orphaned_to_lost f i (sy_store s)\<rparr>)"
  unfolding demote_orphaned_to_lost_def by (rule sys_inv_update [OF _ surjective_pairing]) (auto simp: update_sane_def)

lemma requeue_kept: "sys_inv W key S s \<Longrightarrow> sys_inv W key S (s\<lparr>sy_store := requeue i (sy_store s)\<rparr>)"
  unfolding requeue_def by (rule sys_inv_chan_thumbs)

lemma resolve_store: "snd (resolve f p st) = st \<or> snd (resolve f p st) = requeue (p_id p) st"
  by (auto simp: resolve_def resolve_staged_def split: availability.split option.split sum.split)

lemma resolve_kept: "sys_inv W key S s \<Longrightarrow> sys_inv W key S (s\<lparr>sy_store := snd (resolve f p (sy_store s))\<rparr>)"
  using resolve_store [of f p "sy_store s"] requeue_kept [of W key S s "p_id p"] by auto

lemma remove_kept:
  assumes "sys_inv W key S s" and "\<forall>row. st_reps (sy_store s) i = Some row \<longrightarrow> rr_state row \<notin> avail_str ` {StagedA, ProcessingA}"
  shows "sys_inv W key S (s\<lparr>sy_store := remove_spool_file io i (sy_store s)\<rparr>)"
  using sys_inv_spool [OF assms(1), of "(st_spool (sy_store s))\<lparr>sl_files := (sl_files (st_spool (sy_store s)))(i := None)\<rparr>" i] assms
  by (simp add: remove_spool_file_def)

lemma scan_kept:
  "sys_inv W key S s \<Longrightarrow> sys_inv W key S (s\<lparr>sy_store := snd (scan_entries io db names n (sy_store s))\<rparr>)"
proof (induction names arbitrary: n s)
  case (Cons name names)
  have more: "sys_inv W key S (s\<lparr>sy_store := snd (scan_entries io db names m st')\<rparr>)"
    if "sys_inv W key S (s\<lparr>sy_store := st'\<rparr>)" for m st'
    using Cons.IH [OF that, of m] by simp
  show ?case
  proof (cases "\<not> utf8_valid (str_bytes name) \<or> name = []")
    case True
    then show ?thesis using more [of "sy_store s"] Cons.prems by (simp add: disj_commute)
  next
    case False
    show ?thesis
    proof (cases "get_representation_by_id (db name) name (st_reps (sy_store s))")
      case (Inl err)
      then show ?thesis using False Cons.prems by simp
    next
      case (Inr found)
      have gone: "sys_inv W key S (s\<lparr>sy_store := remove_spool_file (io name) name (sy_store s)\<rparr>)"
        if "\<And>rep. found = Some rep \<Longrightarrow> p_state rep \<notin> {StagedA, ProcessingA}"
      proof (rule remove_kept [OF Cons.prems], intro allI impI)
        fix row assume row: "st_reps (sy_store s) name = Some row"
        then obtain rep where rep: "found = Some rep" "to_domain name row = Inr rep"
          using Inr by (auto simp: get_representation_by_id_def split: if_splits sum.splits)
        then have "avail_str (p_state rep) = rr_state row" using to_domain_row by blast
        then show "rr_state row \<notin> avail_str ` {StagedA, ProcessingA}"
          using that [OF rep(1)] by (cases "p_state rep") auto
      qed
      have chan: "sys_inv W key S (s\<lparr>sy_store := (sy_store s)\<lparr>st_chan := c\<rparr>\<rparr>)" for c
        by (rule sys_inv_chan_thumbs [OF Cons.prems])
      show ?thesis
      proof (cases found)
        case None
        then show ?thesis using Inr False gone more by simp
      next
        case (Some rep)
        show ?thesis
        proof (cases "p_state rep = StagedA \<or> p_state rep = ProcessingA")
          case True
          obtain sent c where "try_send name (st_chan (sy_store s)) = (sent, c)"
            by (cases "try_send name (st_chan (sy_store s))")
          then show ?thesis using True Some Inr False more [OF chan] by (cases sent) auto
        next
          case unstaged: False
          then show ?thesis using Some Inr False gone more by simp
        qed
      qed
    qed
  qed
qed simp

lemma reconcile_kept: "sys_inv W key S s \<Longrightarrow> sys_inv W key S (s\<lparr>sy_store := snd (reconcile_one stat f i (sy_store s))\<rparr>)"
proof -
  assume inv: "sys_inv W key S s"
  obtain r tbl where u: "update_processing_result f i [StagedA, ProcessingA] None LostA
      (Some ''orphaned at startup: spool file missing'') (st_reps (sy_store s)) = (r, tbl)"
    by (cases "update_processing_result f i [StagedA, ProcessingA] None LostA
      (Some ''orphaned at startup: spool file missing'') (st_reps (sy_store s))")
  have "snd (reconcile_one stat f i (sy_store s)) \<in> {sy_store s, (sy_store s)\<lparr>st_reps := tbl\<rparr>}"
    by (auto simp: reconcile_one_def u split: sum.split bool.split update_outcome.split)
  then show ?thesis using inv sys_inv_update [OF inv u] by (auto simp: update_sane_def)
qed

lemma janitor_kept: "sys_inv W key S s \<Longrightarrow> sys_inv W key S (s\<lparr>sy_store := snd (janitor_one io f i (sy_store s))\<rparr>)"
proof -
  assume inv: "sys_inv W key S s"
  obtain r tbl where u: "update_processing_result f i [StagedA, ProcessingA] None LostA (Some ''spool ttl expired'')
      (st_reps (sy_store s)) = (r, tbl)"
    by (cases "update_processing_result f i [StagedA, ProcessingA] None LostA (Some ''spool ttl expired'')
      (st_reps (sy_store s))")
  let ?s1 = "s\<lparr>sy_store := (sy_store s)\<lparr>st_reps := tbl\<rparr>\<rparr>"
  have inv1: "sys_inv W key S ?s1"
    by (rule sys_inv_update [OF inv u]) (simp_all add: update_sane_def)
  have gone: "\<forall>row. st_reps (sy_store ?s1) i = Some row \<longrightarrow> rr_state row \<notin> avail_str ` {StagedA, ProcessingA}"
    if "r = Inr NotFound \<or> (\<exists>p. r = Inr (Updated p))"
    using u by (cases rule: update_processing_result_cases) (use that in auto)
  have "snd (janitor_one io f i (sy_store s)) =
      (if r = Inr NotFound \<or> (\<exists>p. r = Inr (Updated p)) then remove_spool_file io i (sy_store ?s1) else sy_store ?s1)"
    by (auto simp: janitor_one_def u Let_def split: sum.split update_outcome.split)
  then show ?thesis using inv1 remove_kept [OF inv1 gone] by simp
qed

text \<open>Captures.\<close>

lemma insert_kept:
  assumes inv: "sys_inv W key S s" and ins: "insert_reps db_error event (map fst pbs) (st_reps (sy_store s)) = (Inr (), tbl)"
    and pbs: "\<forall>(p, b) \<in> set pbs. b \<in> S \<and> rep_captures W key (st_blobs (sy_store s)) p b \<and> sy_orig s (p_id p) = None"
  shows "sys_inv W key S (s\<lparr>sy_store := (sy_store s)\<lparr>st_reps := tbl\<rparr>,
    sy_orig := sy_orig s ++ map_of (map (\<lambda>(p, b). (p_id p, b)) pbs)\<rparr>)"
proof -
  let ?new = "map_of (map (\<lambda>(p, b). (p_id p, b)) pbs)"
  have new: "b \<in> S \<and> (\<exists>p. (p, b) \<in> set pbs \<and> p_id p = i) \<and> sy_orig s i = None" if "?new i = Some b" for i b
  proof -
    from map_of_SomeD [OF that] obtain p where p: "(p, b) \<in> set pbs" "p_id p = i" by auto
    with pbs show ?thesis by auto
  qed
  have ext: "(sy_orig s ++ ?new) i = Some b" if "sy_orig s i = Some b" for i b
    using that new [of i] by (cases "?new i") (auto simp: map_add_def)
  have le: "sy_orig s \<subseteq>\<^sub>m sy_orig s ++ ?new"
    using ext by (fastforce simp: map_le_def dom_def)
  have d: "distinct (map p_id (map fst pbs))" and tbl: "tbl = st_reps (sy_store s) ++ map_of (map (\<lambda>p. (p_id p, to_row event p)) (map fst pbs))"
    using ins by (auto simp: insert_reps_def split: if_splits)
  let ?s' = "s\<lparr>sy_store := (sy_store s)\<lparr>st_reps := tbl\<rparr>, sy_orig := sy_orig s ++ ?new\<rparr>"
  have safe: "row_kept W key ?s' i row" if row: "tbl i = Some row" for i row
  proof (cases "map_of (map (\<lambda>p. (p_id p, to_row event p)) (map fst pbs)) i")
    case None
    then have "st_reps (sy_store s) i = Some row" using row tbl by (simp add: map_add_def)
    then have "row_kept W key s i row" using inv unfolding sys_inv_def rows_inv_def by blast
    then show ?thesis using ext by (auto simp: row_kept_def)
  next
    case (Some row')
    then have row': "row' = row" using row tbl by simp
    from map_of_SomeD [OF Some] obtain p b where p: "(p, b) \<in> set pbs" "p_id p = i" "row = to_row event p"
      using row' by auto
    have "distinct (map fst (map (\<lambda>(p, b). (p_id p, b)) pbs))"
      using d by (simp add: case_prod_unfold comp_def)
    then have b: "?new i = Some b" using p by (intro map_of_is_SomeI) force+
    then have none: "sy_orig s i = None" and cap: "rep_captures W key (st_blobs (sy_store s)) p b"
      using new [of i b] pbs p by auto
    have "i \<notin> sy_spooled s"
      using inv none unfolding sys_inv_def by blast
    then have "row_safe W key (st_blobs (sy_store s)) (sl_files (st_spool (sy_store s))) (sy_spooled s) i b row"
      using cap p(3) by (auto simp: rep_captures_def row_safe_def to_row_def stored_as_def)
    moreover have "readable i row" using cap p readable_to_row by (auto simp: rep_captures_def)
    ultimately show ?thesis using b by (simp add: map_add_def row_kept_def)
  qed
  have "rows_inv W key ?s'" using safe by (simp add: rows_inv_def)
  moreover have "files_inv S ?s'" using inv ext unfolding sys_inv_def files_inv_def by simp
  moreover have "cached_inv ?s'" using inv ext unfolding sys_inv_def cached_inv_def by simp
  moreover have "pc_inv W key S ?s' (sy_pc s)"
    by (rule pc_inv_mono [of _ _ _ s]) (use inv le in \<open>auto simp: sys_inv_def\<close>)
  moreover have "ran (sy_orig ?s') \<subseteq> S"
    using inv new unfolding sys_inv_def ran_def map_add_def by (auto split: option.splits)
  moreover have "sy_spooled s \<union> sy_refused s \<subseteq> dom (sy_orig ?s')"
    using inv unfolding sys_inv_def by auto
  ultimately show ?thesis using inv by (simp add: sys_inv_def)
qed

lemma evict_loop_files: "sl_files (snd (evict_loop k running s victims)) = sl_files s"
proof (induction k running s victims rule: evict_loop.induct)
  case (1 k running s victims)
  show ?case
  proof (cases "sl_max s < running")
    case over: True
    show ?thesis
    proof (cases "pop_oldest_except (Some k) s")
      case None
      then show ?thesis using over by (simp add: evict_loop.simps)
    next
      case (Some r)
      obtain v sz s' where r: "r = ((v, sz), s')" by (metis prod.exhaust)
      have "sl_files s' = sl_files s"
        by (rule pop_oldest_except_SomeD [OF Some [unfolded r]]) simp
      then show ?thesis
        using over Some r 1 [OF over Some [unfolded r] refl refl] by (simp add: evict_loop.simps [of k running])
    qed
  qed (simp add: evict_loop.simps)
qed

text \<open>A write that evicts nothing touches the file of its own entry only.\<close>

lemma enqueue_files:
  assumes "fst (plan_eviction k (length b) s) = []" and "enqueue e k b (s, c) = (res, s', c')"
  shows "(\<exists>u f. res = Inr u \<and> f_bytes f = b \<and> sl_files s' = (sl_files s)(k \<mapsto> f)) \<or>
    (\<exists>err. res = Inl err \<and> (sl_files s' = sl_files s \<or> (\<exists>left. se_write e = WriteFails left \<and> sl_files s' = (sl_files s)(k := left)) \<or>
       (\<exists>f. f_bytes f = b \<and> sl_files s' = (sl_files s)(k \<mapsto> f))))"
proof -
  obtain s1 where p: "plan_eviction k (length b) s = ([], s1)"
    using assms(1) by (cases "plan_eviction k (length b) s") auto
  have s1: "sl_files s1 = sl_files s"
    using p evict_loop_files [of k "min usize_max (sl_total s - (case map_of (sl_entries s) k of Some n \<Rightarrow> n | None \<Rightarrow> 0) + length b)" s "[]"]
    by (simp add: plan_eviction_def Let_def split: if_splits)
  have none: "remove_files keeps [] m = m" for keeps m
    by (simp add: remove_files_def restrict_map_def)
  have ex: "\<exists>f. f_bytes f = b \<and> m(k \<mapsto> \<lparr>f_bytes = b, f_mtime = t\<rparr>) = m(k \<mapsto> f)" for m :: "string \<rightharpoonup> spool_file" and t
    by (rule exI [of _ "\<lparr>f_bytes = b, f_mtime = t\<rparr>"]) simp
  show ?thesis
  proof (cases "sl_max s < length b")
    case True
    then show ?thesis using assms(2) by (auto simp: enqueue_def spool_write_def)
  next
    case False
    then show ?thesis
      using assms(2) p s1
      by (cases "se_write e") (auto simp: enqueue_def spool_write_def Let_def none register_unregister unregister_fields ex)
  qed
qed

lemma spool_kept:
  assumes inv: "sys_inv W key S s" and b: "sy_orig s i = Some b" and new: "i \<notin> sy_spooled s \<union> sy_refused s"
    and left: "leftover_in S e" and fits: "fst (plan_eviction i (length b) (st_spool (sy_store s))) = []"
    and q: "enqueue e i b (st_spool (sy_store s), st_chan (sy_store s)) = (res, sp, ch)"
  shows "sys_inv W key S (s\<lparr>sy_store := (sy_store s)\<lparr>st_spool := sp, st_chan := ch\<rparr>,
      sy_spooled := (if isl res then sy_spooled s else insert i (sy_spooled s)),
      sy_refused := (if isl res then insert i (sy_refused s) else sy_refused s)\<rparr>)"
proof -
  let ?s' = "s\<lparr>sy_store := (sy_store s)\<lparr>st_spool := sp, st_chan := ch\<rparr>,
      sy_spooled := (if isl res then sy_spooled s else insert i (sy_spooled s)),
      sy_refused := (if isl res then insert i (sy_refused s) else sy_refused s)\<rparr>"
  have bS: "b \<in> S" using inv b unfolding sys_inv_def ran_def by blast
  have others: "sl_files sp j = sl_files (st_spool (sy_store s)) j" if "j \<noteq> i" for j
    using enqueue_files [OF fits q] that by auto
  have own: "f_bytes f \<in> S \<and> (\<not> isl res \<longrightarrow> f_bytes f = b)" if "sl_files sp i = Some f" for f
  proof -
    have "sl_files (st_spool (sy_store s)) i = None"
      using inv new by (cases "sl_files (st_spool (sy_store s)) i") (auto simp: sys_inv_def files_inv_def)
    then show ?thesis
      using enqueue_files [OF fits q] that left bS by (auto simp: leftover_in_def)
  qed
  have wrote: "\<exists>f. sl_files sp i = Some f \<and> f_bytes f = b" if "\<not> isl res"
    using enqueue_files [OF fits q] that by auto
  have "row_kept W key ?s' j row" if "st_reps (sy_store s) j = Some row" for j row
  proof -
    have "row_kept W key s j row" using inv that unfolding sys_inv_def rows_inv_def by blast
    then obtain x where x: "sy_orig s j = Some x" "j \<notin> sy_refused s \<longrightarrow> row_safe W key (st_blobs (sy_store s))
        (sl_files (st_spool (sy_store s))) (sy_spooled s) j x row" and "readable j row"
      unfolding row_kept_def by blast
    have "row_safe W key (st_blobs (sy_store s)) (sl_files sp) (sy_spooled ?s') j x row" if "j \<notin> sy_refused ?s'"
    proof (cases "j = i")
      case True
      then have "\<not> isl res" "x = b" "j \<notin> sy_refused s" using that x(1) b new by auto
      then show ?thesis using x(2) wrote True unfolding row_safe_def by simp
    next
      case False
      then show ?thesis using x(2) that others [OF False] unfolding row_safe_def by (auto split: if_splits)
    qed
    then show ?thesis using x(1) \<open>readable j row\<close> by (simp add: row_kept_def)
  qed
  then have "rows_inv W key ?s'" by (simp add: rows_inv_def)
  moreover have "files_inv S ?s'"
    unfolding files_inv_def
  proof (intro allI impI)
    fix j f assume f: "sl_files (st_spool (sy_store ?s')) j = Some f"
    show "f_bytes f \<in> S \<and> j \<in> sy_spooled ?s' \<union> sy_refused ?s' \<and> (j \<notin> sy_refused ?s' \<longrightarrow> sy_orig ?s' j = Some (f_bytes f))"
    proof (cases "j = i")
      case True
      then show ?thesis using own f b by simp
    next
      case False
      then show ?thesis using f others [OF False] inv unfolding sys_inv_def files_inv_def by simp
    qed
  qed
  moreover have "pc_inv W key S ?s' (sy_pc s)"
    by (rule pc_inv_mono [of _ _ _ s]) (use inv in \<open>auto simp: sys_inv_def\<close>)
  moreover have "cached_inv ?s'" using inv by (simp add: sys_inv_def cached_inv_def)
  ultimately show ?thesis using inv new b by (auto simp: sys_inv_def)
qed

lemma restart_kept:
  assumes "sys_inv W key S s"
  shows "sys_inv W key S (s\<lparr>sy_store := (sy_store s)\<lparr>st_cache := cache_new n m,
      st_spool := rebuild_state_from_dir listing mx (sl_files (st_spool (sy_store s))),
      st_chan := c\<rparr>, sy_pc := WIdle\<rparr>)"
proof -
  have register: "sl_files (register k sz sp) = sl_files sp" for k sz sp
    by (simp add: register_unregister unregister_fields)
  have fold: "sl_files (fold (\<lambda>(k, sz, _) s. register k sz s) es sp) = sl_files sp" for es :: "(string \<times> nat \<times> int) list" and sp
    by (induction es arbitrary: sp) (auto simp: register)
  have "sl_files (rebuild_state_from_dir listing mx (sl_files (st_spool (sy_store s)))) = sl_files (st_spool (sy_store s))"
    by (simp add: rebuild_state_from_dir_def Let_def fold)
  moreover have 1: "sys_inv W key S (s\<lparr>sy_store := (sy_store s)\<lparr>st_cache := cache_new n m\<rparr>\<rparr>)"
    by (rule sys_inv_cache [OF assms]) simp
  ultimately have 2: "sys_inv W key S (s\<lparr>sy_store := (sy_store s)\<lparr>st_cache := cache_new n m,
      st_spool := rebuild_state_from_dir listing mx (sl_files (st_spool (sy_store s)))\<rparr>\<rparr>)"
    using sys_inv_spool [OF 1, of "rebuild_state_from_dir listing mx (sl_files (st_spool (sy_store s)))"] by simp
  show ?thesis
    using sys_inv_pc [OF sys_inv_chan_thumbs(1) [OF 2, of c], of WIdle] by simp
qed

theorem payload_step_inv: "\<lbrakk>payload_step W key S s s'; sys_inv W key S s\<rbrakk> \<Longrightarrow> sys_inv W key S s'"
proof (induction rule: payload_step.induct)
  case (Insert db_error event pbs s tbl)
  then show ?case by (intro insert_kept)
next
  case (Delete s i)
  then show ?case by (intro sys_inv_rows) (auto simp: sys_inv_def rows_inv_def row_kept_def)
next
  case (Blobs s d)
  then show ?case by (intro sys_inv_blobs)
next
  case (Cache s i b)
  then show ?case
    by (intro sys_inv_cache) (auto simp: sys_inv_def cached_inv_def dest!: cache_put_values)
next
  case (Spool s i b e res sp ch)
  then show ?case by (intro spool_kept)
next
  case (Take s i rest)
  then show ?case
    using sys_inv_pc [OF sys_inv_chan_thumbs(1), of W key S s "(st_chan (sy_store s))\<lparr>ch_ids := rest\<rparr>" "WAttempt i"] by simp
next
  case (Load s i e r st)
  then show ?case by (intro load_kept)
next
  case (Store s i bytes e r st)
  then show ?case by (intro store_kept)
next
  case (Finish s i k bytes e r st)
  then show ?case by (intro finish_kept)
next
  case (GiveUp s i e err)
  then show ?case using sys_inv_pc [OF mark_failed_kept, of W key S s e i err "WDone i"] by simp
next
  case (Forget s i)
  then have "sys_inv W key S (s\<lparr>sy_store := (sy_store s)\<lparr>st_cache := cache_remove i (st_cache (sy_store s))\<rparr>\<rparr>)"
    by (intro sys_inv_cache) (auto simp: sys_inv_def cached_inv_def dest!: cache_remove_values)
  then show ?case using sys_inv_pc [of W key S _ WIdle] by fastforce
next
  case (Resolve s f p)
  then show ?case by (intro resolve_kept)
next
  case (Demote s fault i)
  then show ?case by (intro demote_kept)
next
  case (Scan s io db name n)
  then show ?case by (intro scan_kept)
next
  case (Reconcile s stat fault i)
  then show ?case by (intro reconcile_kept)
next
  case (Janitor s ioerr fault i)
  then show ?case by (intro janitor_kept)
next
  case (Restart s n m listing mx)
  then show ?case by (intro restart_kept)
qed

section \<open>Availability\<close>

definition sys_start :: "nat \<Rightarrow> nat \<Rightarrow> nat \<Rightarrow> nat \<Rightarrow> sys" where
  "sys_start cache_entries cache_bytes spool_bytes queue =
     \<lparr>sy_store = \<lparr>st_reps = Map.empty, st_spool = \<lparr>sl_files = Map.empty, sl_entries = [], sl_total = 0, sl_max = spool_bytes\<rparr>,
        st_cache = cache_new cache_entries cache_bytes, st_blobs = \<lparr>bd_files = Map.empty, bd_rows = []\<rparr>,
        st_chan = \<lparr>ch_ids = [], ch_cap = queue\<rparr>, st_thumbs = Map.empty\<rparr>,
      sy_pc = WIdle, sy_orig = Map.empty, sy_spooled = {}, sy_refused = {}\<rparr>"

lemma sys_start_inv: "contents_ok W S \<Longrightarrow> sys_inv W key S (sys_start a b c d)"
  by (simp add: sys_inv_def sys_start_def blob_inv_def rows_inv_def files_inv_def cached_inv_def)

interpretation payload: step_invariant "payload_step W key S" "sys_inv W key S" for W key S
  by unfold_locales (rule payload_step_inv)

definition payload_lost :: "availability \<Rightarrow> bool" where
  "payload_lost a \<longleftrightarrow> a = LostA \<or> (\<exists>e. a = FailedA e)"

lemma avail_cases:
  obtains "a = InlineA" | "a = BlobReadyA" | "a \<in> {StagedA, ProcessingA}" | "payload_lost a"
  by (cases a) (auto simp: payload_lost_def)

lemma sys_inv_available:
  assumes inv: "sys_inv W key S s" and orig: "sy_orig s i = Some b" and ok: "i \<notin> sy_refused s"
    and row: "get_representation_by_id False i (st_reps (sy_store s)) = Inr (Some p)"
    and live: "\<not> payload_lost (p_state p)" and staged: "p_state p \<in> {StagedA, ProcessingA} \<Longrightarrow> i \<in> sy_spooled s"
  shows "fst (resolve False p (sy_store s)) = Inr (ResolvedInline (mime_or_default p) b) \<or>
    (\<exists>k b'. fst (resolve False p (sy_store s)) = Inr (ResolvedBlob (mime_or_default p) k) \<and> stored_as W b b' \<and>
       encrypted_get (wp_blob W) (Some key) k (bd_files (st_blobs (sy_store s))) =
         (if length b' \<le> max_blob_size then Inr b' else Inl DecompressFails))"
proof -
  from row obtain r where r: "st_reps (sy_store s) i = Some r" "to_domain i r = Inr p"
    by (auto simp: get_representation_by_id_def split: option.splits sum.splits)
  have p: "p_id p = i" "avail_str (p_state p) = rr_state r" "p_inline p = rr_inline r" "p_blob p = rr_blob r"
    using to_domain_row [OF r(2)] by auto
  have "row_kept W key s i r" using inv r(1) unfolding sys_inv_def rows_inv_def by blast
  then have safe: "row_safe W key (st_blobs (sy_store s)) (sl_files (st_spool (sy_store s))) (sy_spooled s) i b r"
    using orig ok unfolding row_kept_def by auto
  show ?thesis
  proof (rule avail_cases [of "p_state p"])
    assume a: "p_state p = InlineA"
    then have "p_inline p = Some b" using safe p by (auto simp: row_safe_def)
    then show ?thesis using a by (simp add: resolve_def)
  next
    assume a: "p_state p = BlobReadyA"
    then obtain k b' where k: "p_blob p = Some k" "stored_as W b b'" "vouched W key (st_blobs (sy_store s)) k b'"
      using safe p by (auto simp: row_safe_def)
    from k(3) obtain nonce z ct where "bd_files (st_blobs (sy_store s)) k = Some (serialize_blob nonce ct)" "length nonce = 24"
      "bp_compress (wp_blob W) b' = Some z" "bp_seal (wp_blob W) key nonce z (blob_aad k) = Some ct"
      unfolding vouched_def blob_holds_def by blast
    moreover have "blob_sound (wp_blob W)" using inv by (simp add: sys_inv_def contents_ok_def)
    ultimately have "encrypted_get (wp_blob W) (Some key) k (bd_files (st_blobs (sy_store s))) =
        (if length b' \<le> max_blob_size then Inr b' else Inl DecompressFails)"
      by (simp add: encrypted_get_def fs_get_def parse_serialize blob_sound_def)
    then show ?thesis using a k by (auto simp: resolve_def)
  next
    assume a: "p_state p \<in> {StagedA, ProcessingA}"
    then have "rr_state r \<in> avail_str ` {StagedA, ProcessingA}" using p(2) [symmetric] by auto
    then obtain f where f: "sl_files (st_spool (sy_store s)) i = Some f" "f_bytes f = b"
      using safe staged [OF a] unfolding row_safe_def by blast
    have staged: "resolve False p (sy_store s) = resolve_staged False p (sy_store s)"
      using a by (auto simp: resolve_def)
    show ?thesis
    proof (cases "cache_get i (st_cache (sy_store s))")
      case None
      then show ?thesis using f p(1) by (simp add: staged resolve_staged_def spool_read_def)
    next
      case (Some x)
      then have "x = b" using inv orig unfolding sys_inv_def cached_inv_def by fastforce
      then show ?thesis using Some p(1) by (simp add: staged resolve_staged_def)
    qed
  next
    assume "payload_lost (p_state p)"
    then show ?thesis using live by simp
  qed
qed

text \<open>
  A worker that gives up leaves no representation waiting: the row says that it failed, unless the
  table cannot be written.
\<close>

lemma process_with_retry_error:
  assumes "process_with_retry W envs n k i st = (Inl err, st')"
  shows "\<exists>st0 st1. process_once W (envs (max n k)) i st0 = (Inl err, st1) \<and>
    st' = mark_failed (envs (max n k)) i (''worker failed: '' @ err) st1"
  using assms
proof (induction W envs n k i st rule: process_with_retry.induct)
  case (1 W envs n k i st)
  obtain r st1 where once: "process_once W (envs k) i st = (r, st1)"
    by (cases "process_once W (envs k) i st")
  show ?case
  proof (cases r)
    case (Inr u)
    then show ?thesis using 1(2) once by (simp add: process_with_retry.simps [of W envs n k])
  next
    case (Inl e)
    show ?thesis
    proof (cases "n \<le> k")
      case True
      then have "err = e" "st' = mark_failed (envs (max n k)) i (''worker failed: '' @ e) st1"
        using 1(2) once Inl by (auto simp: process_with_retry.simps [of W envs n k] max_absorb2)
      moreover have "process_once W (envs (max n k)) i st = (Inl e, st1)"
        using once Inl True by (simp add: max_absorb2)
      ultimately show ?thesis by metis
    next
      case False
      then have "process_with_retry W envs n (k + 1) i st1 = (Inl err, st')"
        using 1(2) once Inl by (simp add: process_with_retry.simps [of W envs n k])
      moreover have "max n (k + 1) = max n k" using False by simp
      ultimately show ?thesis
        using 1(1) [OF once [symmetric] Inl False] by metis
    qed
  qed
qed

lemma mark_failed_row:
  assumes "wk_failed e = DbOk" and "st_reps (mark_failed e i err st) i = Some row"
  shows "rr_state row \<notin> avail_str ` {StagedA, ProcessingA}"
  using assms
  by (auto simp: mark_failed_def update_processing_result_def Let_def split: option.splits if_splits sum.splits)

lemma process_with_retry_cong:
  assumes "\<And>m. \<lbrakk>k \<le> m; m \<le> max n k\<rbrakk> \<Longrightarrow> envs m = envs' m"
  shows "process_with_retry W envs n k i st = process_with_retry W envs' n k i st"
  using assms
proof (induction W envs n k i st rule: process_with_retry.induct)
  case (1 W envs n k i st)
  obtain r st1 where once: "process_once W (envs k) i st = (r, st1)"
    by (cases "process_once W (envs k) i st")
  have k: "envs k = envs' k" using 1(2) by simp
  show ?case
  proof (cases "n \<le> k")
    case True
    then show ?thesis
      using k once
      by (simp add: process_with_retry.simps [of W envs n k] process_with_retry.simps [of W envs' n k] split: sum.split)
  next
    case False
    have "process_with_retry W envs n (k + 1) i st1 = process_with_retry W envs' n (k + 1) i st1" if "r = Inl e" for e
      by (rule 1(1) [OF once [symmetric] that False]) (use 1(2) False in auto)
    then show ?thesis
      using once k
      by (simp add: process_with_retry.simps [of W envs n k] process_with_retry.simps [of W envs' n k] split: sum.split)
  qed
qed

end
