(* ===== verification/Payload_Demo.thy ===== *)
theory Payload_Demo
  imports Payload_Safety
begin

text \<open>
  A concrete run of the payload stores, at which the witnesses apply its properties: an image is
  captured, spooled, taken by the worker and stored as a blob.
\<close>

definition demo_blob_prims :: blob_prims where
  "demo_blob_prims =
     \<lparr>bp_compress = Some, bp_decompress = (\<lambda>z cap. if length z \<le> cap then Some z else None),
      bp_seal = (\<lambda>k n m a. Some m), bp_open = (\<lambda>k n c a. Some c)\<rparr>"

lemma demo_blob_sound: "blob_sound demo_blob_prims"
  by (simp add: blob_sound_def demo_blob_prims_def)

definition demo_worker :: worker_prims where
  "demo_worker = \<lparr>wp_blob = demo_blob_prims, wp_hash = (\<lambda>b. b), wp_png = (\<lambda>_. None), wp_thumb = (\<lambda>_. None)\<rparr>"

lemma demo_contents: "contents_ok demo_worker UNIV"
  by (simp add: contents_ok_def demo_worker_def demo_blob_sound)

definition demo_blob_env :: "string \<Rightarrow> blob_env" where
  "demo_blob_env i =
     \<lparr>be_session = Some [7], be_id = i, be_nonce = replicate 24 5, be_now = 0, be_find_fails = False,
      be_disk = None, be_between = (\<lambda>d. d), be_insert_fails = False, be_refind_fails = False,
      be_discard_fails = False\<rparr>"

definition demo_worker_env :: worker_env where
  "demo_worker_env =
     \<lparr>wk_begin = DbOk, wk_read_fails = False, wk_revert = DbOk, wk_meta_fails = False,
      wk_blob = demo_blob_env ''b1'', wk_mime_fails = False, wk_finish = DbOk, wk_delete_fails = False,
      wk_failed = DbOk, wk_thumb_meta_fails = False, wk_thumb_get_fails = False,
      wk_thumb_blob = demo_blob_env ''b2'', wk_thumb_insert_fails = False\<rparr>"

lemma demo_blob_quiet: "blob_quiet P h k S (demo_blob_env i)"
  by (simp add: blob_quiet_def blob_grows_def demo_blob_env_def)

definition demo_bytes :: "byte list" where "demo_bytes = [1, 2, 3]"

definition demo_spool_env :: spool_env where
  "demo_spool_env = \<lparr>se_keeps = (\<lambda>_. False), se_write = WriteOk, se_now = 0\<rparr>"

definition demo_persisted :: persisted where
  "demo_persisted = persisted_staged ''r'' ''image'' (Some ''image/png'') 3"

definition demo_row :: "string \<Rightarrow> string option \<Rightarrow> rep_row" where
  "demo_row state blob =
     \<lparr>rr_event = ''ev'', rr_format = ''image'', rr_mime = Some ''image/png'', rr_size = 3, rr_inline = None,
      rr_blob = blob, rr_state = state, rr_error = None\<rparr>"

text \<open>The states of the run: the row and the worker, the rest by what happened so far.\<close>

definition demo_sys :: "rep_table \<Rightarrow> spool \<Rightarrow> string list \<Rightarrow> blob_db \<Rightarrow> worker_pc \<Rightarrow> rep_id set \<Rightarrow> sys" where
  "demo_sys tbl sp ids d pc spooled =
     \<lparr>sy_store = \<lparr>st_reps = tbl, st_spool = sp, st_cache = cache_new 10 1000, st_blobs = d,
        st_chan = \<lparr>ch_ids = ids, ch_cap = 4\<rparr>, st_thumbs = Map.empty\<rparr>,
      sy_pc = pc, sy_orig = [''r'' \<mapsto> demo_bytes], sy_spooled = spooled, sy_refused = {}\<rparr>"

definition demo_spool :: "(string \<times> nat) list \<Rightarrow> (string \<rightharpoonup> spool_file) \<Rightarrow> spool" where
  "demo_spool es files = \<lparr>sl_files = files, sl_entries = es, sl_total = sum_list (map snd es), sl_max = 1000\<rparr>"

abbreviation demo_no_blobs :: blob_db where
  "demo_no_blobs \<equiv> \<lparr>bd_files = Map.empty, bd_rows = []\<rparr>"

definition demo_file :: spool_file where "demo_file = \<lparr>f_bytes = demo_bytes, f_mtime = 0\<rparr>"

definition demo_binary :: "byte list" where "demo_binary = serialize_blob (replicate 24 5) demo_bytes"

definition demo_blobs :: blob_db where
  "demo_blobs =
     \<lparr>bd_files = [''b1'' \<mapsto> demo_binary],
      bd_rows = [\<lparr>bl_id = ''b1'', bl_size = 3, bl_hash = demo_bytes, bl_created = 0, bl_stored = int (length demo_binary)\<rparr>]\<rparr>"

abbreviation "demo_s1 \<equiv> demo_sys [''r'' \<mapsto> demo_row ''Staged'' None] (demo_spool [] Map.empty) [] demo_no_blobs WIdle {}"
abbreviation "demo_s2 \<equiv> demo_sys [''r'' \<mapsto> demo_row ''Staged'' None] (demo_spool [(''r'', 3)] [''r'' \<mapsto> demo_file]) [''r''] demo_no_blobs WIdle {''r''}"
abbreviation "demo_s3 \<equiv> demo_sys [''r'' \<mapsto> demo_row ''Staged'' None] (demo_spool [(''r'', 3)] [''r'' \<mapsto> demo_file]) [] demo_no_blobs (WAttempt ''r'') {''r''}"
abbreviation "demo_s4 \<equiv> demo_sys [''r'' \<mapsto> demo_row ''Processing'' None] (demo_spool [(''r'', 3)] [''r'' \<mapsto> demo_file]) [] demo_no_blobs (WLoaded ''r'' demo_bytes) {''r''}"
abbreviation "demo_s5 \<equiv> demo_sys [''r'' \<mapsto> demo_row ''Processing'' None] (demo_spool [(''r'', 3)] [''r'' \<mapsto> demo_file]) [] demo_blobs (WStored ''r'' ''b1'' demo_bytes) {''r''}"
abbreviation "demo_s6 \<equiv> demo_sys [''r'' \<mapsto> demo_row ''BlobReady'' (Some ''b1'')] (demo_spool [] Map.empty) [] demo_blobs (WDone ''r'') {''r''}"

abbreviation "demo_payload_step \<equiv> payload_step demo_worker [7] UNIV"

lemma demo_step1: "demo_payload_step (sys_start 10 1000 1000 4) demo_s1"
proof -
  have "insert_reps False ''ev'' (map fst [(demo_persisted, demo_bytes)]) (st_reps (sy_store (sys_start 10 1000 1000 4))) =
      (Inr (), [''r'' \<mapsto> demo_row ''Staged'' None])"
    by (simp add: insert_reps_def sys_start_def demo_persisted_def persisted_staged_def to_row_def demo_row_def)
  from payload_step.Insert [OF this] show ?thesis
    by (simp add: rep_captures_def demo_persisted_def persisted_staged_def persisted_ok_def sys_start_def demo_sys_def
        demo_spool_def)
qed

lemma demo_step2: "demo_payload_step demo_s1 demo_s2"
proof -
  have orig: "sy_orig demo_s1 ''r'' = Some demo_bytes" by (simp add: demo_sys_def)
  have max: "min usize_max 3 = 3" "min usize_max (Suc (Suc (Suc 0))) = Suc (Suc (Suc 0))"
    by (simp_all add: usize_max_def)
  have fits: "fst (plan_eviction ''r'' (length demo_bytes) (st_spool (sy_store demo_s1))) = []"
    by (simp add: plan_eviction_def demo_sys_def demo_spool_def demo_bytes_def Let_def max)
  have q: "enqueue demo_spool_env ''r'' demo_bytes (st_spool (sy_store demo_s1), st_chan (sy_store demo_s1)) =
      (Inr (), demo_spool [(''r'', 3)] [''r'' \<mapsto> demo_file], \<lparr>ch_ids = [''r''], ch_cap = 4\<rparr>)"
    by (simp add: enqueue_def spool_write_def plan_eviction_def demo_spool_env_def demo_sys_def demo_spool_def Let_def
        demo_bytes_def demo_file_def register_def remove_files_def try_send_def max)
  from payload_step.Spool [OF orig _ _ fits q] show ?thesis
    by (simp add: demo_sys_def leftover_in_def demo_spool_env_def)
qed

lemma demo_step3: "demo_payload_step demo_s2 demo_s3"
proof -
  have "sy_pc demo_s2 = WIdle" "ch_ids (st_chan (sy_store demo_s2)) = ''r'' # []" by (simp_all add: demo_sys_def)
  from payload_step.Take [OF this] show ?thesis by (simp add: demo_sys_def)
qed

lemma demo_step4: "demo_payload_step demo_s3 demo_s4"
proof -
  have pc: "sy_pc demo_s3 = WAttempt ''r''" by (simp add: demo_sys_def)
  have "worker_load demo_worker_env ''r'' (sy_store demo_s3) = (Inr (Loaded demo_bytes), sy_store demo_s4)"
    by (simp add: worker_load_def demo_sys_def demo_worker_env_def update_processing_result_def demo_row_def Let_def
        to_domain_def parse_payload_state_def persisted_with_state_def spool_read_def demo_spool_def demo_file_def)
  from payload_step.Load [OF pc this] show ?thesis by (simp add: demo_sys_def)
qed

lemma demo_env_ok: "worker_env_ok demo_worker [7] UNIV demo_no_blobs demo_worker_env"
  by (simp add: worker_env_ok_def blob_env_ok_def demo_blob_quiet demo_worker_env_def) (simp add: demo_blob_env_def)

lemma demo_write:
  "write_if_absent demo_blob_prims (demo_blob_env ''b1'') demo_bytes demo_bytes demo_no_blobs = (Inr ''b1'', demo_blobs)"
  by (simp add: write_if_absent_def find_by_hash_def demo_blob_env_def encrypted_put_def demo_blob_prims_def fs_put_def
      Let_def insert_blob_def demo_blobs_def demo_binary_def demo_bytes_def)

lemma demo_step5: "demo_payload_step demo_s4 demo_s5"
proof -
  have pc: "sy_pc demo_s4 = WLoaded ''r'' demo_bytes" by (simp add: demo_sys_def)
  have env: "worker_env_ok demo_worker [7] UNIV (st_blobs (sy_store demo_s4)) demo_worker_env"
    using demo_env_ok by (simp add: demo_sys_def)
  have meta: "get_representation_by_id False ''r'' (st_reps (sy_store demo_s4)) =
      Inr (Some (demo_persisted\<lparr>p_state := ProcessingA\<rparr>))"
    by (simp add: get_representation_by_id_def demo_sys_def to_domain_def parse_payload_state_def persisted_with_state_def
        demo_row_def demo_persisted_def persisted_staged_def)
  have "worker_store demo_worker demo_worker_env ''r'' demo_bytes (sy_store demo_s4) =
      (Inr (''b1'', demo_bytes), sy_store demo_s5)"
    using meta demo_write
    by (simp add: worker_store_def demo_worker_env_def demo_worker_def demo_sys_def should_convert_to_png_def
        demo_persisted_def persisted_staged_def)
  from payload_step.Store [OF pc env this] show ?thesis by (simp add: demo_sys_def)
qed

lemma demo_step6: "demo_payload_step demo_s5 demo_s6"
proof -
  have pc: "sy_pc demo_s5 = WStored ''r'' ''b1'' demo_bytes" by (simp add: demo_sys_def)
  let ?e = "demo_worker_env\<lparr>wk_blob := demo_blob_env ''b3''\<rparr>"
  have env: "worker_env_ok demo_worker [7] UNIV (st_blobs (sy_store demo_s5)) ?e"
    by (simp add: worker_env_ok_def blob_env_ok_def demo_blob_quiet demo_worker_env_def demo_sys_def demo_blobs_def)
      (simp add: demo_blob_env_def)
  have "worker_finish demo_worker ?e ''r'' ''b1'' demo_bytes (sy_store demo_s5) = (Inr (), sy_store demo_s6)"
    by (simp add: worker_finish_def demo_worker_env_def demo_sys_def update_processing_result_def demo_row_def Let_def
        to_domain_def parse_payload_state_def persisted_with_state_def spool_delete_def unregister_def demo_spool_def
        generate_thumbnail_def get_representation_by_id_def starts_with_def demo_worker_def)
  from payload_step.Finish [OF pc env this] show ?thesis by (simp add: demo_sys_def)
qed

lemma demo_run: "demo_payload_step\<^sup>*\<^sup>* (sys_start 10 1000 1000 4) demo_s6"
  using demo_step1 demo_step2 demo_step3 demo_step4 demo_step5 demo_step6
  by (meson rtranclp.rtrancl_into_rtrancl rtranclp.rtrancl_refl)

lemma demo_found:
  "get_representation_by_id False ''r'' (st_reps (sy_store demo_s6)) =
     Inr (Some (demo_persisted\<lparr>p_state := BlobReadyA, p_blob := Some ''b1''\<rparr>))"
  by (simp add: get_representation_by_id_def demo_sys_def to_domain_def parse_payload_state_def persisted_with_state_def
      demo_row_def demo_persisted_def persisted_staged_def)

text \<open>A worker whose spool cannot be read.\<close>

definition demo_failing_env :: worker_env where
  "demo_failing_env = demo_worker_env\<lparr>wk_read_fails := True\<rparr>"

lemma demo_retry:
  "\<exists>st'. process_with_retry demo_worker (\<lambda>_. demo_failing_env) 2 1 ''r'' (sy_store demo_s3) = (Inl ''read'', st') \<and>
     map_option rr_state (st_reps st' ''r'') = Some ''Failed''"
proof -
  let ?st = "(sy_store demo_s3)\<lparr>st_reps := [''r'' \<mapsto> demo_row ''Processing'' None]\<rparr>"
  have once: "process_once demo_worker demo_failing_env ''r'' (sy_store demo_s3) = (Inl ''read'', ?st)"
    "process_once demo_worker demo_failing_env ''r'' ?st = (Inl ''read'', ?st)"
    by (simp_all add: process_once_def worker_load_def demo_sys_def demo_failing_env_def demo_worker_env_def
        update_processing_result_def demo_row_def Let_def to_domain_def parse_payload_state_def persisted_with_state_def
        spool_read_def)
  have "process_with_retry demo_worker (\<lambda>_. demo_failing_env) 2 1 ''r'' (sy_store demo_s3) =
      (Inl ''read'', mark_failed demo_failing_env ''r'' (''worker failed: '' @ ''read'') ?st)"
    by (simp add: process_with_retry.simps [of _ _ _ "Suc 0"] process_with_retry.simps [of _ _ _ "Suc (Suc 0)"] once del: append_Cons)
  moreover have "map_option rr_state (st_reps (mark_failed demo_failing_env ''r'' err ?st) ''r'') = Some ''Failed''" for err
    by (simp add: mark_failed_def update_processing_result_def demo_failing_env_def demo_worker_env_def demo_row_def
        Let_def to_domain_def parse_payload_state_def persisted_with_state_def)
  ultimately show ?thesis by blast
qed

end
