(* ===== verification/History.thy ===== *)
theory History
  imports Payload_Store Selection_Policy
begin

text \<open>
  The clipboard history: the tables of events, entries, selections and representations
  (\<^verbatim>\<open>uc-infra/db/repositories/clipboard_entry_repo.rs, clipboard_event_repo.rs,
  clipboard_selection_repo.rs, entry_replace_repo.rs\<close> and their row mappers), and the use cases that
  remove from it (\<^verbatim>\<open>uc-application/usecases/clipboard_history: delete_entry.rs,
  retention_policy.rs, clear_history.rs, cleanup.rs\<close>).

  A table is the list of its rows in the order of insertion, which is the order in which the
  database scans it; where the code asks for one row of several, it gets the first. The unique
  columns and the foreign keys of the schema are checked by the statements. Blob tags and the search
  index are told of a deletion, and what they answer has no effect on it.
\<close>

section \<open>Rows\<close>

record clip_event =
  ev_id :: string
  ev_captured :: int
  ev_source :: string
  ev_hash :: string

record clip_entry =
  ce_id :: string
  ce_event :: string
  ce_created :: int
  ce_active :: int
  ce_size :: int
  ce_category :: entry_category
  ce_tracked :: bool
  ce_favorite :: bool

definition entry_new :: "string \<Rightarrow> string \<Rightarrow> int \<Rightarrow> int \<Rightarrow> clip_entry" where
  "entry_new i event created total_size =
     \<lparr>ce_id = i, ce_event = event, ce_created = created, ce_active = created, ce_size = total_size,
      ce_category = EOtherC, ce_tracked = True, ce_favorite = False\<rparr>"

definition entry_new_with_active_time :: "string \<Rightarrow> string \<Rightarrow> int \<Rightarrow> int \<Rightarrow> int \<Rightarrow> clip_entry" where
  "entry_new_with_active_time i event created active total_size =
     \<lparr>ce_id = i, ce_event = event, ce_created = created, ce_active = active, ce_size = total_size,
      ce_category = EOtherC, ce_tracked = True, ce_favorite = False\<rparr>"

definition with_content_category :: "entry_category \<Rightarrow> clip_entry \<Rightarrow> clip_entry" where
  "with_content_category c e = e\<lparr>ce_category := c\<rparr>"

record clip_entry_row =
  er_id :: string
  er_event :: string
  er_created :: int
  er_active :: int
  er_size :: int
  er_pinned :: bool
  er_tracked :: bool
  er_favorite :: bool
  er_category :: string

definition entry_to_row :: "clip_entry \<Rightarrow> clip_entry_row" where
  "entry_to_row e =
     \<lparr>er_id = ce_id e, er_event = ce_event e, er_created = ce_created e, er_active = ce_active e,
      er_size = ce_size e, er_pinned = False, er_tracked = ce_tracked e, er_favorite = ce_favorite e,
      er_category = entry_cat_label (ce_category e)\<rparr>"

definition entry_to_domain :: "clip_entry_row \<Rightarrow> string + clip_entry" where
  "entry_to_domain r =
     (case entry_cat_from_db (er_category r) of
        None \<Rightarrow> Inl ''unknown content_category''
      | Some c \<Rightarrow>
          Inr (with_content_category c
            ((entry_new_with_active_time (er_id r) (er_event r) (er_created r) (er_active r) (er_size r))
              \<lparr>ce_tracked := er_tracked r, ce_favorite := er_favorite r\<rparr>)))"

lemma entry_row_roundtrip [simp]: "entry_to_domain (entry_to_row e) = Inr e"
  by (cases "ce_category e")
    (simp_all add: entry_to_row_def entry_to_domain_def entry_cat_from_db_def entry_new_with_active_time_def
      with_content_category_def)

text \<open>The selection; the secondary representations are one column, joined by commas.\<close>

record selection_row =
  sr_entry :: string
  sr_primary :: string
  sr_secondary :: string
  sr_preview :: string
  sr_paste :: string
  sr_version :: string

fun join_with :: "'a \<Rightarrow> 'a list list \<Rightarrow> 'a list" where
  "join_with c [] = []"
| "join_with c [s] = s"
| "join_with c (s # ss) = s @ c # join_with c ss"

definition selection_to_row :: "string \<Rightarrow> selection \<Rightarrow> selection_row" where
  "selection_to_row entry sel =
     \<lparr>sr_entry = entry, sr_primary = primary_rep_id sel,
      sr_secondary = join_with (CHR '','') (secondary_rep_ids sel),
      sr_preview = preview_rep_id sel, sr_paste = paste_rep_id sel, sr_version = ''v1''\<rparr>"

fun parse_tokens :: "string list \<Rightarrow> string + string list" where
  "parse_tokens [] = Inr []"
| "parse_tokens (s # ss) =
     (if trim s = [] then Inl ''empty token''
      else (case parse_tokens ss of Inl e \<Rightarrow> Inl e | Inr ts \<Rightarrow> Inr (trim s # ts)))"

definition selection_to_domain :: "selection_row \<Rightarrow> string + string \<times> selection" where
  "selection_to_domain r =
     (case (if trim (sr_secondary r) = [] then Inr [] else parse_tokens (split_on (CHR '','') (sr_secondary r))) of
        Inl e \<Rightarrow> Inl e
      | Inr secondary \<Rightarrow>
          if sr_version r \<noteq> ''v1'' then Inl ''invalid policy_version''
          else Inr (sr_entry r,
            \<lparr>primary_rep_id = sr_primary r, secondary_rep_ids = secondary, preview_rep_id = sr_preview r,
             paste_rep_id = sr_paste r\<rparr>))"

text \<open>Ids that survive the column: not empty, no commas, no white space around them.\<close>

definition plain_id :: "string \<Rightarrow> bool" where
  "plain_id s \<longleftrightarrow> s \<noteq> [] \<and> CHR '','' \<notin> set s \<and> trim s = s"

lemma split_on_single: "c \<notin> set s \<Longrightarrow> split_on c s = [s]"
  by (induction s) auto

lemma split_on_append: "c \<notin> set s \<Longrightarrow> split_on c (s @ c # t) = s # split_on c t"
  by (induction s) auto

lemma split_join: "\<lbrakk>ss \<noteq> []; \<forall>s \<in> set ss. c \<notin> set s\<rbrakk> \<Longrightarrow> split_on c (join_with c ss) = ss"
  by (induction c ss rule: join_with.induct) (auto simp: split_on_single split_on_append)

lemma parse_tokens_plain: "\<forall>s \<in> set ss. plain_id s \<Longrightarrow> parse_tokens ss = Inr ss"
  by (induction ss) (auto simp: plain_id_def)

lemma trim_Nil_iff: "trim s = [] \<longleftrightarrow> (\<forall>c \<in> set s. is_ws c)"
proof -
  have "trim s = [] \<longleftrightarrow> (\<forall>c \<in> set (dropWhile is_ws s). is_ws c)"
    by (simp add: trim_def)
  also have "\<dots> \<longleftrightarrow> dropWhile is_ws s = []"
    using hd_dropWhile [of is_ws s] hd_in_set [of "dropWhile is_ws s"]
    by (metis empty_iff list.set(1))
  finally show ?thesis by simp
qed

lemma selection_row_roundtrip:
  assumes "\<forall>i \<in> set (secondary_rep_ids sel). plain_id i"
  shows "selection_to_domain (selection_to_row entry sel) = Inr (entry, sel)"
proof (cases "secondary_rep_ids sel")
  case Nil
  then show ?thesis by (simp add: selection_to_domain_def selection_to_row_def trim_def)
next
  case (Cons i js)
  let ?col = "join_with (CHR '','') (secondary_rep_ids sel)"
  have "trim i \<noteq> []" using assms Cons by (auto simp: plain_id_def)
  moreover have "set i \<subseteq> set ?col" using Cons by (cases js) auto
  ultimately have "trim ?col \<noteq> []" by (auto simp: trim_Nil_iff)
  moreover have "split_on (CHR '','') ?col = secondary_rep_ids sel"
    using assms Cons by (intro split_join) (auto simp: plain_id_def)
  ultimately show ?thesis
    using assms by (simp add: selection_to_domain_def selection_to_row_def parse_tokens_plain)
qed

section \<open>The tables\<close>

record history =
  hi_events :: "clip_event list"
  hi_entries :: "clip_entry list"
  hi_selections :: "string \<rightharpoonup> selection"
  hi_store :: store

definition entry_of :: "string \<Rightarrow> history \<Rightarrow> clip_entry option" where
  "entry_of i h = find (\<lambda>e. ce_id e = i) (hi_entries h)"

definition event_of :: "string \<Rightarrow> history \<Rightarrow> clip_event option" where
  "event_of i h = find (\<lambda>v. ev_id v = i) (hi_events h)"

text \<open>\<^verbatim>\<open>insert_event\<close>, in one transaction.\<close>

definition insert_event :: "bool \<Rightarrow> clip_event \<Rightarrow> persisted list \<Rightarrow> history \<Rightarrow> (string + unit) \<times> history" where
  "insert_event db_error event reps h =
     (if event_of (ev_id event) h \<noteq> None then (Inl ''db'', h)
      else (case insert_reps db_error (ev_id event) reps (st_reps (hi_store h)) of
        (Inl e, _) \<Rightarrow> (Inl e, h)
      | (Inr _, tbl) \<Rightarrow>
          (Inr (), h\<lparr>hi_events := hi_events h @ [event], hi_store := (hi_store h)\<lparr>st_reps := tbl\<rparr>\<rparr>)))"

text \<open>
  An event that an entry still refers to cannot be deleted; otherwise its representations go with
  it.
\<close>

definition drop_event_reps :: "string \<Rightarrow> rep_table \<Rightarrow> rep_table" where
  "drop_event_reps event tbl =
     (\<lambda>i. case tbl i of Some row \<Rightarrow> if rr_event row = event then None else Some row | None \<Rightarrow> None)"

definition drop_event_thumbs :: "string \<Rightarrow> rep_table \<Rightarrow> (rep_id \<rightharpoonup> string) \<Rightarrow> (rep_id \<rightharpoonup> string)" where
  "drop_event_thumbs event tbl thumbs =
     (\<lambda>i. if drop_event_reps event tbl i = None \<and> tbl i \<noteq> None then None else thumbs i)"

definition delete_event_and_representations :: "bool \<Rightarrow> string \<Rightarrow> history \<Rightarrow> (string + unit) \<times> history" where
  "delete_event_and_representations db_error event h =
     (if db_error \<or> (\<exists>e \<in> set (hi_entries h). ce_event e = event) then (Inl ''db'', h)
      else (Inr (), h\<lparr>hi_events := filter (\<lambda>v. ev_id v \<noteq> event) (hi_events h),
                      hi_store := (hi_store h)\<lparr>st_reps := drop_event_reps event (st_reps (hi_store h))\<rparr>\<rparr>))"

definition save_entry_and_selection :: "bool \<Rightarrow> clip_entry \<Rightarrow> selection \<Rightarrow> history \<Rightarrow> (string + unit) \<times> history" where
  "save_entry_and_selection db_error entry sel h =
     (if db_error \<or> entry_of (ce_id entry) h \<noteq> None \<or> (\<exists>e \<in> set (hi_entries h). ce_event e = ce_event entry) \<or>
         event_of (ce_event entry) h = None \<or> hi_selections h (ce_id entry) \<noteq> None \<or>
         list_ex (\<lambda>r. st_reps (hi_store h) r = None) [primary_rep_id sel, preview_rep_id sel, paste_rep_id sel]
      then (Inl ''db'', h)
      else (Inr (), h\<lparr>hi_entries := hi_entries h @ [entry], hi_selections := (hi_selections h)(ce_id entry \<mapsto> sel)\<rparr>))"

definition get_entry :: "bool \<Rightarrow> string \<Rightarrow> history \<Rightarrow> string + clip_entry option" where
  "get_entry db_error i h = (if db_error then Inl ''db'' else Inr (entry_of i h))"

definition list_entries :: "bool \<Rightarrow> nat \<Rightarrow> nat \<Rightarrow> history \<Rightarrow> string + clip_entry list" where
  "list_entries db_error limit offset h =
     (if db_error then Inl ''db''
      else Inr (take limit (drop offset (sort_key (\<lambda>e. - ce_active e) (hi_entries h)))))"

definition update_entry :: "string \<Rightarrow> (clip_entry \<Rightarrow> clip_entry) \<Rightarrow> history \<Rightarrow> history" where
  "update_entry i f h = h\<lparr>hi_entries := map (\<lambda>e. if ce_id e = i then f e else e) (hi_entries h)\<rparr>"

definition touch_entry :: "bool \<Rightarrow> string \<Rightarrow> int \<Rightarrow> history \<Rightarrow> (string + bool) \<times> history" where
  "touch_entry db_error i active h =
     (if db_error then (Inl ''db'', h)
      else (Inr (entry_of i h \<noteq> None), update_entry i (\<lambda>e. e\<lparr>ce_active := active\<rparr>) h))"

definition set_favorite :: "bool \<Rightarrow> string \<Rightarrow> bool \<Rightarrow> history \<Rightarrow> (string + bool) \<times> history" where
  "set_favorite db_error i fav h =
     (if db_error then (Inl ''db'', h)
      else (Inr (entry_of i h \<noteq> None), update_entry i (\<lambda>e. e\<lparr>ce_favorite := fav\<rparr>) h))"

text \<open>The selection of a deleted entry goes with it.\<close>

definition delete_entry :: "bool \<Rightarrow> string \<Rightarrow> history \<Rightarrow> (string + unit) \<times> history" where
  "delete_entry db_error i h =
     (if db_error then (Inl ''db'', h)
      else (Inr (), h\<lparr>hi_entries := filter (\<lambda>e. ce_id e \<noteq> i) (hi_entries h),
                      hi_selections := (hi_selections h)(i := None)\<rparr>))"

definition delete_selection :: "bool \<Rightarrow> string \<Rightarrow> history \<Rightarrow> (string + unit) \<times> history" where
  "delete_selection db_error i h =
     (if db_error then (Inl ''db'', h) else (Inr (), h\<lparr>hi_selections := (hi_selections h)(i := None)\<rparr>))"

text \<open>The first event with the hash, and then the entry of that event.\<close>

definition find_entry_id_by_snapshot_hash :: "bool \<Rightarrow> string \<Rightarrow> history \<Rightarrow> string + string option" where
  "find_entry_id_by_snapshot_hash db_error hash h =
     (if db_error then Inl ''db''
      else (case find (\<lambda>v. ev_hash v = hash) (hi_events h) of
        None \<Rightarrow> Inr None
      | Some v \<Rightarrow> Inr (map_option ce_id (find (\<lambda>e. ce_event e = ev_id v) (hi_entries h)))))"

definition get_entry_snapshot_hash :: "bool \<Rightarrow> string \<Rightarrow> history \<Rightarrow> string + string option" where
  "get_entry_snapshot_hash db_error i h =
     (if db_error then Inl ''db''
      else (case entry_of i h of
        None \<Rightarrow> Inr None
      | Some e \<Rightarrow> Inr (map_option ev_hash (event_of (ce_event e) h))))"

text \<open>The representations of an event, listed in some order \<open>ids\<close> of the table.\<close>

fun map_results :: "('a \<Rightarrow> 'e + 'b) \<Rightarrow> 'a list \<Rightarrow> 'e + 'b list" where
  "map_results f [] = Inr []"
| "map_results f (x # xs) =
     (case f x of
        Inl e \<Rightarrow> Inl e
      | Inr y \<Rightarrow> (case map_results f xs of Inl e \<Rightarrow> Inl e | Inr ys \<Rightarrow> Inr (y # ys)))"

definition get_representations_for_event ::
  "bool \<Rightarrow> rep_id list \<Rightarrow> string \<Rightarrow> history \<Rightarrow> string + persisted list" where
  "get_representations_for_event db_error ids event h =
     (if db_error then Inl ''db''
      else map_results (\<lambda>(i, row). to_domain i row)
        (List.map_filter (\<lambda>i. case st_reps (hi_store h) i of
            Some row \<Rightarrow> if rr_event row = event then Some (i, row) else None | None \<Rightarrow> None) ids))"

text \<open>
  \<^verbatim>\<open>replace_entry_content\<close>, one transaction: the entry moves to the new event, and the old event,
  its representations and selection go.
\<close>

definition replace_entry_content ::
  "bool \<Rightarrow> string \<Rightarrow> clip_event \<Rightarrow> persisted list \<Rightarrow> selection \<Rightarrow> int \<Rightarrow> entry_category \<Rightarrow>
   history \<Rightarrow> (string + unit) \<times> history" where
  "replace_entry_content db_error i event reps sel total_size category h =
     (case entry_of i h of
        None \<Rightarrow> (Inl ''no entry'', h)
      | Some old \<Rightarrow>
          (case insert_event db_error event reps h of
             (Inl e, _) \<Rightarrow> (Inl e, h)
           | (Inr _, h1) \<Rightarrow>
               if list_ex (\<lambda>r. st_reps (hi_store h1) r = None) [primary_rep_id sel, preview_rep_id sel, paste_rep_id sel] \<or>
                  (\<exists>e \<in> set (hi_entries h1). ce_event e = ev_id event)
               then (Inl ''db'', h)
               else
                 (let h2 = update_entry i (\<lambda>e. e\<lparr>ce_event := ev_id event, ce_size := total_size, ce_category := category\<rparr>) h1;
                      tbl = drop_event_reps (ce_event old) (st_reps (hi_store h2));
                      thumbs = drop_event_thumbs (ce_event old) (st_reps (hi_store h2)) (st_thumbs (hi_store h2)) in
                  (Inr (), h2\<lparr>hi_selections := (hi_selections h2)(i \<mapsto> sel),
                     hi_events := filter (\<lambda>v. ev_id v \<noteq> ce_event old) (hi_events h2),
                     hi_store := (hi_store h2)\<lparr>st_reps := tbl, st_thumbs := thumbs\<rparr>\<rparr>))))"

section \<open>The invariant of the tables\<close>

definition history_inv :: "history \<Rightarrow> bool" where
  "history_inv h \<longleftrightarrow>
     distinct (map ev_id (hi_events h)) \<and> distinct (map ce_id (hi_entries h)) \<and> distinct (map ce_event (hi_entries h)) \<and>
     ce_event ` set (hi_entries h) \<subseteq> ev_id ` set (hi_events h) \<and>
     dom (hi_selections h) \<subseteq> ce_id ` set (hi_entries h) \<and>
     (\<forall>i row. st_reps (hi_store h) i = Some row \<longrightarrow> rr_event row \<in> ev_id ` set (hi_events h))"

lemma find_distinct:
  "distinct (map f xs) \<Longrightarrow> find (\<lambda>x. f x = k) xs = Some x \<longleftrightarrow> x \<in> set xs \<and> f x = k"
  by (induction xs) (auto simp: image_iff)

lemma find_None_image: "find (\<lambda>x. f x = k) xs = None \<longleftrightarrow> k \<notin> f ` set xs"
  by (auto simp: find_None_iff image_iff)

lemma entry_of_Some: "history_inv h \<Longrightarrow> entry_of i h = Some e \<longleftrightarrow> e \<in> set (hi_entries h) \<and> ce_id e = i"
  by (simp add: entry_of_def history_inv_def find_distinct)

lemma event_of_Some: "history_inv h \<Longrightarrow> event_of i h = Some v \<longleftrightarrow> v \<in> set (hi_events h) \<and> ev_id v = i"
  by (simp add: event_of_def history_inv_def find_distinct)

lemma entry_of_None: "entry_of i h = None \<longleftrightarrow> i \<notin> ce_id ` set (hi_entries h)"
  by (simp add: entry_of_def find_None_image)

lemma event_of_None: "event_of i h = None \<longleftrightarrow> i \<notin> ev_id ` set (hi_events h)"
  by (simp add: event_of_def find_None_image)

lemma insert_reps_rows:
  assumes "insert_reps f event reps tbl = (Inr (), tbl')"
  shows "(tbl' i = Some row \<longrightarrow> tbl i = Some row \<or> rr_event row = event) \<and> (tbl i \<noteq> None \<longrightarrow> tbl' i = tbl i) \<and>
    (\<forall>p \<in> set reps. tbl' (p_id p) = Some (to_row event p))"
proof -
  let ?new = "map_of (map (\<lambda>p. (p_id p, to_row event p)) reps)"
  have t: "tbl' = tbl ++ ?new" and d: "distinct (map p_id reps)" and fresh: "\<forall>p \<in> set reps. tbl (p_id p) = None"
    using assms by (auto simp: insert_reps_def split: if_splits)
  have new: "?new i = Some r \<Longrightarrow> rr_event r = event \<and> tbl i = None" for r
    using fresh by (auto dest!: map_of_SomeD simp: to_row_def)
  have "?new (p_id p) = Some (to_row event p)" if "p \<in> set reps" for p
    using that d by (intro map_of_is_SomeI) (auto simp: comp_def)
  then have "\<forall>p \<in> set reps. tbl' (p_id p) = Some (to_row event p)"
    by (auto simp: t map_add_def)
  moreover have "(tbl' i = Some row \<longrightarrow> tbl i = Some row \<or> rr_event row = event) \<and> (tbl i \<noteq> None \<longrightarrow> tbl' i = tbl i)"
    using new by (cases "?new i") (auto simp: t map_add_def)
  ultimately show ?thesis by blast
qed

lemma insert_event_ok:
  assumes "insert_event f event reps h = (Inr (), h')"
  obtains tbl where "insert_reps f (ev_id event) reps (st_reps (hi_store h)) = (Inr (), tbl)"
    and "ev_id event \<notin> ev_id ` set (hi_events h)"
    and "h' = h\<lparr>hi_events := hi_events h @ [event], hi_store := (hi_store h)\<lparr>st_reps := tbl\<rparr>\<rparr>"
  using assms by (auto simp: insert_event_def event_of_None split: if_splits sum.splits prod.splits)

lemma insert_event_err: "insert_event f event reps h = (Inl err, h') \<Longrightarrow> h' = h"
  by (auto simp: insert_event_def split: if_splits sum.splits prod.splits)

lemma insert_event_inv:
  assumes "history_inv h" and "insert_event f event reps h = (r, h')"
  shows "history_inv h'"
proof (cases r)
  case (Inl err)
  then show ?thesis using assms insert_event_err by blast
next
  case (Inr u)
  then have "insert_event f event reps h = (Inr (), h')" using assms(2) by simp
  then obtain tbl where tbl: "insert_reps f (ev_id event) reps (st_reps (hi_store h)) = (Inr (), tbl)"
    and new: "ev_id event \<notin> ev_id ` set (hi_events h)"
    and h': "h' = h\<lparr>hi_events := hi_events h @ [event], hi_store := (hi_store h)\<lparr>st_reps := tbl\<rparr>\<rparr>"
    by (rule insert_event_ok)
  have rows: "rr_event row \<in> insert (ev_id event) (ev_id ` set (hi_events h))" if "tbl i = Some row" for i row
  proof -
    have "st_reps (hi_store h) i = Some row \<or> rr_event row = ev_id event"
      using insert_reps_rows [OF tbl, of i row] that by blast
    then show ?thesis using assms(1) unfolding history_inv_def by blast
  qed
  have "ce_event ` set (hi_entries h) \<subseteq> insert (ev_id event) (ev_id ` set (hi_events h))"
    using assms(1) unfolding history_inv_def by blast
  then show ?thesis using assms(1) new rows unfolding history_inv_def h' by simp
qed

lemma save_ok:
  assumes "save_entry_and_selection f entry sel h = (Inr (), h')"
  shows "h' = h\<lparr>hi_entries := hi_entries h @ [entry], hi_selections := (hi_selections h)(ce_id entry \<mapsto> sel)\<rparr> \<and>
    ce_id entry \<notin> ce_id ` set (hi_entries h) \<and> ce_event entry \<notin> ce_event ` set (hi_entries h) \<and>
    ce_event entry \<in> ev_id ` set (hi_events h)"
  using assms by (auto simp: save_entry_and_selection_def entry_of_None event_of_None split: if_splits)

lemma save_err: "save_entry_and_selection f entry sel h = (Inl err, h') \<Longrightarrow> h' = h"
  by (auto simp: save_entry_and_selection_def split: if_splits)

lemma save_inv:
  assumes "history_inv h" and "save_entry_and_selection f entry sel h = (r, h')"
  shows "history_inv h'"
proof (cases r)
  case (Inl err)
  then show ?thesis using assms save_err by blast
next
  case (Inr u)
  then show ?thesis using assms save_ok [of f entry sel h h'] by (auto simp: history_inv_def)
qed

lemma distinct_map_filter': "distinct (map f xs) \<Longrightarrow> distinct (map f (filter P xs))"
  by (induction xs) auto

lemma delete_entry_inv: "history_inv h \<Longrightarrow> history_inv (snd (delete_entry f i h))"
  by (auto simp: history_inv_def delete_entry_def distinct_map_filter')

lemma delete_selection_inv: "history_inv h \<Longrightarrow> history_inv (snd (delete_selection f i h))"
  by (auto simp: history_inv_def delete_selection_def)

lemma drop_event_reps_Some: "drop_event_reps event tbl i = Some row \<longleftrightarrow> tbl i = Some row \<and> rr_event row \<noteq> event"
  by (auto simp: drop_event_reps_def split: option.split)

lemma image_except: "\<lbrakk>k \<in> f ` A; k \<noteq> i\<rbrakk> \<Longrightarrow> k \<in> f ` {x \<in> A. f x \<noteq> i}"
  by auto

lemma delete_event_inv: "history_inv h \<Longrightarrow> history_inv (snd (delete_event_and_representations f event h))"
  by (auto simp: history_inv_def delete_event_and_representations_def distinct_map_filter' drop_event_reps_Some
      intro!: image_except)

lemma map_if_update: "(\<And>e. g (f e) = g e) \<Longrightarrow> map (g \<circ> (\<lambda>e. if P e then f e else e)) es = map g es"
  by auto

lemma update_entry_inv:
  assumes "history_inv h" and "\<And>e. ce_id (f e) = ce_id e" and "\<And>e. ce_event (f e) = ce_event e"
  shows "history_inv (update_entry i f h)"
proof -
  have ids: "map ce_id (hi_entries (update_entry i f h)) = map ce_id (hi_entries h)"
    and evs: "map ce_event (hi_entries (update_entry i f h)) = map ce_event (hi_entries h)"
    using assms(2,3) by (auto simp: update_entry_def)
  then have "ce_id ` set (hi_entries (update_entry i f h)) = ce_id ` set (hi_entries h)"
    and "ce_event ` set (hi_entries (update_entry i f h)) = ce_event ` set (hi_entries h)"
    by (metis set_map)+
  then show ?thesis using assms(1) ids evs by (simp add: history_inv_def) (simp add: update_entry_def)
qed

lemma touch_inv: "history_inv h \<Longrightarrow> history_inv (snd (touch_entry f i t h))"
  by (simp add: touch_entry_def update_entry_inv)

lemma set_favorite_inv: "history_inv h \<Longrightarrow> history_inv (snd (set_favorite f i b h))"
  by (simp add: set_favorite_def update_entry_inv)

text \<open>
  The lookup by content is right when no event is left without an entry: then it finds an entry with
  the content if there is one.
\<close>

definition events_owned :: "history \<Rightarrow> bool" where
  "events_owned h \<longleftrightarrow> ev_id ` set (hi_events h) \<subseteq> ce_event ` set (hi_entries h)"

definition content_of :: "history \<Rightarrow> clip_entry \<Rightarrow> string option" where
  "content_of h e = map_option ev_hash (event_of (ce_event e) h)"

lemma find_entry_sound:
  assumes "history_inv h" and "find_entry_id_by_snapshot_hash False hash h = Inr (Some i)"
  shows "\<exists>e \<in> set (hi_entries h). ce_id e = i \<and> content_of h e = Some hash"
proof -
  obtain v e where v: "find (\<lambda>v. ev_hash v = hash) (hi_events h) = Some v"
    and e: "find (\<lambda>e. ce_event e = ev_id v) (hi_entries h) = Some e" "ce_id e = i"
    using assms(2) by (auto simp: find_entry_id_by_snapshot_hash_def split: option.splits)
  have v': "v \<in> set (hi_events h)" "ev_hash v = hash" using v by (auto simp: find_Some_iff)
  have e': "e \<in> set (hi_entries h)" "ce_event e = ev_id v" using e(1) by (auto simp: find_Some_iff)
  have "event_of (ce_event e) h = Some v" using event_of_Some [OF assms(1)] v'(1) e'(2) by simp
  then show ?thesis using e' e(2) v'(2) by (auto simp: content_of_def)
qed

lemma find_entry_complete:
  assumes "history_inv h" and "events_owned h" and "e \<in> set (hi_entries h)" and "content_of h e = Some hash"
  shows "\<exists>i. find_entry_id_by_snapshot_hash False hash h = Inr (Some i)"
proof -
  obtain v where v: "event_of (ce_event e) h = Some v" "ev_hash v = hash"
    using assms(4) by (auto simp: content_of_def)
  then have "v \<in> set (hi_events h)" using event_of_Some [OF assms(1)] by simp
  then obtain w where w: "find (\<lambda>v. ev_hash v = hash) (hi_events h) = Some w"
    using v(2) by (cases "find (\<lambda>v. ev_hash v = hash) (hi_events h)") (auto simp: find_None_iff)
  then have "w \<in> set (hi_events h)" by (auto simp: find_Some_iff)
  then have "ev_id w \<in> ce_event ` set (hi_entries h)" using assms(2) by (auto simp: events_owned_def)
  then have "find (\<lambda>e. ce_event e = ev_id w) (hi_entries h) \<noteq> None" by (simp add: find_None_image)
  then show ?thesis using w by (auto simp: find_entry_id_by_snapshot_hash_def)
qed

text \<open>An event without an entry hides every later entry with the same content.\<close>

lemma orphan_hides_entry:
  assumes "hi_events h = v # vs" and "ev_hash v = hash" and "ev_id v \<notin> ce_event ` set (hi_entries h)"
  shows "find_entry_id_by_snapshot_hash False hash h = Inr None"
proof -
  have "find (\<lambda>e. ce_event e = ev_id v) (hi_entries h) = None" using assms(3) by (simp add: find_None_image)
  then show ?thesis using assms(1,2) by (simp add: find_entry_id_by_snapshot_hash_def)
qed

text \<open>A replacement keeps the invariant and every other entry.\<close>

lemma replace_ok:
  assumes "replace_entry_content f i event reps sel sz c h = (Inr (), h')"
  obtains old h1 where "entry_of i h = Some old" and "insert_event f event reps h = (Inr (), h1)"
    and "ev_id event \<notin> ce_event ` set (hi_entries h)"
    and "hi_entries h' = map (\<lambda>e. if ce_id e = i then e\<lparr>ce_event := ev_id event, ce_size := sz, ce_category := c\<rparr> else e) (hi_entries h)"
    and "hi_events h' = filter (\<lambda>v. ev_id v \<noteq> ce_event old) (hi_events h @ [event])"
    and "hi_selections h' = (hi_selections h)(i \<mapsto> sel)"
    and "st_reps (hi_store h') = drop_event_reps (ce_event old) (st_reps (hi_store h1))"
proof -
  obtain old where old: "entry_of i h = Some old"
    using assms by (auto simp: replace_entry_content_def split: option.splits)
  obtain r h1 where ins: "insert_event f event reps h = (r, h1)" by (cases "insert_event f event reps h")
  have r: "r = Inr ()" using assms old ins by (cases r) (auto simp: replace_entry_content_def)
  obtain tbl where h1: "h1 = h\<lparr>hi_events := hi_events h @ [event], hi_store := (hi_store h)\<lparr>st_reps := tbl\<rparr>\<rparr>"
    using insert_event_ok ins r by metis
  let ?bad = "list_ex (\<lambda>r. st_reps (hi_store h1) r = None) [primary_rep_id sel, preview_rep_id sel, paste_rep_id sel] \<or>
    (\<exists>e \<in> set (hi_entries h1). ce_event e = ev_id event)"
  have good: "\<not> ?bad"
  proof
    assume ?bad
    then have "replace_entry_content f i event reps sel sz c h = (Inl ''db'', h)"
      by (simp only: replace_entry_content_def old ins r option.case sum.case prod.case if_True)
    then show False using assms by simp
  qed
  have h': "replace_entry_content f i event reps sel sz c h =
      (Inr (), (update_entry i (\<lambda>e. e\<lparr>ce_event := ev_id event, ce_size := sz, ce_category := c\<rparr>) h1)
        \<lparr>hi_selections := (hi_selections h1)(i \<mapsto> sel),
         hi_events := filter (\<lambda>v. ev_id v \<noteq> ce_event old) (hi_events h1),
         hi_store := (hi_store h1)\<lparr>st_reps := drop_event_reps (ce_event old) (st_reps (hi_store h1)),
           st_thumbs := drop_event_thumbs (ce_event old) (st_reps (hi_store h1)) (st_thumbs (hi_store h1))\<rparr>\<rparr>)"
    using good by (simp add: replace_entry_content_def old ins r Let_def update_entry_def)
  show thesis
    by (rule that [OF old]) (use good ins r h' assms in \<open>auto simp: h1 update_entry_def\<close>)
qed

end
