(* ===== verification/History_Cleanup.thy ===== *)
theory History_Cleanup
  imports History "HOL-Library.Sublist"
begin

text \<open>
  What removes entries from the history: the deletion of one entry with its cached files, the
  retention policy, clearing, and the clean-up of the file cache with its time to live and its quota
  (\<^verbatim>\<open>uc-application/usecases/clipboard_history: delete_entry.rs, retention_policy.rs,
  clear_history.rs, cleanup.rs\<close>).

  A path is the list of its components; the URL parser is the parameter \<open>url_path\<close>. A pass of
  a use case over the table is not interrupted by other tasks.
\<close>

section \<open>Lossy UTF-8\<close>

text \<open>The length of the character or of the broken part of one at the front, and whether it is whole.\<close>

definition utf8_front :: "nat \<Rightarrow> nat list \<Rightarrow> nat \<times> bool" where
  "utf8_front a s =
     (let second = (\<lambda>lo hi. case s of b # _ \<Rightarrow> lo \<le> b \<and> b \<le> hi | [] \<Rightarrow> False);
          cont = (\<lambda>n. n < length s \<and> utf8_cont (s ! n));
          lo = (if a = 224 then 160 else if a = 240 then 144 else 128);
          hi = (if a = 237 then 159 else if a = 244 then 143 else 191) in
      if a \<le> 127 then (1, True)
      else if 194 \<le> a \<and> a \<le> 223 then (if second 128 191 then (2, True) else (1, False))
      else if 224 \<le> a \<and> a \<le> 239 then
        (if \<not> second lo hi then (1, False) else if cont 1 then (3, True) else (2, False))
      else if 240 \<le> a \<and> a \<le> 244 then
        (if \<not> second lo hi then (1, False) else if \<not> cont 1 then (2, False)
         else if cont 2 then (4, True) else (3, False))
      else (1, False))"

lemma utf8_front_pos: "0 < fst (utf8_front a s)"
  by (simp add: utf8_front_def Let_def)

function utf8_lossy :: "byte list \<Rightarrow> byte list" where
  "utf8_lossy [] = []"
| "utf8_lossy (b # bs) =
     (let n = fst (utf8_front (unat b) (map unat bs)); whole = snd (utf8_front (unat b) (map unat bs)) in
      (if whole then b # take (n - 1) bs else [0xEF, 0xBF, 0xBD]) @ utf8_lossy (drop (n - 1) bs))"
  by pat_completeness auto
termination by (relation "measure length") auto

definition from_utf8_lossy :: "byte list \<Rightarrow> string" where
  "from_utf8_lossy bs = bytes_str (utf8_lossy bs)"

section \<open>Paths and the disk\<close>

type_synonym path = "string list"

definition path_components :: "string \<Rightarrow> path" where
  "path_components s =
     (let ps = filter (\<lambda>p. p \<noteq> []) (split_on (CHR ''/'') s) in
      if starts_with ''/'' s then ''/'' # filter (\<lambda>p. p \<noteq> ''.'') ps
      else (case ps of [] \<Rightarrow> [] | p # rest \<Rightarrow> p # filter (\<lambda>p. p \<noteq> ''.'') rest))"

text \<open>Where a path leads: \<^verbatim>\<open>..\<close> goes up, the root is its own parent.\<close>

fun go_to :: "path \<Rightarrow> path \<Rightarrow> path" where
  "go_to cur [] = cur"
| "go_to cur (p # ps) =
     go_to (if p = ''..'' then (if length cur \<le> 1 then cur else butlast cur) else cur @ [p]) ps"

datatype disk_node = DiskFile "byte list" "int option" | DiskDir

type_synonym disk = "(path \<times> disk_node) list"

definition node_at :: "path \<Rightarrow> disk \<Rightarrow> disk_node option" where
  "node_at p d = map_of d (go_to [] p)"

definition without :: "path \<Rightarrow> disk \<Rightarrow> disk" where
  "without p d = filter (\<lambda>(q, _). q \<noteq> go_to [] p) d"

definition remove_file :: "(path \<Rightarrow> bool) \<Rightarrow> path \<Rightarrow> disk \<Rightarrow> bool \<times> disk" where
  "remove_file io p d =
     (case node_at p d of
        Some (DiskFile _ _) \<Rightarrow> if io p then (False, d) else (True, without p d)
      | _ \<Rightarrow> (False, d))"

definition children :: "path \<Rightarrow> disk \<Rightarrow> disk" where
  "children dir d = filter (\<lambda>(q, _). q \<noteq> [] \<and> butlast q = go_to [] dir) d"

definition remove_dir :: "(path \<Rightarrow> bool) \<Rightarrow> path \<Rightarrow> disk \<Rightarrow> disk" where
  "remove_dir io p d =
     (if node_at p d = Some DiskDir \<and> children p d = [] \<and> \<not> io p then without p d else d)"

section \<open>Deleting an entry\<close>

record archive =
  ar_history :: history
  ar_disk :: disk

record delete_env =
  de_get_fails :: bool
  de_reps_fails :: bool
  de_ids :: "rep_id list"
  de_io :: "path \<Rightarrow> bool"
  de_selection_fails :: bool
  de_entry_fails :: bool
  de_event_fails :: bool

definition uri_line_path :: "(string \<Rightarrow> string option) \<Rightarrow> string \<Rightarrow> path option" where
  "uri_line_path url_path raw =
     (let line = trim raw in
      if line = [] \<or> starts_with ''#'' line then None
      else if starts_with ''file://'' line then map_option path_components (url_path line)
      else Some (path_components line))"

text \<open>The files a representation refers to, as far as its inline data says.\<close>

definition rep_paths :: "(string \<Rightarrow> string option) \<Rightarrow> persisted \<Rightarrow> path list" where
  "rep_paths url_path p =
     (if \<not> contains_sub ''uri-list'' (case p_mime p of Some m \<Rightarrow> m | None \<Rightarrow> []) then []
      else (case p_inline p of
        None \<Rightarrow> []
      | Some inline \<Rightarrow> List.map_filter (uri_line_path url_path) (str_lines (from_utf8_lossy inline))))"

fun remove_cached :: "(path \<Rightarrow> bool) \<Rightarrow> path \<Rightarrow> path list \<Rightarrow> disk \<Rightarrow> disk" where
  "remove_cached io dir [] d = d"
| "remove_cached io dir (p # ps) d =
     (if \<not> starts_with dir p then remove_cached io dir ps d
      else (case remove_file io p d of
        (False, d1) \<Rightarrow> remove_cached io dir ps d1
      | (True, d1) \<Rightarrow>
          remove_cached io dir ps
            (if p \<noteq> [] \<and> butlast p \<noteq> dir \<and> starts_with dir (butlast p) then remove_dir io (butlast p) d1 else d1)))"

definition cleanup_cache_files ::
  "(string \<Rightarrow> string option) \<Rightarrow> path option \<Rightarrow> delete_env \<Rightarrow> string \<Rightarrow> archive \<Rightarrow> archive" where
  "cleanup_cache_files url_path cache_dir e event a =
     (case cache_dir of
        None \<Rightarrow> a
      | Some dir \<Rightarrow>
          (case get_representations_for_event (de_reps_fails e) (de_ids e) event (ar_history a) of
             Inl _ \<Rightarrow> a
           | Inr reps \<Rightarrow>
               a\<lparr>ar_disk := remove_cached (de_io e) dir (concat (map (rep_paths url_path) reps)) (ar_disk a)\<rparr>))"

definition delete_entry_uc ::
  "(string \<Rightarrow> string option) \<Rightarrow> path option \<Rightarrow> delete_env \<Rightarrow> string \<Rightarrow> archive \<Rightarrow> (string + unit) \<times> archive" where
  "delete_entry_uc url_path cache_dir e i a =
     (case get_entry (de_get_fails e) i (ar_history a) of
        Inl err \<Rightarrow> (Inl err, a)
      | Inr None \<Rightarrow> (Inl ''Clipboard entry not found'', a)
      | Inr (Some entry) \<Rightarrow>
          (let a1 = cleanup_cache_files url_path cache_dir e (ce_event entry) a in
           case delete_selection (de_selection_fails e) i (ar_history a1) of
             (Inl err, h) \<Rightarrow> (Inl ''Failed to delete selection'', a1\<lparr>ar_history := h\<rparr>)
           | (Inr _, h1) \<Rightarrow>
               (case delete_entry (de_entry_fails e) i h1 of
                  (Inl err, h) \<Rightarrow> (Inl ''Failed to delete entry'', a1\<lparr>ar_history := h\<rparr>)
                | (Inr _, h2) \<Rightarrow>
                    (case delete_event_and_representations (de_event_fails e) (ce_event entry) h2 of
                       (Inl err, h) \<Rightarrow> (Inl ''Failed to delete event'', a1\<lparr>ar_history := h\<rparr>)
                     | (Inr _, h) \<Rightarrow> (Inr (), a1\<lparr>ar_history := h\<rparr>)))))"

text \<open>The same for a list of entries, one after the other; the results in the order of the list.\<close>

fun delete_each ::
  "(string \<Rightarrow> string option) \<Rightarrow> path option \<Rightarrow> (string \<Rightarrow> delete_env) \<Rightarrow> string list \<Rightarrow> archive \<Rightarrow>
   (string + unit) list \<times> archive" where
  "delete_each url_path cache_dir envs [] a = ([], a)"
| "delete_each url_path cache_dir envs (i # ids) a =
     (case delete_entry_uc url_path cache_dir (envs i) i a of
        (r, a1) \<Rightarrow> (case delete_each url_path cache_dir envs ids a1 of (rs, a2) \<Rightarrow> (r # rs, a2)))"

definition count_ok :: "(string + unit) list \<Rightarrow> nat" where
  "count_ok rs = length (filter (\<lambda>r. \<not> isl r) rs)"

section \<open>All entries, in batches\<close>

definition entry_list_batch_size :: nat where "entry_list_batch_size = 1000"

function collect_entries :: "(nat \<Rightarrow> bool) \<Rightarrow> nat \<Rightarrow> history \<Rightarrow> string + clip_entry list" where
  "collect_entries db_error offset h =
     (case list_entries (db_error offset) entry_list_batch_size offset h of
        Inl err \<Rightarrow> Inl ''list entries''
      | Inr batch \<Rightarrow>
          if batch = [] then Inr []
          else if length batch < entry_list_batch_size then Inr batch
          else (case collect_entries db_error (offset + length batch) h of
                  Inl err \<Rightarrow> Inl err
                | Inr rest \<Rightarrow> Inr (batch @ rest)))"
  by pat_completeness auto
termination
  by (relation "measure (\<lambda>(_, offset, h). length (hi_entries h) - offset)")
    (auto simp: list_entries_def split: if_splits)

declare collect_entries.simps [simp del]

section \<open>The retention policy\<close>

datatype retention_rule =
    ByAge nat | ByCount nat | ByContentType nat | ByTotalSize nat | Sensitive nat

datatype rule_evaluation = AnyMatch | AllMatch

record retention_policy =
  rp_enabled :: bool
  rp_rules :: "retention_rule list"
  rp_skip_pinned :: bool
  rp_evaluation :: rule_evaluation

record candidate =
  rc_id :: string
  rc_created :: int
  rc_favorite :: bool

definition candidate_of :: "clip_entry \<Rightarrow> candidate" where
  "candidate_of e = \<lparr>rc_id = ce_id e, rc_created = ce_created e, rc_favorite = ce_favorite e\<rparr>"

fun supported_rule :: "retention_rule \<Rightarrow> bool" where
  "supported_rule (ByAge _) = True"
| "supported_rule (ByCount _) = True"
| "supported_rule _ = False"

text \<open>Ages are in milliseconds.\<close>

fun rule_set :: "int \<Rightarrow> candidate list \<Rightarrow> retention_rule \<Rightarrow> string set option" where
  "rule_set now cs (ByAge max_age) =
     Some (rc_id ` {c \<in> set cs. rc_created c < i64_sat (now - i64_wrap (int max_age))})"
| "rule_set now cs (ByCount max_items) = Some (rc_id ` set (drop max_items cs))"
| "rule_set now cs _ = None"

fun intersect_all :: "string set list \<Rightarrow> string set" where
  "intersect_all [] = {}"
| "intersect_all [x] = x"
| "intersect_all (x # xs) = x \<inter> intersect_all xs"

definition select_entries_to_evict_for_retention ::
  "candidate list \<Rightarrow> retention_rule list \<Rightarrow> rule_evaluation \<Rightarrow> bool \<Rightarrow> int \<Rightarrow> string set" where
  "select_entries_to_evict_for_retention candidates rules evaluation skip_pinned now =
     (let cs = (if skip_pinned then filter (\<lambda>c. \<not> rc_favorite c) candidates else candidates) in
      if cs = [] then {}
      else
        (let sets = List.map_filter (rule_set now (sort_key (\<lambda>c. - rc_created c) cs)) rules in
         if sets = [] then {}
         else (case evaluation of AnyMatch \<Rightarrow> \<Union> (set sets) | AllMatch \<Rightarrow> intersect_all sets)))"

record retention_result =
  re_deleted :: nat
  re_errors :: nat

text \<open>A hash set is iterated in some order, \<open>enum\<close>.\<close>

definition enforce_retention ::
  "(string \<Rightarrow> string option) \<Rightarrow> path option \<Rightarrow> (string \<Rightarrow> delete_env) \<Rightarrow> (string set \<Rightarrow> string list) \<Rightarrow>
   (nat \<Rightarrow> bool) \<Rightarrow> string + retention_policy \<Rightarrow> int \<Rightarrow> archive \<Rightarrow> (string + retention_result) \<times> archive" where
  "enforce_retention url_path cache_dir envs enum list_error settings now a =
     (case settings of
        Inl err \<Rightarrow> (Inl err, a)
      | Inr policy \<Rightarrow>
          if \<not> rp_enabled policy then (Inr \<lparr>re_deleted = 0, re_errors = 0\<rparr>, a)
          else if \<not> list_all supported_rule (rp_rules policy) then (Inr \<lparr>re_deleted = 0, re_errors = 0\<rparr>, a)
          else (case collect_entries list_error 0 (ar_history a) of
            Inl err \<Rightarrow> (Inl err, a)
          | Inr es \<Rightarrow>
              (let victims = enum (select_entries_to_evict_for_retention (map candidate_of es) (rp_rules policy)
                     (rp_evaluation policy) (rp_skip_pinned policy) now);
                   (rs, a1) = delete_each url_path cache_dir envs victims a in
               (Inr \<lparr>re_deleted = count_ok rs, re_errors = length rs - count_ok rs\<rparr>, a1))))"

section \<open>Clearing\<close>

definition clear_history ::
  "(string \<Rightarrow> string option) \<Rightarrow> path option \<Rightarrow> (string \<Rightarrow> delete_env) \<Rightarrow> (nat \<Rightarrow> bool) \<Rightarrow> archive \<Rightarrow>
   (string + nat \<times> string list) \<times> archive" where
  "clear_history url_path cache_dir envs list_error a =
     (case collect_entries list_error 0 (ar_history a) of
        Inl err \<Rightarrow> (Inl err, a)
      | Inr [] \<Rightarrow> (Inr (0, []), a)
      | Inr es \<Rightarrow>
          (let (rs, a1) = delete_each url_path cache_dir envs (map ce_id es) a;
               failed = map fst (filter (\<lambda>(_, r). isl r) (zip (map ce_id es) rs)) in
           if count_ok rs = 0 \<and> failed \<noteq> [] then (Inl ''All entries failed to delete'', a1)
           else (Inr (count_ok rs, failed), a1)))"

section \<open>The clean-up of the file cache\<close>

record cleanup_result =
  cr_files :: nat
  cr_bytes :: nat
  cr_entries :: nat
  cr_orphans :: nat
  cr_errors :: nat

definition no_cleanup :: cleanup_result where
  "no_cleanup = \<lparr>cr_files = 0, cr_bytes = 0, cr_entries = 0, cr_orphans = 0, cr_errors = 0\<rparr>"

record file_settings =
  fs_auto_cleanup :: bool
  fs_retention_hours :: nat
  fs_quota :: nat
  fs_skip_pinned :: bool

text \<open>What the disk answers: directories that cannot be listed, files whose metadata cannot be read.\<close>

record disk_env =
  dk_list_fails :: "path \<Rightarrow> bool"
  dk_meta_fails :: "path \<Rightarrow> bool"
  dk_io :: "path \<Rightarrow> bool"
  dk_read_fails :: bool
  dk_write_fails :: bool

text \<open>
  The expired files below a directory; a file without a modification time has age zero. A child of
  a directory without \<^verbatim>\<open>..\<close> in its path extends that path, which the test of the prefix says.
\<close>

lemma filter_length_strict:
  assumes "x \<in> set xs" and "Q x" and "\<not> P x" and "\<And>y. P y \<Longrightarrow> Q y"
  shows "length (filter P xs) < length (filter Q xs)"
proof -
  have "filter P xs = filter P (filter Q xs)" using assms(4) by (induction xs) auto
  moreover have "length (filter P (filter Q xs)) < length (filter Q xs)"
    by (rule length_filter_less [of x]) (use assms in auto)
  ultimately show ?thesis by simp
qed

function collect_expired :: "disk_env \<Rightarrow> disk \<Rightarrow> int \<Rightarrow> nat \<Rightarrow> path \<Rightarrow> (path \<times> nat) list" where
  "collect_expired e d now retention_secs dir =
     (if dk_list_fails e dir then []
      else concat (map (\<lambda>q.
        if q \<in> set (map fst (children dir d)) \<and> strict_prefix dir q then
          (case map_of d q of
             Some DiskDir \<Rightarrow> collect_expired e d now retention_secs q
           | Some (DiskFile content mtime) \<Rightarrow>
               if dk_meta_fails e q then []
               else
                 (let age = (case mtime of Some m \<Rightarrow> i64_wrap (now - m) | None \<Rightarrow> 0) in
                  if i64_sat (i64_wrap (int retention_secs) * 1000) \<le> age then [(q, length content)] else [])
           | None \<Rightarrow> [])
        else []) (map fst (children dir d))))"
  by pat_completeness auto
termination
proof (relation "measure (\<lambda>(_, d, _, _, dir). length (filter (\<lambda>(q, _). strict_prefix dir q) d))")
  fix e :: disk_env and d :: disk and now :: int and secs :: nat and dir q :: path
  assume q: "q \<in> set (map fst (children dir d)) \<and> strict_prefix dir q"
  then obtain x where x: "x \<in> set d" "fst x = q" by (auto simp: children_def)
  have "length (filter (\<lambda>(r, _). strict_prefix q r) d) < length (filter (\<lambda>(r, _). strict_prefix dir r) d)"
  proof (rule filter_length_strict)
    show "x \<in> set d" and "(case x of (r, _) \<Rightarrow> strict_prefix dir r)" and "\<not> (case x of (r, _) \<Rightarrow> strict_prefix q r)"
      using x q by (auto split: prod.split)
    show "(case y of (r, _) \<Rightarrow> strict_prefix dir r)" if "(case y of (r, _) \<Rightarrow> strict_prefix q r)" for y
      using that q by (auto split: prod.splits)
  qed
  then show "((e, d, now, secs, q), e, d, now, secs, dir) \<in> measure (\<lambda>(_, d, _, _, dir). length (filter (\<lambda>(q, _). strict_prefix dir q) d))"
    by simp
qed simp

declare collect_expired.simps [simp del]

text \<open>The reverse index; a later entry that names the same path replaces an earlier one.\<close>

definition entry_index ::
  "(string \<Rightarrow> string option) \<Rightarrow> path \<Rightarrow> (string \<Rightarrow> bool) \<Rightarrow> rep_id list \<Rightarrow> clip_entry \<Rightarrow> history \<Rightarrow> (path \<times> string) list" where
  "entry_index url_path dir reps_fail ids entry h =
     (case get_representations_for_event (reps_fail (ce_event entry)) ids (ce_event entry) h of
        Inl _ \<Rightarrow> []
      | Inr reps \<Rightarrow> map (\<lambda>p. (p, ce_id entry)) (filter (starts_with dir) (concat (map (rep_paths url_path) reps))))"

definition build_reverse_index ::
  "(string \<Rightarrow> string option) \<Rightarrow> path \<Rightarrow> (nat \<Rightarrow> bool) \<Rightarrow> (string \<Rightarrow> bool) \<Rightarrow> rep_id list \<Rightarrow> history \<Rightarrow>
   string + (path \<rightharpoonup> string)" where
  "build_reverse_index url_path dir list_error reps_fail ids h =
     (case collect_entries list_error 0 h of
        Inl err \<Rightarrow> Inl err
      | Inr es \<Rightarrow> Inr (map_of (rev (concat (map (\<lambda>entry. entry_index url_path dir reps_fail ids entry h) es)))))"

fun route_expired ::
  "(string \<Rightarrow> string option) \<Rightarrow> path \<Rightarrow> disk_env \<Rightarrow> (string \<Rightarrow> delete_env) \<Rightarrow> (path \<rightharpoonup> string) \<Rightarrow> string set \<Rightarrow>
   (path \<times> nat) list \<Rightarrow> cleanup_result \<Rightarrow> archive \<Rightarrow> cleanup_result \<times> archive" where
  "route_expired url_path dir k envs index handled [] res a = (res, a)"
| "route_expired url_path dir k envs index handled ((p, sz) # expired) res a =
     (case index p of
        Some i \<Rightarrow>
          if i \<in> handled
          then route_expired url_path dir k envs index handled expired
                 (res\<lparr>cr_files := cr_files res + 1, cr_bytes := cr_bytes res + sz\<rparr>) a
          else (case delete_entry_uc url_path (Some dir) (envs i) i a of
            (Inr _, a1) \<Rightarrow>
              route_expired url_path dir k envs index (insert i handled) expired
                (res\<lparr>cr_entries := cr_entries res + 1, cr_files := cr_files res + 1, cr_bytes := cr_bytes res + sz\<rparr>) a1
          | (Inl _, a1) \<Rightarrow>
              route_expired url_path dir k envs index (insert i handled) expired (res\<lparr>cr_errors := cr_errors res + 1\<rparr>) a1)
      | None \<Rightarrow>
          if node_at p (ar_disk a) = None
          then route_expired url_path dir k envs index handled expired
                 (res\<lparr>cr_orphans := cr_orphans res + 1, cr_files := cr_files res + 1\<rparr>) a
          else (case remove_file (dk_io k) p (ar_disk a) of
            (True, d) \<Rightarrow>
              route_expired url_path dir k envs index handled expired
                (res\<lparr>cr_orphans := cr_orphans res + 1, cr_files := cr_files res + 1, cr_bytes := cr_bytes res + sz\<rparr>)
                (a\<lparr>ar_disk := d\<rparr>)
          | (False, _) \<Rightarrow>
              route_expired url_path dir k envs index handled expired (res\<lparr>cr_errors := cr_errors res + 1\<rparr>) a))"

fun remove_empty_dirs :: "disk_env \<Rightarrow> path list \<Rightarrow> disk \<Rightarrow> disk" where
  "remove_empty_dirs k [] d = d"
| "remove_empty_dirs k (q # qs) d =
     remove_empty_dirs k qs (if map_of d q = Some DiskDir \<and> \<not> dk_list_fails k q then remove_dir (dk_io k) q d else d)"

definition cleanup_empty_dirs :: "disk_env \<Rightarrow> path \<Rightarrow> disk \<Rightarrow> disk" where
  "cleanup_empty_dirs k dir d =
     (if dk_list_fails k dir then d else remove_empty_dirs k (map fst (children dir d)) d)"

definition run_file_cache_ttl ::
  "(string \<Rightarrow> string option) \<Rightarrow> path \<Rightarrow> disk_env \<Rightarrow> (string \<Rightarrow> delete_env) \<Rightarrow> (nat \<Rightarrow> bool) \<Rightarrow> (string \<Rightarrow> bool) \<Rightarrow>
   rep_id list \<Rightarrow> nat \<Rightarrow> int \<Rightarrow> cleanup_result \<Rightarrow> archive \<Rightarrow> (string + unit) \<times> cleanup_result \<times> archive" where
  "run_file_cache_ttl url_path dir k envs list_error reps_fail ids hours now res a =
     (if node_at dir (ar_disk a) = None then (Inr (), res, a)
      else
        (let expired = collect_expired k (ar_disk a) now (hours * 3600) dir in
         if expired = [] then (Inr (), res, a)
         else (case build_reverse_index url_path dir list_error reps_fail ids (ar_history a) of
           Inl err \<Rightarrow> (Inl err, res, a)
         | Inr index \<Rightarrow>
             (case route_expired url_path dir k envs index {} expired res a of
                (res1, a1) \<Rightarrow> (Inr (), res1, a1\<lparr>ar_disk := cleanup_empty_dirs k dir (ar_disk a1)\<rparr>)))))"

section \<open>The quota\<close>

record disk_backed =
  db_id :: string
  db_created :: int
  db_bytes :: nat
  db_favorite :: bool

text \<open>
  Evict the oldest while the rest is over the quota, but never the newest. The sum of the sizes is
  taken modulo \<open>2\<^sup>64\<close>.
\<close>

fun evict_oldest :: "nat \<Rightarrow> nat \<Rightarrow> nat \<Rightarrow> disk_backed list \<Rightarrow> string list" where
  "evict_oldest tot quota freed [] = []"
| "evict_oldest tot quota freed (x # xs) =
     (if tot - freed \<le> quota then []
      else if xs = [] then []
      else db_id x # evict_oldest tot quota ((freed + db_bytes x) mod 2 ^ 64) xs)"

definition select_entries_to_evict_for_quota :: "disk_backed list \<Rightarrow> nat \<Rightarrow> bool \<Rightarrow> string list" where
  "select_entries_to_evict_for_quota entries quota skip_pinned =
     (let es = (if skip_pinned then filter (\<lambda>x. \<not> db_favorite x) entries else entries) in
      if quota = 0 \<or> es = [] then []
      else
        (let sorted = sort_key db_created es in
         evict_oldest (sum_list (map db_bytes sorted) mod 2 ^ 64) quota 0 sorted))"

definition disk_backed_of :: "(string \<Rightarrow> bool) \<Rightarrow> rep_id list \<Rightarrow> history \<Rightarrow> clip_entry \<Rightarrow> disk_backed option" where
  "disk_backed_of reps_fail ids h entry =
     (case get_representations_for_event (reps_fail (ce_event entry)) ids (ce_event entry) h of
        Inl _ \<Rightarrow> None
      | Inr reps \<Rightarrow>
          (let bytes = sum_list (map (\<lambda>p. nat (max 0 (p_size p)))
                 (filter (\<lambda>p. p_state p \<in> {BlobReadyA, StagedA, ProcessingA}) reps)) mod 2 ^ 64 in
           if 0 < bytes
           then Some \<lparr>db_id = ce_id entry, db_created = ce_created entry, db_bytes = bytes, db_favorite = ce_favorite entry\<rparr>
           else None))"

definition collect_disk_backed_entries ::
  "(nat \<Rightarrow> bool) \<Rightarrow> (string \<Rightarrow> bool) \<Rightarrow> rep_id list \<Rightarrow> history \<Rightarrow> string + disk_backed list" where
  "collect_disk_backed_entries list_error reps_fail ids h =
     (case collect_entries list_error 0 h of
        Inl err \<Rightarrow> Inl err
      | Inr es \<Rightarrow> Inr (List.map_filter (disk_backed_of reps_fail ids h) es))"

text \<open>
  The baseline file next to the cache directory. \<^verbatim>\<open>parse::<i64>\<close> accepts a sign and digits in
  range.
\<close>

definition quota_baseline_file :: string where "quota_baseline_file = ''.cache-quota-baseline''"

definition quota_baseline_path :: "path \<Rightarrow> path option" where
  "quota_baseline_path dir = (if dir = [] \<or> dir = [''/''] then None else Some (butlast dir @ [quota_baseline_file]))"

definition digit_value :: "char \<Rightarrow> nat option" where
  "digit_value c = (let n = of_char c :: nat in if 48 \<le> n \<and> n \<le> 57 then Some (n - 48) else None)"

fun digits_value :: "nat \<Rightarrow> string \<Rightarrow> nat option" where
  "digits_value n [] = Some n"
| "digits_value n (c # cs) = (case digit_value c of None \<Rightarrow> None | Some v \<Rightarrow> digits_value (10 * n + v) cs)"

definition parse_i64 :: "string \<Rightarrow> int option" where
  "parse_i64 s =
     (let (neg, ds) = (case s of [] \<Rightarrow> (False, []) | c # cs \<Rightarrow>
            if c = CHR ''-'' then (True, cs) else if c = CHR ''+'' then (False, cs) else (False, s)) in
      if ds = [] then None
      else (case digits_value 0 ds of
        None \<Rightarrow> None
      | Some n \<Rightarrow> (let v = (if neg then - int n else int n) in if in_i64 v then Some v else None)))"

definition parse_quota_baseline :: "byte list \<Rightarrow> string + int" where
  "parse_quota_baseline content =
     (case from_utf8 content of
        None \<Rightarrow> Inl ''quota baseline is not valid UTF-8''
      | Some text \<Rightarrow> (case parse_i64 (trim text) of None \<Rightarrow> Inl ''parse quota baseline'' | Some v \<Rightarrow> Inr v))"

fun nat_digits :: "nat \<Rightarrow> string" where
  "nat_digits n = (if n < 10 then [char_of (48 + n)] else nat_digits (n div 10) @ [char_of (48 + n mod 10)])"

declare nat_digits.simps [simp del]

definition show_i64 :: "int \<Rightarrow> string" where
  "show_i64 v = (if v < 0 then CHR ''-'' # nat_digits (nat (- v)) else nat_digits (nat v))"

definition read_quota_baseline :: "disk_env \<Rightarrow> path \<Rightarrow> disk \<Rightarrow> string + int option" where
  "read_quota_baseline k p d =
     (if dk_read_fails k then Inl ''read''
      else (case node_at p d of
        None \<Rightarrow> Inr None
      | Some DiskDir \<Rightarrow> Inl ''read''
      | Some (DiskFile content _) \<Rightarrow>
          (case parse_quota_baseline content of Inl e \<Rightarrow> Inl e | Inr v \<Rightarrow> Inr (Some v))))"

definition write_quota_baseline :: "disk_env \<Rightarrow> path \<Rightarrow> int \<Rightarrow> disk \<Rightarrow> (string + unit) \<times> disk" where
  "write_quota_baseline k p now d =
     (if dk_write_fails k \<or> node_at p d = Some DiskDir then (Inl ''write'', d)
      else (Inr (), (go_to [] p, DiskFile (str_bytes (show_i64 now)) (Some now)) # without p d))"

definition run_quota ::
  "(string \<Rightarrow> string option) \<Rightarrow> path \<Rightarrow> disk_env \<Rightarrow> (string \<Rightarrow> delete_env) \<Rightarrow> (nat \<Rightarrow> bool) \<Rightarrow> (string \<Rightarrow> bool) \<Rightarrow>
   rep_id list \<Rightarrow> nat \<Rightarrow> bool \<Rightarrow> int \<Rightarrow> cleanup_result \<Rightarrow> archive \<Rightarrow> cleanup_result \<times> archive" where
  "run_quota url_path dir k envs list_error reps_fail ids quota skip_pinned now res a =
     (if quota = 0 then (res, a)
      else (case quota_baseline_path dir of
        None \<Rightarrow> (res, a)
      | Some p \<Rightarrow>
          (case read_quota_baseline k p (ar_disk a) of
             Inl _ \<Rightarrow> (res, a)
           | Inr None \<Rightarrow> (res, a\<lparr>ar_disk := snd (write_quota_baseline k p now (ar_disk a))\<rparr>)
           | Inr (Some baseline) \<Rightarrow>
               (case collect_disk_backed_entries list_error reps_fail ids (ar_history a) of
                  Inl _ \<Rightarrow> (res, a)
                | Inr es \<Rightarrow>
                    (let managed = filter (\<lambda>x. baseline \<le> db_created x) es;
                         victims = select_entries_to_evict_for_quota managed quota skip_pinned;
                         (rs, a1) = delete_each url_path (Some dir) envs victims a in
                     (res\<lparr>cr_entries := cr_entries res + count_ok rs,
                          cr_errors := cr_errors res + (length rs - count_ok rs)\<rparr>, a1))))))"

text \<open>Both passes; an error of the first is counted and does not keep the second from running.\<close>

definition cleanup_expired_files ::
  "(string \<Rightarrow> string option) \<Rightarrow> path \<Rightarrow> disk_env \<Rightarrow> (string \<Rightarrow> delete_env) \<Rightarrow> (nat \<Rightarrow> bool) \<Rightarrow> (string \<Rightarrow> bool) \<Rightarrow>
   rep_id list \<Rightarrow> string + file_settings \<Rightarrow> int \<Rightarrow> archive \<Rightarrow> (string + cleanup_result) \<times> archive" where
  "cleanup_expired_files url_path dir k envs list_error reps_fail ids settings now a =
     (case settings of
        Inl err \<Rightarrow> (Inl err, a)
      | Inr fs \<Rightarrow>
          if \<not> fs_auto_cleanup fs then (Inr no_cleanup, a)
          else
            (case run_file_cache_ttl url_path dir k envs list_error reps_fail ids (fs_retention_hours fs) now no_cleanup a of
               (r, res, a1) \<Rightarrow>
                 (let res1 = (if isl r then res\<lparr>cr_errors := cr_errors res + 1\<rparr> else res) in
                  case run_quota url_path dir k envs list_error reps_fail ids (fs_quota fs) (fs_skip_pinned fs) now res1 a1 of
                    (res2, a2) \<Rightarrow> (Inr res2, a2))))"

section \<open>What the batches give\<close>

lemma collect_entries_all:
  "collect_entries (\<lambda>_. False) offset h = Inr (drop offset (sort_key (\<lambda>e. - ce_active e) (hi_entries h)))"
proof (induction "\<lambda>_ :: nat. False" offset h rule: collect_entries.induct)
  case (1 offset h)
  let ?xs = "drop offset (sort_key (\<lambda>e. - ce_active e) (hi_entries h))"
  let ?batch = "take entry_list_batch_size ?xs"
  have l: "list_entries False entry_list_batch_size offset h = Inr ?batch"
    by (simp add: list_entries_def)
  show ?case
  proof (cases "?batch = [] \<or> length ?batch < entry_list_batch_size")
    case True
    then have "length ?xs \<le> entry_list_batch_size \<or> ?xs = []"
      by (auto simp: entry_list_batch_size_def)
    then show ?thesis using True by (subst collect_entries.simps) (auto simp: l)
  next
    case False
    then have "collect_entries (\<lambda>_. False) (offset + length ?batch) h = Inr (drop (offset + length ?batch) (sort_key (\<lambda>e. - ce_active e) (hi_entries h)))"
      using 1 [OF l] by blast
    moreover have "?batch @ drop (length ?batch) ?xs = ?xs" by (metis append_take_drop_id length_take min_def take_all nat_le_linear)
    ultimately show ?thesis using False by (subst collect_entries.simps) (simp add: l add.commute)
  qed
qed

section \<open>What the retention policy evicts\<close>

definition eligible :: "bool \<Rightarrow> candidate list \<Rightarrow> candidate list" where
  "eligible skip_pinned cs = (if skip_pinned then filter (\<lambda>c. \<not> rc_favorite c) cs else cs)"

definition newest_first :: "candidate list \<Rightarrow> candidate list" where
  "newest_first cs = sort_key (\<lambda>c. - rc_created c) cs"

text \<open>A set of candidates that with each one has every older one.\<close>

definition old_closed :: "candidate list \<Rightarrow> string set \<Rightarrow> bool" where
  "old_closed cs V \<longleftrightarrow>
     V \<subseteq> rc_id ` set cs \<and>
     (\<forall>c \<in> set cs. \<forall>d \<in> set cs. rc_id c \<in> V \<and> rc_created d < rc_created c \<longrightarrow> rc_id d \<in> V)"

lemma rule_set_old_closed:
  assumes d: "distinct (map rc_id cs)" and r: "rule_set now (newest_first cs) rule = Some V"
  shows "old_closed cs V"
proof (cases rule)
  case (ByAge a)
  let ?old = "{c \<in> set cs. rc_created c < i64_sat (now - i64_wrap (int a))}"
  have V: "V = rc_id ` ?old" using r ByAge by (simp add: newest_first_def)
  have inj: "inj_on rc_id (set cs)" using d by (simp add: distinct_map)
  have "c \<in> ?old" if "c \<in> set cs" "rc_id c \<in> V" for c
    using that inj_onD [OF inj] unfolding V by blast
  then show ?thesis unfolding old_closed_def V by fastforce
next
  case (ByCount n)
  let ?xs = "newest_first cs"
  have s: "sorted (map (\<lambda>c. - rc_created c) ?xs)" by (simp add: newest_first_def)
  have set: "set ?xs = set cs" by (simp add: newest_first_def)
  have split: "set cs = set (take n ?xs) \<union> set (drop n ?xs)"
    by (metis append_take_drop_id set set_append)
  have "rc_id y \<in> rc_id ` set (drop n ?xs)"
    if x: "x \<in> set cs" "rc_id x \<in> rc_id ` set (drop n ?xs)" and y: "y \<in> set cs" "rc_created y < rc_created x" for x y
  proof -
    have "inj_on rc_id (set cs)" using d by (simp add: distinct_map)
    then have xd: "x \<in> set (drop n ?xs)" using x split by (auto dest: inj_onD)
    have "\<not> y \<in> set (take n ?xs)"
    proof
      assume "y \<in> set (take n ?xs)"
      moreover have "sorted (map (\<lambda>c. - rc_created c) (take n ?xs @ drop n ?xs))" using s by simp
      ultimately have "- rc_created y \<le> - rc_created x"
        using xd unfolding map_append sorted_append by auto
      then show False using y(2) by simp
    qed
    then show ?thesis using y(1) split by blast
  qed
  moreover have V: "V = rc_id ` set (drop n ?xs)" using r ByCount by simp
  moreover have "V \<subseteq> rc_id ` set cs" unfolding V split by blast
  ultimately show ?thesis unfolding old_closed_def by blast
qed (use r in auto)

lemma old_closed_Union: "\<forall>V \<in> A. old_closed cs V \<Longrightarrow> old_closed cs (\<Union> A)"
  unfolding old_closed_def by blast

lemma old_closed_Int: "\<lbrakk>old_closed cs V; old_closed cs W\<rbrakk> \<Longrightarrow> old_closed cs (V \<inter> W)"
  unfolding old_closed_def by blast

lemma old_closed_intersect_all: "\<forall>V \<in> set Vs. old_closed cs V \<Longrightarrow> old_closed cs (intersect_all Vs)"
  by (induction Vs rule: intersect_all.induct) (simp_all add: old_closed_Int, simp add: old_closed_def)

lemma intersect_all_subset: "V \<in> set Vs \<Longrightarrow> intersect_all Vs \<subseteq> V"
  by (induction Vs rule: intersect_all.induct) auto

text \<open>The selection in terms of the sets of the rules.\<close>

lemma retention_sets:
  obtains "select_entries_to_evict_for_retention cs rules ev skip now = {}"
      and "eligible skip cs = [] \<or> List.map_filter (rule_set now (newest_first (eligible skip cs))) rules = []"
    | "select_entries_to_evict_for_retention cs rules ev skip now =
        (case ev of AnyMatch \<Rightarrow> \<Union> (set (List.map_filter (rule_set now (newest_first (eligible skip cs))) rules))
         | AllMatch \<Rightarrow> intersect_all (List.map_filter (rule_set now (newest_first (eligible skip cs))) rules))"
      and "List.map_filter (rule_set now (newest_first (eligible skip cs))) rules \<noteq> []"
proof -
  let ?sets = "List.map_filter (rule_set now (newest_first (eligible skip cs))) rules"
  have "select_entries_to_evict_for_retention cs rules ev skip now =
      (if eligible skip cs = [] \<or> ?sets = [] then {}
       else (case ev of AnyMatch \<Rightarrow> \<Union> (set ?sets) | AllMatch \<Rightarrow> intersect_all ?sets))"
    by (cases ev) (simp_all add: select_entries_to_evict_for_retention_def Let_def eligible_def newest_first_def)
  then show thesis using that by (cases "eligible skip cs = [] \<or> ?sets = []") simp_all
qed

lemma retention_old_closed:
  assumes "distinct (map rc_id cs)"
  shows "old_closed (eligible skip cs) (select_entries_to_evict_for_retention cs rules ev skip now)"
proof -
  have d: "distinct (map rc_id (eligible skip cs))"
    using assms by (simp add: eligible_def distinct_map_filter')
  have each: "\<forall>V \<in> set (List.map_filter (rule_set now (newest_first (eligible skip cs))) rules). old_closed (eligible skip cs) V"
    using rule_set_old_closed [OF d] by (auto simp: List.map_filter_def)
  show ?thesis
  proof (rule retention_sets [of cs rules ev skip now])
    assume "select_entries_to_evict_for_retention cs rules ev skip now = {}"
    then show ?thesis by (simp add: old_closed_def)
  next
    assume "select_entries_to_evict_for_retention cs rules ev skip now =
        (case ev of AnyMatch \<Rightarrow> \<Union> (set (List.map_filter (rule_set now (newest_first (eligible skip cs))) rules))
         | AllMatch \<Rightarrow> intersect_all (List.map_filter (rule_set now (newest_first (eligible skip cs))) rules))"
    then show ?thesis
      using old_closed_Union [OF each] old_closed_intersect_all [OF each] by (cases ev) simp_all
  qed
qed

lemma rule_in_sets:
  "\<lbrakk>rule \<in> set rules; rule_set now xs rule = Some V\<rbrakk> \<Longrightarrow> V \<in> set (List.map_filter (rule_set now xs) rules)"
  by (force simp: List.map_filter_def)

lemma retention_any:
  assumes "rule \<in> set rules" and "rule_set now (newest_first (eligible skip cs)) rule = Some V"
  shows "V \<subseteq> select_entries_to_evict_for_retention cs rules AnyMatch skip now"
proof -
  note V = rule_in_sets [OF assms]
  show ?thesis
  proof (rule retention_sets [of cs rules AnyMatch skip now])
    assume "eligible skip cs = [] \<or> List.map_filter (rule_set now (newest_first (eligible skip cs))) rules = []"
    then have "eligible skip cs = []" using V by auto
    then have "V = {}" using assms(2) by (cases rule) (auto simp: newest_first_def)
    then show ?thesis by simp
  qed (use V in auto)
qed

lemma retention_all:
  assumes "rule \<in> set rules" and "rule_set now (newest_first (eligible skip cs)) rule = Some V"
  shows "select_entries_to_evict_for_retention cs rules AllMatch skip now \<subseteq> V"
proof -
  note V = rule_in_sets [OF assms]
  show ?thesis
    by (rule retention_sets [of cs rules AllMatch skip now]) (use intersect_all_subset [OF V] in auto)
qed

section \<open>What the quota evicts\<close>

definition disk_total :: "disk_backed list \<Rightarrow> nat" where
  "disk_total xs = sum_list (map db_bytes xs)"

lemma disk_total_simps [simp]: "disk_total [] = 0" "disk_total (x # xs) = db_bytes x + disk_total xs"
  by (simp_all add: disk_total_def)

lemma evict_oldest_spec:
  assumes "freed + disk_total xs = tot" and "tot < 2 ^ 64"
  shows "\<exists>n. evict_oldest tot quota freed xs = map db_id (take n xs) \<and> (xs \<noteq> [] \<longrightarrow> n < length xs) \<and>
    (disk_total (drop n xs) \<le> quota \<or> n = length xs - 1) \<and> (\<forall>m < n. quota < disk_total (drop m xs))"
  using assms
proof (induction xs arbitrary: freed)
  case Nil
  then show ?case by auto
next
  case (Cons x xs)
  have left: "tot - freed = disk_total (x # xs)" using Cons.prems by simp
  show ?case
  proof (cases "tot - freed \<le> quota \<or> xs = []")
    case True
    then show ?thesis using left by (intro exI [of _ 0]) auto
  next
    case False
    have "(freed + db_bytes x) mod 2 ^ 64 = freed + db_bytes x" using Cons.prems by simp
    then obtain n where n: "evict_oldest tot quota ((freed + db_bytes x) mod 2 ^ 64) xs = map db_id (take n xs)"
      "xs \<noteq> [] \<longrightarrow> n < length xs" "disk_total (drop n xs) \<le> quota \<or> n = length xs - 1"
      "\<forall>m < n. quota < disk_total (drop m xs)"
      using Cons.IH [of "freed + db_bytes x"] Cons.prems by auto
    have "\<forall>m < Suc n. quota < disk_total (drop m (x # xs))"
      using n(4) False left by (auto simp: less_Suc_eq_0_disj)
    then show ?thesis
      using n False by (intro exI [of _ "Suc n"]) auto
  qed
qed

end
