(* ===== verification/History_Removal.thy ===== *)
theory History_Removal
  imports History_Cleanup
begin

text \<open>
  What the removals from the history keep: the invariant of the tables, and the files outside the
  file cache.
\<close>

section \<open>What a deletion leaves\<close>

lemma cleanup_cache_history [simp]: "ar_history (cleanup_cache_files url_path dir e event a) = ar_history a"
  by (auto simp: cleanup_cache_files_def split: option.split sum.split)

lemma delete_uc_cases:
  assumes "delete_entry_uc url_path dir e i a = (r, a')"
  obtains (Absent) err where "r = Inl err" and "a' = a"
    | (Broken) err entry where "r = Inl err" and "entry_of i (ar_history a) = Some entry"
        and "ar_history a' = ar_history a \<or> ar_history a' = snd (delete_selection False i (ar_history a)) \<or>
          ar_history a' = snd (delete_entry False i (snd (delete_selection False i (ar_history a))))"
        and "ar_disk a' = ar_disk (cleanup_cache_files url_path dir e (ce_event entry) a)"
    | (Deleted) entry where "r = Inr ()" and "entry_of i (ar_history a) = Some entry"
        and "\<forall>x \<in> set (hi_entries (ar_history a)). ce_id x \<noteq> i \<longrightarrow> ce_event x \<noteq> ce_event entry"
        and "ar_history a' = snd (delete_event_and_representations False (ce_event entry)
          (snd (delete_entry False i (snd (delete_selection False i (ar_history a))))))"
        and "ar_disk a' = ar_disk (cleanup_cache_files url_path dir e (ce_event entry) a)"
proof (cases "de_get_fails e \<or> entry_of i (ar_history a) = None")
  case True
  then have "\<exists>err. r = Inl err \<and> a' = a"
    using assms by (auto simp: delete_entry_uc_def get_entry_def split: if_splits)
  then show thesis using Absent by blast
next
  case False
  then obtain entry where entry: "entry_of i (ar_history a) = Some entry" by auto
  then have get: "get_entry (de_get_fails e) i (ar_history a) = Inr (Some entry)"
    using False by (simp add: get_entry_def)
  define a1 where "a1 = cleanup_cache_files url_path dir e (ce_event entry) a"
  define h1 where "h1 = snd (delete_selection False i (ar_history a))"
  define h2 where "h2 = snd (delete_entry False i h1)"
  have hist: "ar_history a1 = ar_history a" by (simp add: a1_def)
  note eqn = assms [unfolded delete_entry_uc_def get sum.case option.case Let_def, folded a1_def, unfolded hist]
  note broken = Broken [OF _ entry, folded a1_def h1_def h2_def]
  show thesis
  proof (cases "de_selection_fails e")
    case True
    then have "r = Inl ''Failed to delete selection'' \<and> a' = a1\<lparr>ar_history := ar_history a\<rparr>"
      using eqn by (simp add: delete_selection_def)
    then show thesis using broken by simp
  next
    case s: False
    then have sel: "delete_selection (de_selection_fails e) i (ar_history a) = (Inr (), h1)"
      by (simp add: delete_selection_def h1_def)
    show thesis
    proof (cases "de_entry_fails e")
      case True
      then have "r = Inl ''Failed to delete entry'' \<and> a' = a1\<lparr>ar_history := h1\<rparr>"
        using eqn by (simp add: sel delete_entry_def)
      then show thesis using broken by simp
    next
      case f: False
      then have ent: "delete_entry (de_entry_fails e) i h1 = (Inr (), h2)" by (simp add: delete_entry_def h2_def)
      have es: "hi_entries h2 = filter (\<lambda>x. ce_id x \<noteq> i) (hi_entries (ar_history a))"
        by (simp add: delete_entry_def delete_selection_def h1_def h2_def)
      show thesis
      proof (cases "de_event_fails e \<or> (\<exists>x \<in> set (hi_entries h2). ce_event x = ce_event entry)")
        case True
        then have ev: "delete_event_and_representations (de_event_fails e) (ce_event entry) h2 = (Inl ''db'', h2)"
          by (simp add: delete_event_and_representations_def)
        have "r = Inl ''Failed to delete event'' \<and> a' = a1\<lparr>ar_history := h2\<rparr>"
          using eqn by (simp add: sel ent ev)
        then show thesis using broken by simp
      next
        case ok: False
        then have ev: "delete_event_and_representations (de_event_fails e) (ce_event entry) h2 =
            (Inr (), snd (delete_event_and_representations False (ce_event entry) h2))"
          by (simp add: delete_event_and_representations_def)
        have res: "r = Inr () \<and> a' = a1\<lparr>ar_history := snd (delete_event_and_representations False (ce_event entry) h2)\<rparr>"
          using eqn by (simp add: sel ent ev)
        show thesis
          by (rule Deleted [OF _ entry, folded a1_def h1_def h2_def]) (use res ok es in auto)
      qed
    qed
  qed
qed

lemma delete_uc_inv:
  assumes "history_inv (ar_history a)" and "delete_entry_uc url_path dir e i a = (r, a')"
  shows "history_inv (ar_history a')"
  using assms(2)
proof (cases rule: delete_uc_cases)
  case (Broken err entry)
  then show ?thesis using assms(1) delete_entry_inv delete_selection_inv by metis
next
  case (Deleted entry)
  then show ?thesis using assms(1) delete_entry_inv delete_selection_inv delete_event_inv by simp
qed (use assms in simp)

lemma delete_each_Cons:
  assumes "delete_entry_uc url_path dir (envs i) i a = (r, a1)"
  shows "snd (delete_each url_path dir envs (i # ids) a) = snd (delete_each url_path dir envs ids a1)"
  by (cases "delete_each url_path dir envs ids a1") (simp add: assms)

lemma delete_each_inv:
  "history_inv (ar_history a) \<Longrightarrow> history_inv (ar_history (snd (delete_each url_path dir envs ids a)))"
proof (induction ids arbitrary: a)
  case (Cons i ids)
  obtain r a1 where d: "delete_entry_uc url_path dir (envs i) i a = (r, a1)"
    by (cases "delete_entry_uc url_path dir (envs i) i a")
  then have "history_inv (ar_history (snd (delete_each url_path dir envs ids a1)))"
    using Cons delete_uc_inv by blast
  then show ?case by (simp only: delete_each_Cons [of _ _ envs, OF d])
qed simp

section \<open>Files outside the cache\<close>

lemma go_to_plain: "''..'' \<notin> set p \<Longrightarrow> go_to cur p = cur @ p"
  by (induction p arbitrary: cur) auto

lemma map_of_without: "map_of (without p d) q = (if q = go_to [] p then None else map_of d q)"
  by (induction d) (auto simp: without_def)

definition untouched :: "path \<Rightarrow> disk \<Rightarrow> disk \<Rightarrow> bool" where
  "untouched dir d d' \<longleftrightarrow> (\<forall>q. \<not> starts_with dir q \<longrightarrow> map_of d' q = map_of d q)"

lemma untouched_refl [simp]: "untouched dir d d"
  by (simp add: untouched_def)

lemma untouched_trans: "\<lbrakk>untouched dir d d'; untouched dir d' d''\<rbrakk> \<Longrightarrow> untouched dir d d''"
  by (simp add: untouched_def)

lemma untouched_without: "\<lbrakk>starts_with dir p; ''..'' \<notin> set p\<rbrakk> \<Longrightarrow> untouched dir d (without p d)"
  by (auto simp: untouched_def map_of_without go_to_plain)

lemma untouched_remove_file: "\<lbrakk>starts_with dir p; ''..'' \<notin> set p\<rbrakk> \<Longrightarrow> untouched dir d (snd (remove_file io p d))"
  by (auto simp: remove_file_def untouched_without split: option.split disk_node.split)

lemma untouched_remove_dir: "\<lbrakk>starts_with dir p; ''..'' \<notin> set p\<rbrakk> \<Longrightarrow> untouched dir d (remove_dir io p d)"
  by (simp add: remove_dir_def untouched_without)

lemma remove_cached_untouched:
  "\<forall>p \<in> set ps. ''..'' \<notin> set p \<Longrightarrow> untouched dir d (remove_cached io dir ps d)"
proof (induction ps arbitrary: d)
  case (Cons p ps)
  show ?case
  proof (cases "starts_with dir p")
    case False
    then show ?thesis using Cons by simp
  next
    case True
    obtain ok d1 where d1: "remove_file io p d = (ok, d1)" by (cases "remove_file io p d")
    then have u1: "untouched dir d d1"
      using untouched_remove_file [OF True, of d io] Cons.prems by simp
    let ?d2 = "if p \<noteq> [] \<and> butlast p \<noteq> dir \<and> starts_with dir (butlast p) then remove_dir io (butlast p) d1 else d1"
    have "''..'' \<notin> set (butlast p)" using Cons.prems by (auto dest: in_set_butlastD)
    then have "untouched dir d1 ?d2" using untouched_remove_dir [of dir "butlast p" d1 io] by simp
    then have u2: "untouched dir d ?d2" by (rule untouched_trans [OF u1])
    show ?thesis
      using True d1 Cons.IH [of d1] Cons.IH [of ?d2] Cons.prems untouched_trans [OF u1] untouched_trans [OF u2]
      by (cases ok) auto
  qed
qed simp

text \<open>No representation names a path with \<^verbatim>\<open>..\<close> in it.\<close>

definition plain_tables :: "(string \<Rightarrow> string option) \<Rightarrow> history \<Rightarrow> bool" where
  "plain_tables url_path h \<longleftrightarrow>
     (\<forall>i row p. st_reps (hi_store h) i = Some row \<and> to_domain i row = Inr p \<longrightarrow>
        (\<forall>q \<in> set (rep_paths url_path p). ''..'' \<notin> set q))"

lemma map_results_member: "\<lbrakk>map_results f xs = Inr ys; y \<in> set ys\<rbrakk> \<Longrightarrow> \<exists>x \<in> set xs. f x = Inr y"
  by (induction xs arbitrary: ys) (auto split: sum.splits)

lemma event_reps_rows:
  assumes "get_representations_for_event f ids event h = Inr reps" and "p \<in> set reps"
  shows "\<exists>i row. st_reps (hi_store h) i = Some row \<and> rr_event row = event \<and> to_domain i row = Inr p"
  using map_results_member [OF _ assms(2)] assms(1)
  by (fastforce simp: get_representations_for_event_def List.map_filter_def split: if_splits option.splits)

lemma event_paths_plain:
  assumes "plain_tables url_path h" and "get_representations_for_event f ids event h = Inr reps"
  shows "\<forall>q \<in> set (concat (map (rep_paths url_path) reps)). ''..'' \<notin> set q"
  using event_reps_rows [OF assms(2)] assms(1) by (fastforce simp: plain_tables_def)

lemma plain_tables_mono: "\<lbrakk>plain_tables url_path h; st_reps (hi_store h') \<subseteq>\<^sub>m st_reps (hi_store h)\<rbrakk> \<Longrightarrow> plain_tables url_path h'"
  unfolding plain_tables_def map_le_def by (metis domI)

lemma delete_uc_shrinks:
  assumes "delete_entry_uc url_path dir e i a = (r, a')"
  shows "st_reps (hi_store (ar_history a')) \<subseteq>\<^sub>m st_reps (hi_store (ar_history a))"
  using assms
proof (cases rule: delete_uc_cases)
  case (Broken err entry)
  then have "hi_store (ar_history a') = hi_store (ar_history a)"
    by (auto simp: delete_entry_def delete_selection_def)
  then show ?thesis by simp
next
  case (Deleted entry)
  have "drop_event_reps event tbl \<subseteq>\<^sub>m tbl" for event tbl
    by (auto simp: map_le_def drop_event_reps_def split: option.splits if_splits)
  then show ?thesis using Deleted(4)
    by (auto simp: delete_event_and_representations_def delete_entry_def delete_selection_def)
qed simp

lemma delete_uc_untouched:
  assumes "plain_tables url_path (ar_history a)" and "delete_entry_uc url_path (Some dir) e i a = (r, a')"
  shows "untouched dir (ar_disk a) (ar_disk a')"
proof -
  have clean: "untouched dir (ar_disk a) (ar_disk (cleanup_cache_files url_path (Some dir) e event a))" for event
    using event_paths_plain [OF assms(1)]
    by (auto simp: cleanup_cache_files_def remove_cached_untouched split: sum.split)
  from assms(2) show ?thesis
    by (cases rule: delete_uc_cases) (use clean in auto)
qed

lemma delete_each_untouched:
  "plain_tables url_path (ar_history a) \<Longrightarrow>
   untouched dir (ar_disk a) (ar_disk (snd (delete_each url_path (Some dir) envs ids a)))"
proof (induction ids arbitrary: a)
  case (Cons i ids)
  obtain r a1 where d: "delete_entry_uc url_path (Some dir) (envs i) i a = (r, a1)"
    by (cases "delete_entry_uc url_path (Some dir) (envs i) i a")
  have "plain_tables url_path (ar_history a1)"
    by (rule plain_tables_mono [OF Cons.prems delete_uc_shrinks [OF d]])
  from untouched_trans [OF delete_uc_untouched [OF Cons.prems d] Cons.IH [OF this]] show ?case
    by (simp only: delete_each_Cons [of _ _ envs, OF d])
qed simp

lemma in_concat_map: "x \<in> set (concat (map f xs)) \<Longrightarrow> \<exists>y \<in> set xs. x \<in> set (f y)"
  by auto

lemma collect_expired_within:
  "(q, n) \<in> set (collect_expired e d now secs dir) \<Longrightarrow> starts_with dir q \<and> q \<in> fst ` set d"
proof (induction e d now secs dir arbitrary: q n rule: collect_expired.induct)
  case (1 e d now secs dir)
  note mem = "1.prems" [unfolded collect_expired.simps [of e d now secs dir]]
  have ok: "\<not> dk_list_fails e dir" using mem by (cases "dk_list_fails e dir") simp_all
  from in_concat_map [OF mem [unfolded if_not_P [OF ok]]]
  obtain p where p1: "p \<in> set (map fst (children dir d))"
    and qn: "(q, n) \<in> set (if p \<in> set (map fst (children dir d)) \<and> strict_prefix dir p then
        (case map_of d p of
           Some DiskDir \<Rightarrow> collect_expired e d now secs p
         | Some (DiskFile content mtime) \<Rightarrow>
             if dk_meta_fails e p then []
             else
               (let age = (case mtime of Some m \<Rightarrow> i64_wrap (now - m) | None \<Rightarrow> 0) in
                if i64_sat (i64_wrap (int secs) * 1000) \<le> age then [(p, length content)] else [])
         | None \<Rightarrow> [])
      else [])"
    by (rule bexE) (rule that)
  have p2: "strict_prefix dir p"
  proof (rule ccontr)
    assume "\<not> strict_prefix dir p"
    then show False using qn by simp
  qed
  note p = p1 p2
  note qn' = qn [unfolded if_P [OF conjI [OF p1 p2]]]
  have q: "map_of d p = Some DiskDir \<and> (q, n) \<in> set (collect_expired e d now secs p) \<or> q = p"
  proof (cases "map_of d p")
    case None
    then show ?thesis using qn' by simp
  next
    case (Some nd)
    show ?thesis
    proof (cases nd)
      case (DiskFile content mtime)
      have "set (if dk_meta_fails e p then [] else
               (let age = (case mtime of Some m \<Rightarrow> i64_wrap (now - m) | None \<Rightarrow> 0) in
                if i64_sat (i64_wrap (int secs) * 1000) \<le> age then [(p, length content)] else [])) \<subseteq> {(p, length content)}"
        by (auto simp: Let_def)
      then show ?thesis using qn' by (simp only: Some DiskFile option.case disk_node.case) blast
    qed (use qn' Some in simp)
  qed
  have pre: "starts_with dir p" using p(2) by (auto simp: starts_with_def strict_prefix_def prefix_def)
  have mem: "p \<in> fst ` set d" using p(1) by (auto simp: children_def)
  show ?case
  proof (cases "q = p")
    case True
    then show ?thesis using pre mem by simp
  next
    case False
    then have "starts_with p q \<and> q \<in> fst ` set d"
      using "1.IH" [OF ok p(1)] p q by auto
    then show ?thesis using pre by (auto simp: starts_with_def) (metis min.absorb1 le_trans length_take nat_le_linear take_all take_take)
  qed
qed

text \<open>The paths of a disk are without \<^verbatim>\<open>..\<close>.\<close>

definition plain_disk :: "disk \<Rightarrow> bool" where
  "plain_disk d \<longleftrightarrow> (\<forall>q \<in> fst ` set d. ''..'' \<notin> set q)"

lemma remove_empty_dirs_untouched:
  "\<forall>q \<in> set qs. starts_with dir q \<and> ''..'' \<notin> set q \<Longrightarrow> untouched dir d (remove_empty_dirs k qs d)"
proof (induction qs arbitrary: d)
  case (Cons q qs)
  let ?d1 = "if map_of d q = Some DiskDir \<and> \<not> dk_list_fails k q then remove_dir (dk_io k) q d else d"
  have "untouched dir d ?d1" using Cons.prems by (simp add: untouched_remove_dir)
  moreover have "untouched dir ?d1 (remove_empty_dirs k qs ?d1)" using Cons.IH [of ?d1] Cons.prems by simp
  ultimately show ?case unfolding remove_empty_dirs.simps by (rule untouched_trans)
qed simp

lemma children_within:
  assumes "q \<in> set (map fst (children dir d))" and "''..'' \<notin> set dir" and "plain_disk d"
  shows "starts_with dir q \<and> ''..'' \<notin> set q"
proof -
  have "q \<noteq> []" and "butlast q = dir" and "q \<in> fst ` set d"
    using assms(1) go_to_plain [OF assms(2), of "[]"] by (auto simp: children_def)
  then have "q = dir @ [last q]" using append_butlast_last_id [of q] by simp
  then have "starts_with dir q" using starts_with_append [of dir "[last q]"] by simp
  then show ?thesis using assms(3) \<open>q \<in> fst ` set d\<close> by (auto simp: plain_disk_def)
qed

lemma without_plain: "plain_disk d \<Longrightarrow> plain_disk (without p d)"
  by (auto simp: plain_disk_def without_def)

lemma remove_file_plain: "plain_disk d \<Longrightarrow> plain_disk (snd (remove_file io p d))"
  by (simp add: remove_file_def without_plain split: option.split disk_node.split)

lemma remove_dir_plain: "plain_disk d \<Longrightarrow> plain_disk (remove_dir io p d)"
  by (simp add: remove_dir_def without_plain)

lemma remove_cached_plain: "plain_disk d \<Longrightarrow> plain_disk (remove_cached io dir ps d)"
proof (induction io dir ps d rule: remove_cached.induct)
  case (2 io dir p ps d)
  obtain ok d1 where d1: "remove_file io p d = (ok, d1)" by (cases "remove_file io p d")
  then have "plain_disk d1" using remove_file_plain [OF "2.prems", of io p] by simp
  then show ?case using "2.IH" "2.prems" d1 remove_dir_plain by (cases ok) auto
qed simp

lemma delete_uc_plain:
  assumes "plain_disk (ar_disk a)" and "delete_entry_uc url_path dir e i a = (r, a')"
  shows "plain_disk (ar_disk a')"
proof -
  have clean: "plain_disk (ar_disk (cleanup_cache_files url_path dir e event a))" for event
    using assms(1) by (simp add: cleanup_cache_files_def remove_cached_plain split: option.split sum.split)
  from assms(2) show ?thesis
    by (cases rule: delete_uc_cases) (use clean assms(1) in auto)
qed

text \<open>
  What a pass keeps: a predicate that every deletion of an entry keeps, and every removal of an
  expired file.
\<close>

lemma delete_each_keeps:
  assumes "P a" and "\<And>a i r a1. \<lbrakk>P a; delete_entry_uc url_path dir (envs i) i a = (r, a1)\<rbrakk> \<Longrightarrow> P a1"
  shows "P (snd (delete_each url_path dir envs ids a))"
  using assms(1)
proof (induction ids arbitrary: a)
  case (Cons i ids)
  obtain r a1 where d: "delete_entry_uc url_path dir (envs i) i a = (r, a1)"
    by (cases "delete_entry_uc url_path dir (envs i) i a")
  show ?case using Cons.IH [OF assms(2) [OF Cons.prems d]] by (simp only: delete_each_Cons [of _ _ envs, OF d])
qed simp

lemma route_expired_keeps:
  assumes "P a" and "\<And>a i r a1. \<lbrakk>P a; delete_entry_uc url_path (Some dir) (envs i) i a = (r, a1)\<rbrakk> \<Longrightarrow> P a1"
    and "\<And>a p n d. \<lbrakk>P a; (p, n) \<in> set expired; remove_file (dk_io k) p (ar_disk a) = (True, d)\<rbrakk> \<Longrightarrow> P (a\<lparr>ar_disk := d\<rparr>)"
  shows "P (snd (route_expired url_path dir k envs index handled expired res a))"
  using assms(1,3)
proof (induction expired arbitrary: handled res a)
  case (Cons x expired)
  obtain p sz where x: "x = (p, sz)" by (cases x)
  note rest = Cons.IH [OF _ Cons.prems(2) [OF _ list.set_intros(2)]]
  show ?case
  proof (cases "index p")
    case (Some i)
    obtain r a1 where d: "delete_entry_uc url_path (Some dir) (envs i) i a = (r, a1)"
      by (cases "delete_entry_uc url_path (Some dir) (envs i) i a")
    show ?thesis
      using rest [OF assms(2) [OF Cons.prems(1) d]] rest [OF Cons.prems(1)] Some d by (cases r) (simp_all add: x)
  next
    case None
    obtain ok d1 where d: "remove_file (dk_io k) p (ar_disk a) = (ok, d1)" by (cases "remove_file (dk_io k) p (ar_disk a)")
    have "P (a\<lparr>ar_disk := d1\<rparr>)" if ok
      using Cons.prems(2) [OF Cons.prems(1), of p sz] d that by (simp add: x)
    then show ?thesis
      using rest [of "a\<lparr>ar_disk := d1\<rparr>"] rest [OF Cons.prems(1)] None d by (cases ok) (simp_all add: x)
  qed
qed simp

text \<open>Files outside the cache keep their content, and no path with \<^verbatim>\<open>..\<close> appears.\<close>

definition confined :: "(string \<Rightarrow> string option) \<Rightarrow> path \<Rightarrow> disk \<Rightarrow> archive \<Rightarrow> bool" where
  "confined url_path dir d a \<longleftrightarrow>
     untouched dir d (ar_disk a) \<and> plain_tables url_path (ar_history a) \<and> plain_disk (ar_disk a)"

lemma delete_uc_confined:
  assumes "confined url_path dir d a" and "delete_entry_uc url_path (Some dir) e i a = (r, a')"
  shows "confined url_path dir d a'"
proof -
  have t: "plain_tables url_path (ar_history a)" and u: "untouched dir d (ar_disk a)" and p: "plain_disk (ar_disk a)"
    using assms(1) by (simp_all add: confined_def)
  show ?thesis unfolding confined_def
    using untouched_trans [OF u delete_uc_untouched [OF t assms(2)]] plain_tables_mono [OF t delete_uc_shrinks [OF assms(2)]]
      delete_uc_plain [OF p assms(2)] by simp
qed

lemma route_expired_confined:
  assumes "confined url_path dir d a" and "\<forall>(p, n) \<in> set expired. starts_with dir p \<and> ''..'' \<notin> set p"
  shows "confined url_path dir d (snd (route_expired url_path dir k envs index handled expired res a))"
proof (rule route_expired_keeps [where P = "confined url_path dir d", OF assms(1)])
  fix a1 i r a2
  assume "confined url_path dir d a1" and "delete_entry_uc url_path (Some dir) (envs i) i a1 = (r, a2)"
  then show "confined url_path dir d a2" by (rule delete_uc_confined)
next
  fix a1 p n d1
  assume a1: "confined url_path dir d a1" and "(p, n) \<in> set expired"
    and d1: "remove_file (dk_io k) p (ar_disk a1) = (True, d1)"
  then have p: "starts_with dir p" "''..'' \<notin> set p" using assms(2) by auto
  have "untouched dir (ar_disk a1) d1" using untouched_remove_file [OF p, of "ar_disk a1" "dk_io k"] d1 by simp
  moreover have "plain_disk d1" using remove_file_plain [of "ar_disk a1" "dk_io k" p] a1 d1 by (simp add: confined_def)
  ultimately show "confined url_path dir d (a1\<lparr>ar_disk := d1\<rparr>)"
    using a1 untouched_trans by (simp add: confined_def) blast
qed

lemma cleanup_empty_dirs_confined:
  assumes "confined url_path dir d a" and "''..'' \<notin> set dir"
  shows "confined url_path dir d (a\<lparr>ar_disk := cleanup_empty_dirs k dir (ar_disk a)\<rparr>)"
proof -
  have u: "untouched dir d (ar_disk a)" and p: "plain_disk (ar_disk a)" using assms(1) by (simp_all add: confined_def)
  have c: "\<forall>q \<in> set (map fst (children dir (ar_disk a))). starts_with dir q \<and> ''..'' \<notin> set q"
    using children_within [OF _ assms(2) p] by blast
  have plain: "plain_disk (remove_empty_dirs k qs x)" if "plain_disk x" for qs x
    using that by (induction qs arbitrary: x) (simp_all add: remove_dir_plain)
  show ?thesis
    using assms(1) untouched_trans [OF u remove_empty_dirs_untouched [OF c]] plain [OF p]
    by (simp add: confined_def cleanup_empty_dirs_def)
qed

lemma ttl_confined:
  assumes "confined url_path dir d a" and "''..'' \<notin> set dir"
    and "run_file_cache_ttl url_path dir k envs list_error reps_fail ids hours now res a = (r, res', a')"
  shows "confined url_path dir d a'"
proof -
  let ?expired = "collect_expired k (ar_disk a) now (hours * 3600) dir"
  have e: "\<forall>(p, n) \<in> set ?expired. starts_with dir p \<and> ''..'' \<notin> set p"
    using collect_expired_within assms(1) by (fastforce simp: confined_def plain_disk_def)
  show ?thesis
  proof (cases "node_at dir (ar_disk a) = None \<or> ?expired = []")
    case True
    then have "a' = a"
      using assms(3) by (cases "node_at dir (ar_disk a) = None") (simp_all add: run_file_cache_ttl_def Let_def)
    then show ?thesis using assms(1) by simp
  next
    case False
    then obtain y where y: "node_at dir (ar_disk a) = Some y" and ne: "?expired \<noteq> []" by auto
    show ?thesis
    proof (cases "build_reverse_index url_path dir list_error reps_fail ids (ar_history a)")
      case (Inl err)
      then show ?thesis using assms y ne by (simp add: run_file_cache_ttl_def Let_def)
    next
      case (Inr index)
      obtain res1 a1 where ra: "route_expired url_path dir k envs index {} ?expired res a = (res1, a1)"
        by (cases "route_expired url_path dir k envs index {} ?expired res a")
      have c1: "confined url_path dir d a1"
        using route_expired_confined [OF assms(1) e, of k envs index "{}" res] ra by simp
      have "a' = a1\<lparr>ar_disk := cleanup_empty_dirs k dir (ar_disk a1)\<rparr>"
        using assms(3) y ne Inr ra by (simp add: run_file_cache_ttl_def Let_def)
      then show ?thesis using cleanup_empty_dirs_confined [OF c1 assms(2)] by simp
    qed
  qed
qed

text \<open>The pass of the quota, whose only other write is its baseline file.\<close>

lemma run_quota_cases:
  assumes "run_quota url_path dir k envs list_error reps_fail ids quota skip_pinned now res a = (res', a')"
  obtains (Nothing) "a' = a"
    | (Baseline) p where "quota_baseline_path dir = Some p"
        and "a' = a\<lparr>ar_disk := snd (write_quota_baseline k p now (ar_disk a))\<rparr>"
    | (Evict) p baseline es where "quota \<noteq> 0" and "quota_baseline_path dir = Some p"
        and "read_quota_baseline k p (ar_disk a) = Inr (Some baseline)"
        and "collect_disk_backed_entries list_error reps_fail ids (ar_history a) = Inr es"
        and "a' = snd (delete_each url_path (Some dir) envs
          (select_entries_to_evict_for_quota (filter (\<lambda>x. baseline \<le> db_created x) es) quota skip_pinned) a)"
proof (cases "quota = 0 \<or> quota_baseline_path dir = None")
  case True
  then have "a' = a" using assms by (cases "quota = 0") (simp_all add: run_quota_def)
  then show thesis by (rule Nothing)
next
  case False
  then obtain p where p: "quota_baseline_path dir = Some p" and q: "quota \<noteq> 0" by auto
  note eqn = assms [unfolded run_quota_def p if_not_P [OF q] option.case]
  show thesis
  proof (cases "read_quota_baseline k p (ar_disk a)")
    case (Inl err)
    then have "a' = a" using eqn by simp
    then show thesis by (rule Nothing)
  next
    case (Inr found)
    note read = Inr
    show thesis
    proof (cases found)
      case None
      then show thesis using Baseline [OF p] eqn read by simp
    next
      case (Some baseline)
      note eqn = eqn [unfolded read Some sum.case option.case]
      show thesis
      proof (cases "collect_disk_backed_entries list_error reps_fail ids (ar_history a)")
        case (Inl err)
        then have "a' = a" using eqn by simp
        then show thesis by (rule Nothing)
      next
        case (Inr es)
        have "a' = snd (delete_each url_path (Some dir) envs
            (select_entries_to_evict_for_quota (filter (\<lambda>x. baseline \<le> db_created x) es) quota skip_pinned) a)"
          using eqn by (simp add: Inr Let_def split_beta)
        then show thesis using Evict [OF q p _ Inr] read Some by simp
      qed
    qed
  qed
qed

lemma baseline_path_plain: "\<lbrakk>''..'' \<notin> set dir; quota_baseline_path dir = Some p\<rbrakk> \<Longrightarrow> ''..'' \<notin> set p"
  by (auto simp: quota_baseline_path_def quota_baseline_file_def dest: in_set_butlastD split: if_splits)

lemma run_quota_untouched:
  assumes "confined url_path dir d a" and "''..'' \<notin> set dir" and "\<not> starts_with dir q" and "quota_baseline_path dir \<noteq> Some q"
    and "run_quota url_path dir k envs list_error reps_fail ids quota skip_pinned now res a = (res', a')"
  shows "map_of (ar_disk a') q = map_of d q"
proof -
  have here: "map_of (ar_disk a) q = map_of d q" using assms(1,3) by (simp add: confined_def untouched_def)
  from assms(5) show ?thesis
  proof (cases rule: run_quota_cases)
    case Nothing
    then show ?thesis using here by simp
  next
    case (Baseline p)
    have "go_to [] p = p" using go_to_plain [OF baseline_path_plain [OF assms(2) Baseline(1)], of "[]"] by simp
    then show ?thesis using Baseline assms(4) here by (auto simp: write_quota_baseline_def map_of_without)
  next
    case (Evict p baseline es)
    have "confined url_path dir d a'" unfolding Evict(5)
      by (rule delete_each_keeps [where P = "confined url_path dir d", OF assms(1)]) (rule delete_uc_confined)
    then show ?thesis using assms(3) by (simp add: confined_def untouched_def)
  qed
qed

lemma cleanup_files_untouched:
  assumes "plain_tables url_path (ar_history a)" and "plain_disk (ar_disk a)" and "''..'' \<notin> set dir"
    and "\<not> starts_with dir q" and "quota_baseline_path dir \<noteq> Some q"
    and "cleanup_expired_files url_path dir k envs list_error reps_fail ids settings now a = (r, a')"
  shows "map_of (ar_disk a') q = map_of (ar_disk a) q"
proof (cases "\<exists>fs. settings = Inr fs \<and> fs_auto_cleanup fs")
  case False
  then have "a' = a" using assms(6) by (auto simp: cleanup_expired_files_def split: sum.splits if_splits)
  then show ?thesis by simp
next
  case True
  then obtain fs where fs: "settings = Inr fs" "fs_auto_cleanup fs" by blast
  obtain r1 res1 a1 where t: "run_file_cache_ttl url_path dir k envs list_error reps_fail ids (fs_retention_hours fs) now no_cleanup a = (r1, res1, a1)"
    by (cases "run_file_cache_ttl url_path dir k envs list_error reps_fail ids (fs_retention_hours fs) now no_cleanup a")
  let ?res = "if isl r1 then res1\<lparr>cr_errors := cr_errors res1 + 1\<rparr> else res1"
  obtain res2 a2 where u: "run_quota url_path dir k envs list_error reps_fail ids (fs_quota fs) (fs_skip_pinned fs) now ?res a1 = (res2, a2)"
    by (cases "run_quota url_path dir k envs list_error reps_fail ids (fs_quota fs) (fs_skip_pinned fs) now ?res a1")
  have "confined url_path dir (ar_disk a) a" using assms(1,2) by (simp add: confined_def)
  from ttl_confined [OF this assms(3) t] have "confined url_path dir (ar_disk a) a1" .
  from run_quota_untouched [OF this assms(3-5) u] have "map_of (ar_disk a2) q = map_of (ar_disk a) q" .
  moreover have "a' = a2" using assms(6) fs t u by (simp add: cleanup_expired_files_def Let_def)
  ultimately show ?thesis by simp
qed

section \<open>What a deletion removes and what it keeps\<close>

text \<open>Entry \<open>j\<close> with its selection, its event and the rows of its event.\<close>

definition entry_kept :: "string \<Rightarrow> history \<Rightarrow> history \<Rightarrow> bool" where
  "entry_kept j h h' \<longleftrightarrow>
     entry_of j h' = entry_of j h \<and> hi_selections h' j = hi_selections h j \<and>
     (\<forall>e. entry_of j h = Some e \<longrightarrow> event_of (ce_event e) h' = event_of (ce_event e) h \<and>
       (\<forall>r row. st_reps (hi_store h) r = Some row \<and> rr_event row = ce_event e \<longrightarrow> st_reps (hi_store h') r = Some row))"

lemma find_filter: "(\<And>x. Q x \<Longrightarrow> P x) \<Longrightarrow> find Q (filter P xs) = find Q xs"
  by (induction xs) auto

lemma entry_kept_refl [simp]: "entry_kept j h h"
  by (simp add: entry_kept_def)

lemma entry_kept_trans: "\<lbrakk>entry_kept j h h'; entry_kept j h' h''\<rbrakk> \<Longrightarrow> entry_kept j h h''"
  by (auto simp: entry_kept_def)

lemma delete_selection_kept: "j \<noteq> i \<Longrightarrow> entry_kept j h (snd (delete_selection f i h))"
  by (simp add: entry_kept_def delete_selection_def entry_of_def event_of_def)

lemma delete_entry_kept: "j \<noteq> i \<Longrightarrow> entry_kept j h (snd (delete_entry f i h))"
  by (auto simp: entry_kept_def delete_entry_def entry_of_def event_of_def intro: find_filter)

lemma delete_event_kept:
  assumes "\<forall>e \<in> set (hi_entries h). ce_event e \<noteq> event"
  shows "entry_kept j h (snd (delete_event_and_representations f event h))"
proof -
  have "ce_event e \<noteq> event" if "entry_of j h = Some e" for e
    using assms that by (auto simp: entry_of_def find_Some_iff)
  then show ?thesis
    by (auto simp: entry_kept_def delete_event_and_representations_def entry_of_def event_of_def drop_event_reps_Some
        intro!: find_filter)
qed

lemma delete_uc_kept:
  assumes "j \<noteq> i" and "delete_entry_uc url_path dir e i a = (r, a')"
  shows "entry_kept j (ar_history a) (ar_history a')"
proof -
  note sel = delete_selection_kept [OF assms(1), of "ar_history a" False]
  note ent = entry_kept_trans [OF sel delete_entry_kept [OF assms(1), of _ False]]
  from assms(2) show ?thesis
  proof (cases rule: delete_uc_cases)
    case (Broken err entry)
    then show ?thesis using sel ent by (elim disjE) simp_all
  next
    case (Deleted entry)
    let ?h2 = "snd (delete_entry False i (snd (delete_selection False i (ar_history a))))"
    have "\<forall>e \<in> set (hi_entries ?h2). ce_event e \<noteq> ce_event entry"
      using Deleted(3) by (auto simp: delete_entry_def delete_selection_def)
    from entry_kept_trans [OF ent delete_event_kept [OF this, of j False]] show ?thesis
      by (simp add: Deleted(4))
  qed simp
qed

lemma delete_uc_gone:
  assumes "delete_entry_uc url_path dir e i a = (Inr (), a')"
  obtains entry where "entry_of i (ar_history a) = Some entry"
    and "hi_entries (ar_history a') = filter (\<lambda>x. ce_id x \<noteq> i) (hi_entries (ar_history a))"
    and "hi_selections (ar_history a') i = None"
    and "event_of (ce_event entry) (ar_history a') = None"
    and "\<forall>r row. st_reps (hi_store (ar_history a')) r = Some row \<longrightarrow> rr_event row \<noteq> ce_event entry"
  using assms
proof (cases rule: delete_uc_cases)
  case (Deleted entry)
  have none: "\<forall>x \<in> set (hi_entries (ar_history a)). ce_id x \<noteq> i \<longrightarrow> ce_event x \<noteq> ce_event entry" by (rule Deleted(3))
  show thesis
    by (rule that [OF Deleted(2)])
      (use none in \<open>auto simp: Deleted(4) delete_event_and_representations_def delete_entry_def delete_selection_def
        event_of_None drop_event_reps_Some\<close>)
qed simp_all

text \<open>A pass deletes no entry that it was not given.\<close>

lemma delete_each_kept:
  "j \<notin> set ids \<Longrightarrow> entry_kept j (ar_history a) (ar_history (snd (delete_each url_path dir envs ids a)))"
proof (induction ids arbitrary: a)
  case (Cons i ids)
  obtain r a1 where d: "delete_entry_uc url_path dir (envs i) i a = (r, a1)"
    by (cases "delete_entry_uc url_path dir (envs i) i a")
  have "entry_kept j (ar_history a) (ar_history a1)" using delete_uc_kept [OF _ d] Cons.prems by simp
  then show ?case using Cons.IH [of a1] Cons.prems entry_kept_trans
    unfolding delete_each_Cons [of _ _ envs, OF d] by simp
qed simp

lemma collect_entries_result:
  "collect_entries db_error offset h = Inr es \<Longrightarrow> es = drop offset (sort_key (\<lambda>e. - ce_active e) (hi_entries h))"
proof (induction db_error offset h arbitrary: es rule: collect_entries.induct)
  case (1 db_error offset h)
  let ?xs = "drop offset (sort_key (\<lambda>e. - ce_active e) (hi_entries h))"
  show ?case
  proof (cases "list_entries (db_error offset) entry_list_batch_size offset h")
    case (Inl err)
    then show ?thesis using "1.prems" by (subst (asm) collect_entries.simps) simp
  next
    case (Inr batch)
    then have b: "batch = take entry_list_batch_size ?xs" by (auto simp: list_entries_def split: if_splits)
    show ?thesis
    proof (cases "batch = [] \<or> length batch < entry_list_batch_size")
      case True
      then have "es = batch" using "1.prems" Inr by (subst (asm) collect_entries.simps) (auto split: if_splits)
      moreover have "length ?xs \<le> entry_list_batch_size"
        using True by (auto simp: b entry_list_batch_size_def min_def split: if_splits)
      ultimately show ?thesis using b by simp
    next
      case False
      then obtain rest where r: "collect_entries db_error (offset + length batch) h = Inr rest" "es = batch @ rest"
        using "1.prems" Inr by (subst (asm) collect_entries.simps) (auto split: if_splits sum.splits)
      have "rest = drop (length batch) ?xs" using "1.IH" [OF Inr _ _ r(1)] False by (simp add: add.commute)
      moreover have "length batch = entry_list_batch_size" using False b by (simp add: min_def split: if_splits)
      ultimately show ?thesis unfolding r(2) by (simp only: b append_take_drop_id)
    qed
  qed
qed

lemma collected_entries:
  assumes "history_inv h" and "collect_entries db_error 0 h = Inr es"
  shows "set es = set (hi_entries h) \<and> distinct (map ce_id es)"
proof -
  have es: "es = sort_key (\<lambda>e. - ce_active e) (hi_entries h)" using collect_entries_result [OF assms(2)] by simp
  have "mset (map ce_id es) = mset (map ce_id (hi_entries h))" by (simp add: es)
  moreover have "distinct (map ce_id (hi_entries h))" using assms(1) by (simp add: history_inv_def)
  ultimately have "distinct (map ce_id es)" by (metis mset_eq_imp_distinct_iff)
  then show ?thesis by (simp add: es)
qed

lemma favorites_not_selected:
  assumes "distinct (map ce_id es)" and "e \<in> set es" and "ce_favorite e"
  shows "ce_id e \<notin> select_entries_to_evict_for_retention (map candidate_of es) rules ev True now"
proof
  let ?V = "select_entries_to_evict_for_retention (map candidate_of es) rules ev True now"
  assume v: "ce_id e \<in> ?V"
  have "distinct (map rc_id (map candidate_of es))" using assms(1) by (simp add: comp_def candidate_of_def)
  from retention_old_closed [OF this, of True rules ev now]
  have "?V \<subseteq> rc_id ` set (eligible True (map candidate_of es))" by (simp add: old_closed_def)
  then obtain x where "x \<in> set es" "ce_id x = ce_id e" "\<not> ce_favorite x"
    using v by (auto simp: eligible_def candidate_of_def)
  moreover have "inj_on ce_id (set es)" using assms(1) by (simp add: distinct_map)
  ultimately have "x = e" using assms(2) by (auto dest: inj_onD)
  then show False using \<open>\<not> ce_favorite x\<close> assms(3) by simp
qed

lemma retention_keeps_favorite:
  assumes "history_inv (ar_history a)" and "e \<in> set (hi_entries (ar_history a))" and "ce_favorite e"
    and "rp_skip_pinned policy" and "\<And>V. set (enum V) \<subseteq> V"
    and "enforce_retention url_path dir envs enum list_error (Inr policy) now a = (r, a')"
  shows "entry_kept (ce_id e) (ar_history a) (ar_history a')"
proof (cases "rp_enabled policy \<and> list_all supported_rule (rp_rules policy) \<and> (\<exists>es. collect_entries list_error 0 (ar_history a) = Inr es)")
  case False
  then have "a' = a" using assms(6)
    by (cases "collect_entries list_error 0 (ar_history a)") (auto simp: enforce_retention_def split: if_splits)
  then show ?thesis by simp
next
  case True
  then obtain es where es: "collect_entries list_error 0 (ar_history a) = Inr es" by blast
  note mem = collected_entries [OF assms(1) es]
  let ?V = "select_entries_to_evict_for_retention (map candidate_of es) (rp_rules policy) (rp_evaluation policy) True now"
  have "ce_id e \<notin> ?V" by (rule favorites_not_selected) (use mem assms(2,3) in auto)
  then have "ce_id e \<notin> set (enum ?V)" using assms(5) by blast
  moreover have "a' = snd (delete_each url_path dir envs (enum ?V) a)"
    using assms(6) True es assms(4) by (simp add: enforce_retention_def Let_def split_beta)
  ultimately show ?thesis using delete_each_kept by simp
qed

lemma evict_oldest_members: "set (evict_oldest tot quota freed xs) \<subseteq> db_id ` set xs"
  by (induction tot quota freed xs rule: evict_oldest.induct) auto

lemma map_filter_member: "x \<in> set (List.map_filter f xs) \<longleftrightarrow> (\<exists>y \<in> set xs. f y = Some x)"
  by (force simp: List.map_filter_def)

lemma disk_backed_of_Some:
  "disk_backed_of reps_fail ids h e = Some x \<Longrightarrow> db_id x = ce_id e \<and> db_favorite x = ce_favorite e"
  by (auto simp: disk_backed_of_def Let_def split: sum.splits if_splits)

lemma quota_keeps_favorite:
  assumes "history_inv (ar_history a)" and "e \<in> set (hi_entries (ar_history a))" and "ce_favorite e"
    and "run_quota url_path dir k envs list_error reps_fail ids quota True now res a = (res', a')"
  shows "entry_kept (ce_id e) (ar_history a) (ar_history a')"
  using assms(4)
proof (cases rule: run_quota_cases)
  case (Evict p baseline xs)
  let ?victims = "select_entries_to_evict_for_quota (filter (\<lambda>x. baseline \<le> db_created x) xs) quota True"
  obtain es where es: "collect_entries list_error 0 (ar_history a) = Inr es"
    and xs: "xs = List.map_filter (disk_backed_of reps_fail ids (ar_history a)) es"
    using Evict(4) by (auto simp: collect_disk_backed_entries_def split: sum.splits)
  note mem = collected_entries [OF assms(1) es]
  have "ce_id e \<notin> set ?victims"
  proof
    assume "ce_id e \<in> set ?victims"
    then have "ce_id e \<in> db_id ` {x \<in> set xs. \<not> db_favorite x}"
      using evict_oldest_members
      by (fastforce simp: select_entries_to_evict_for_quota_def Let_def split: if_splits)
    then obtain x where x: "x \<in> set xs" "db_id x = ce_id e" "\<not> db_favorite x" by auto
    then obtain f where "f \<in> set es" and "disk_backed_of reps_fail ids (ar_history a) f = Some x"
      by (auto simp: xs map_filter_member)
    then have f: "f \<in> set es" "ce_id f = db_id x" "ce_favorite f = db_favorite x"
      using disk_backed_of_Some by auto
    have "inj_on ce_id (set es)" using mem distinct_map by blast
    then have "f = e" using f x mem assms(2) by (auto dest: inj_onD)
    then show False using f x assms(3) by simp
  qed
  then show ?thesis unfolding Evict(5) by (rule delete_each_kept)
qed simp_all

lemma quota_selection:
  assumes "0 < quota" and "E = (if skip_pinned then filter (\<lambda>x. \<not> db_favorite x) entries else entries)"
    and "disk_total E < 2 ^ 64"
  shows "\<exists>n. select_entries_to_evict_for_quota entries quota skip_pinned = map db_id (take n (sort_key db_created E)) \<and>
    (E \<noteq> [] \<longrightarrow> n < length E) \<and>
    (disk_total (drop n (sort_key db_created E)) \<le> quota \<or> n = length E - 1) \<and>
    (\<forall>m < n. quota < disk_total (drop m (sort_key db_created E)))"
proof (cases "E = []")
  case True
  then show ?thesis using assms(2) by (auto simp: select_entries_to_evict_for_quota_def Let_def)
next
  case False
  let ?s = "sort_key db_created E"
  have "mset (map db_bytes ?s) = mset (map db_bytes E)" by simp
  then have t: "disk_total ?s = disk_total E"
    unfolding disk_total_def by (metis sum_mset_sum_list)
  have "select_entries_to_evict_for_quota entries quota skip_pinned = evict_oldest (disk_total E) quota 0 ?s"
    using assms(1,3) False t
    by (simp add: select_entries_to_evict_for_quota_def Let_def assms(2) [symmetric] disk_total_def [symmetric] del: if_split)
  moreover have "?s \<noteq> []" using False by (metis length_0_conv length_sort)
  ultimately show ?thesis using evict_oldest_spec [of 0 ?s "disk_total E" quota] t assms(3) by auto
qed

lemma retention_by_count:
  assumes "ByCount n \<in> set rules"
  shows "ev = AnyMatch \<Longrightarrow>
      card (rc_id ` set (eligible skip cs) - select_entries_to_evict_for_retention cs rules ev skip now) \<le> n"
    and "ev = AllMatch \<Longrightarrow> select_entries_to_evict_for_retention cs rules ev skip now \<subseteq> rc_id ` set (drop n (newest_first (eligible skip cs)))"
proof -
  let ?xs = "newest_first (eligible skip cs)"
  have V: "rule_set now ?xs (ByCount n) = Some (rc_id ` set (drop n ?xs))" by simp
  show "ev = AllMatch \<Longrightarrow> select_entries_to_evict_for_retention cs rules ev skip now \<subseteq> rc_id ` set (drop n ?xs)"
    using retention_all [OF assms V] by simp
  assume ev: "ev = AnyMatch"
  have "set (eligible skip cs) = set (take n ?xs) \<union> set (drop n ?xs)"
    by (metis append_take_drop_id newest_first_def set_append set_sort)
  then have "rc_id ` set (eligible skip cs) - select_entries_to_evict_for_retention cs rules ev skip now \<subseteq> rc_id ` set (take n ?xs)"
    using retention_any [OF assms V] ev by auto
  then have "card (rc_id ` set (eligible skip cs) - select_entries_to_evict_for_retention cs rules ev skip now) \<le> card (set (map rc_id (take n ?xs)))"
    by (intro card_mono) auto
  also have "\<dots> \<le> length (map rc_id (take n ?xs))" by (rule card_length)
  also have "\<dots> \<le> n" by simp
  finally show "card (rc_id ` set (eligible skip cs) - select_entries_to_evict_for_retention cs rules ev skip now) \<le> n" .
qed

end
