(* ===== verification/History_Demo.thy ===== *)
theory History_Demo
  imports History_Removal
begin

text \<open>
  A small history and a small disk at which the properties of the clipboard history are applied: two
  entries, of which the first, a favourite, names a file of the cache, and a disk with that file, an
  orphan and a file outside the cache.
\<close>

definition hist_rep :: "string \<Rightarrow> byte list \<Rightarrow> persisted" where
  "hist_rep i content =
     \<lparr>p_id = i, p_format = ''uri'', p_mime = Some ''text/uri-list'', p_size = 6, p_inline = Some content,
      p_blob = None, p_state = InlineA, p_error = None\<rparr>"

definition hist_store :: store where
  "hist_store =
     \<lparr>st_reps = Map.empty(''r1'' \<mapsto> to_row ''v1'' (hist_rep ''r1'' (str_bytes ''/c/f'')),
                        ''r2'' \<mapsto> to_row ''v2'' (hist_rep ''r2'' [])),
      st_spool = \<lparr>sl_files = Map.empty, sl_entries = [], sl_total = 0, sl_max = 9\<rparr>, st_cache = cache_new 1 1,
      st_blobs = \<lparr>bd_files = Map.empty, bd_rows = []\<rparr>, st_chan = \<lparr>ch_ids = [], ch_cap = 1\<rparr>,
      st_thumbs = Map.empty\<rparr>"

definition hist_entry :: "string \<Rightarrow> string \<Rightarrow> int \<Rightarrow> bool \<Rightarrow> clip_entry" where
  "hist_entry i event created fav = (entry_new i event created 6)\<lparr>ce_favorite := fav\<rparr>"

definition hist_selection :: "string \<Rightarrow> selection" where
  "hist_selection r = \<lparr>primary_rep_id = r, secondary_rep_ids = [], preview_rep_id = r, paste_rep_id = r\<rparr>"

definition hist_history :: history where
  "hist_history =
     \<lparr>hi_events = [\<lparr>ev_id = ''v1'', ev_captured = 1, ev_source = ''d'', ev_hash = ''h1''\<rparr>,
                   \<lparr>ev_id = ''v2'', ev_captured = 2, ev_source = ''d'', ev_hash = ''h2''\<rparr>],
      hi_entries = [hist_entry ''e1'' ''v1'' 1 True, hist_entry ''e2'' ''v2'' 2 False],
      hi_selections = Map.empty(''e1'' \<mapsto> hist_selection ''r1'', ''e2'' \<mapsto> hist_selection ''r2''),
      hi_store = hist_store\<rparr>"

definition hist_dir :: path where "hist_dir = [''/'', ''c'']"

definition hist_disk :: disk where
  "hist_disk =
     [(hist_dir, DiskDir), (hist_dir @ [''f''], DiskFile [1] (Some 0)), (hist_dir @ [''g''], DiskFile [2] (Some 0)),
      ([''/'', ''x''], DiskFile [3] (Some 0))]"

definition hist_archive :: archive where
  "hist_archive = \<lparr>ar_history = hist_history, ar_disk = hist_disk\<rparr>"

definition hist_delete :: delete_env where
  "hist_delete =
     \<lparr>de_get_fails = False, de_reps_fails = False, de_ids = [''r1'', ''r2''], de_io = (\<lambda>_. False),
      de_selection_fails = False, de_entry_fails = False, de_event_fails = False\<rparr>"

definition hist_env :: disk_env where
  "hist_env =
     \<lparr>dk_list_fails = (\<lambda>_. False), dk_meta_fails = (\<lambda>_. False), dk_io = (\<lambda>_. False), dk_read_fails = False,
      dk_write_fails = False\<rparr>"

definition hist_settings :: file_settings where
  "hist_settings = \<lparr>fs_auto_cleanup = True, fs_retention_hours = 1, fs_quota = 0, fs_skip_pinned = True\<rparr>"

lemmas hist_defs = hist_rep_def hist_store_def hist_entry_def hist_selection_def hist_history_def hist_dir_def
  hist_disk_def hist_archive_def hist_delete_def hist_env_def hist_settings_def entry_new_def

lemma hist_inv: "history_inv (ar_history hist_archive)"
  by (auto simp: history_inv_def hist_defs to_row_def)

lemma hist_plain_disk: "plain_disk (ar_disk hist_archive)"
  by (simp add: plain_disk_def hist_defs)

definition hist_cleaned :: "(string + cleanup_result) \<times> archive" where
  "hist_cleaned = cleanup_expired_files (\<lambda>_. None) hist_dir hist_env (\<lambda>_. hist_delete) (\<lambda>_. False) (\<lambda>_. False)
     [''r1'', ''r2''] (Inr hist_settings) 9999999 hist_archive"

lemma hist_expired:
  "collect_expired hist_env hist_disk 9999999 3600 hist_dir = [(hist_dir @ [''f''], 1), (hist_dir @ [''g''], 1)]"
  by code_simp

text \<open>The sweep by age removes the entry of an expired file, although it is a favourite.\<close>

lemma hist_cleaned_result:
  "map ce_id (hi_entries (ar_history (snd hist_cleaned))) = [''e2''] \<and>
   map fst (ar_disk (snd hist_cleaned)) = [hist_dir, [''/'', ''x'']]"
  by code_simp

text \<open>A path with \<^verbatim>\<open>..\<close> that begins with the cache directory leads out of it.\<close>

lemma dotdot_escapes:
  "remove_cached (\<lambda>_. False) hist_dir [hist_dir @ [''..'', ''x'']] hist_disk = butlast hist_disk"
  by code_simp

lemma hist_plain_tables: "plain_tables (\<lambda>_. None) (ar_history hist_archive)"
proof -
  have "rep_paths (\<lambda>_. None) (hist_rep ''r1'' (str_bytes ''/c/f'')) = [hist_dir @ [''f'']]"
    and "rep_paths (\<lambda>_. None) (hist_rep ''r2'' []) = []" by code_simp+
  moreover have "to_domain ''r1'' (to_row ''v1'' (hist_rep ''r1'' (str_bytes ''/c/f''))) = Inr (hist_rep ''r1'' (str_bytes ''/c/f''))"
    and "to_domain ''r2'' (to_row ''v2'' (hist_rep ''r2'' [])) = Inr (hist_rep ''r2'' [])" by code_simp+
  ultimately show ?thesis
    by (auto simp: plain_tables_def hist_archive_def hist_history_def hist_store_def hist_dir_def split: if_splits)
qed

lemma hist_deleted:
  "\<exists>a'. delete_entry_uc (\<lambda>_. None) (Some hist_dir) hist_delete ''e2'' hist_archive = (Inr (), a')"
proof -
  have "fst (delete_entry_uc (\<lambda>_. None) (Some hist_dir) hist_delete ''e2'' hist_archive) = Inr ()" by code_simp
  then show ?thesis by (metis prod.collapse)
qed

end
