(* ===== verification/Capture.thy ===== *)
theory Capture
  imports History File_Capture
begin

text \<open>
  The capture of a snapshot (\<^verbatim>\<open>uc-application/clipboard_capture/usecase.rs\<close>): its identity and its
  manifest, the search for an entry with the same content, and the sequence in which the event, the
  cache, the spool and the entry are written. Local captures of the same content are serialised by
  the identity lock; other tasks are not interleaved with the writes of one capture here, which
  \<open>Payload_Safety\<close> does for the payloads.
\<close>

section \<open>What a capture relies on\<close>

datatype capture_origin = OriginCapture | OriginRestore | OriginPush "string option" | OriginResend

datatype commit_mode = CreateMode | ReplaceMode

record capture_outcome =
  oc_entry :: string
  oc_deduplicated :: bool
  oc_hash :: string

text \<open>
  The code that a capture calls and that is not in the repository, or is modelled elsewhere with
  parameters of its own: hashes, the file system, Unicode normalisation, URLs, the blob store.
\<close>

record capture_prims =
  pr_hash :: hash_prims
  pr_files :: file_system
  pr_nfc :: "string \<Rightarrow> string"
  pr_url :: url_file
  pr_tree :: "string \<Rightarrow> fs_node"
  pr_hash_path :: "string \<Rightarrow> string + digest"
  pr_file_path :: "string \<Rightarrow> string option"
  pr_scheme :: url_scheme
  pr_blob :: blob_prims
  pr_digest :: "byte list \<Rightarrow> digest"
  pr_threshold :: int

text \<open>What the ports answer during one capture.\<close>

record capture_env =
  cp_event :: string
  cp_entry :: string
  cp_device :: string
  cp_clock :: "int option"
  cp_caps :: "string + file_set_caps"
  cp_find_fails :: bool
  cp_touch_fails :: bool
  cp_ingest :: "rep_id \<Rightarrow> blob_env"
  cp_event_fails :: bool
  cp_spool :: "rep_id \<Rightarrow> spool_env"
  cp_save_fails :: bool
  cp_replace_fails :: bool
  cp_manifest_fails :: bool

record vault =
  vt_history :: history
  vt_manifests :: "string \<rightharpoonup> file_set"

section \<open>The operations\<close>

definition is_supported_representation :: "representation \<Rightarrow> bool" where
  "is_supported_representation r =
     ((case mime r of
         Some m \<Rightarrow> starts_with ''text/'' m \<or> starts_with ''image/'' m \<or>
           eq_ignore_ascii_case m ''file/uri-list'' \<or> eq_ignore_ascii_case m ''text/uri-list''
       | None \<Rightarrow> False) \<or>
      list_ex (eq_ignore_ascii_case (format_id r))
        [''text'', ''rtf'', ''html'', ''files'', ''image'', ''public.utf8-plain-text'', ''public.text'',
         ''NSStringPboardType''])"

definition has_supported_representation :: "snapshot \<Rightarrow> bool" where
  "has_supported_representation s = list_ex is_supported_representation (representations s)"

definition resurface_existing_entry ::
  "bool \<Rightarrow> bool \<Rightarrow> string \<Rightarrow> int \<Rightarrow> history \<Rightarrow> string option \<times> history" where
  "resurface_existing_entry find_fails touch_fails hash captured h =
     (case find_entry_id_by_snapshot_hash find_fails hash h of
        Inl _ \<Rightarrow> (None, h)
      | Inr None \<Rightarrow> (None, h)
      | Inr (Some i) \<Rightarrow>
          (case touch_entry touch_fails i captured h of
             (Inr True, h1) \<Rightarrow> (Some i, h1)
           | (Inr False, h1) \<Rightarrow> (None, h1)
           | (Inl _, h1) \<Rightarrow> (None, h1)))"

text \<open>The manifest of a file-class snapshot, and the digests of its files put into the snapshot.\<close>

definition is_file_class :: "snapshot \<Rightarrow> bool" where
  "is_file_class s =
     list_ex (\<lambda>r. (case rep_source r of LocalFile _ _ \<Rightarrow> True | Inline _ \<Rightarrow> False) \<or>
       is_file_mime_or_format (mime r) (format_id r)) (representations s)"

definition with_file_set :: "capture_prims \<Rightarrow> string + file_set_caps \<Rightarrow> snapshot \<Rightarrow> snapshot \<times> file_set option" where
  "with_file_set P settings s =
     (if file_content_digests s = [] \<and> file_set_v1_digest s = None \<and> is_file_class s then
        (let caps = (case settings of Inr c \<Rightarrow> c | Inl _ \<Rightarrow> fallback_caps) in
         case build_entry_file_set (pr_nfc P) (pr_url P) (pr_tree P) (pr_hash_path P) caps s of
           None \<Rightarrow> (s, None)
         | Some built \<Rightarrow>
             (case file_set_v1_component (pr_hash P) built of
                Some component \<Rightarrow> (s\<lparr>file_set_v1_digest := Some component\<rparr>, Some built)
              | None \<Rightarrow>
                  (let digests = content_digest_contribution built in
                   (if digests \<noteq> [] then s\<lparr>file_content_digests := digests\<rparr> else s, Some built))))
      else (s, None))"

fun normalize_all ::
  "capture_prims \<Rightarrow> (rep_id \<Rightarrow> blob_env) \<Rightarrow> representation list \<Rightarrow> blob_db \<Rightarrow> (string + persisted list) run \<times> blob_db" where
  "normalize_all P envs [] d = (Done (Inr []), d)"
| "normalize_all P envs (r # rs) d =
     (case (case rep_source r of
              LocalFile path n \<Rightarrow>
                (case ingest_path (pr_blob P) (pr_digest P) (envs (rep_id r)) (pr_files P path) d of
                   (Inl _, d1) \<Rightarrow> (Done (Inl ''LocalFile rep ingest into blob store failed''), d1)
                 | (Inr (blob, _, _), d1) \<Rightarrow>
                     (Done (Inr (persisted_new (rep_id r) (format_id r) (mime r) (i64_wrap (int n)) None (Some blob))), d1))
            | Inline _ \<Rightarrow> (normalize (pr_threshold P) r, d)) of
        (Panic, d1) \<Rightarrow> (Panic, d1)
      | (Done (Inl err), d1) \<Rightarrow> (Done (Inl err), d1)
      | (Done (Inr p), d1) \<Rightarrow>
          (case normalize_all P envs rs d1 of
             (Done (Inr ps), d2) \<Rightarrow> (Done (Inr (p # ps)), d2)
           | (x, d2) \<Rightarrow> (x, d2)))"

text \<open>
  The staged representations with their bytes: what goes into the cache and to the spool.
\<close>

definition staged_payload :: "snapshot \<Rightarrow> persisted \<Rightarrow> (rep_id \<times> byte list) option" where
  "staged_payload s p =
     (if p_state p \<noteq> StagedA then None
      else Option.bind (find (\<lambda>r. rep_id r = p_id p) (representations s))
        (\<lambda>r. map_option (\<lambda>b. (p_id p, b)) (inline_bytes r)))"

definition staged_payloads :: "snapshot \<Rightarrow> persisted list \<Rightarrow> (rep_id \<times> byte list) list" where
  "staged_payloads s ps = List.map_filter (staged_payload s) ps"

definition cache_representations :: "(rep_id \<times> byte list) list \<Rightarrow> store \<Rightarrow> store" where
  "cache_representations reqs st = st\<lparr>st_cache := fold (\<lambda>(i, b). cache_put i b) reqs (st_cache st)\<rparr>"

fun spool_blobs ::
  "(rep_id \<Rightarrow> spool_env) \<Rightarrow> (rep_id \<times> byte list) list \<Rightarrow> spool \<times> channel \<Rightarrow> (string + unit) \<times> spool \<times> channel" where
  "spool_blobs envs [] sc = (Inr (), sc)"
| "spool_blobs envs ((i, b) # reqs) sc =
     (case enqueue (envs i) i b sc of
        (Inl _, sc1) \<Rightarrow> (Inl ''Failed to durably spool representation'', sc1)
      | (Inr _, sc1) \<Rightarrow> spool_blobs envs reqs sc1)"

definition total_size_bytes :: "snapshot \<Rightarrow> int" where
  "total_size_bytes s = i64_wrap (sum_list (map size_bytes (representations s)))"

definition persist_entry ::
  "capture_prims \<Rightarrow> capture_env \<Rightarrow> commit_mode \<Rightarrow> string \<Rightarrow> clip_event \<Rightarrow> persisted list \<Rightarrow> selection \<Rightarrow> snapshot \<Rightarrow>
   history \<Rightarrow> (string + unit) \<times> history" where
  "persist_entry P e mode i event reps sel s h =
     (let total_size = total_size_bytes s; category = entry_cat_from_snapshot (pr_scheme P) s in
      case mode of
        CreateMode \<Rightarrow>
          (case cp_clock e of
             None \<Rightarrow> (Inl ''Failed to get system time'', h)
           | Some created \<Rightarrow>
               save_entry_and_selection (cp_save_fails e)
                 (with_content_category category (entry_new i (ev_id event) created total_size)) sel h)
      | ReplaceMode \<Rightarrow> replace_entry_content (cp_replace_fails e) i event reps sel total_size category h)"

text \<open>From the normalisation to the manifest; the snapshot has its identity by now.\<close>

definition persist_capture ::
  "capture_prims \<Rightarrow> capture_env \<Rightarrow> commit_mode \<Rightarrow> string \<Rightarrow> clip_event \<Rightarrow> snapshot \<Rightarrow> file_set option \<Rightarrow> vault \<Rightarrow>
   (string + capture_outcome option) run \<times> vault" where
  "persist_capture P e mode i event s manifest v =
     (let h0 = vt_history v in
      case normalize_all P (cp_ingest e) (representations s) (st_blobs (hi_store h0)) of
        (Panic, d) \<Rightarrow> (Panic, v\<lparr>vt_history := h0\<lparr>hi_store := (hi_store h0)\<lparr>st_blobs := d\<rparr>\<rparr>\<rparr>)
      | (Done (Inl err), d) \<Rightarrow> (Done (Inl err), v\<lparr>vt_history := h0\<lparr>hi_store := (hi_store h0)\<lparr>st_blobs := d\<rparr>\<rparr>\<rparr>)
      | (Done (Inr reps), d) \<Rightarrow>
          (let h1 = h0\<lparr>hi_store := (hi_store h0)\<lparr>st_blobs := d\<rparr>\<rparr> in
           case (if mode = CreateMode then insert_event (cp_event_fails e) event reps h1 else (Inr (), h1)) of
             (Inl err, h2) \<Rightarrow> (Done (Inl err), v\<lparr>vt_history := h2\<rparr>)
           | (Inr _, h2) \<Rightarrow>
               (let reqs = staged_payloads s reps;
                    h3 = h2\<lparr>hi_store := cache_representations reqs (hi_store h2)\<rparr> in
                case select (pr_file_path P) s of
                  Inl _ \<Rightarrow> (Done (Inl ''no usable representation''), v\<lparr>vt_history := h3\<rparr>)
                | Inr sel \<Rightarrow>
                    (case spool_blobs (cp_spool e) reqs (st_spool (hi_store h3), st_chan (hi_store h3)) of
                       (r, sp, ch) \<Rightarrow>
                         (let h4 = h3\<lparr>hi_store := (hi_store h3)\<lparr>st_spool := sp, st_chan := ch\<rparr>\<rparr> in
                          case r of
                            Inl err \<Rightarrow> (Done (Inl err), v\<lparr>vt_history := h4\<rparr>)
                          | Inr _ \<Rightarrow>
                              (case persist_entry P e mode i event reps sel s h4 of
                                 (Inl err, h5) \<Rightarrow> (Done (Inl err), v\<lparr>vt_history := h5\<rparr>)
                               | (Inr _, h5) \<Rightarrow>
                                   (Done (Inr (Some \<lparr>oc_entry = i, oc_deduplicated = False, oc_hash = ev_hash event\<rparr>)),
                                    v\<lparr>vt_history := h5,
                                      vt_manifests := (case manifest of
                                          None \<Rightarrow> vt_manifests v
                                        | Some m \<Rightarrow> if cp_manifest_fails e then vt_manifests v
                                                    else (vt_manifests v)(i \<mapsto> m))\<rparr>)))))))"

definition execute_with_origin ::
  "capture_prims \<Rightarrow> capture_env \<Rightarrow> capture_origin \<Rightarrow> string option \<Rightarrow> string option \<Rightarrow> commit_mode \<Rightarrow> snapshot \<Rightarrow>
   vault \<Rightarrow> (string + capture_outcome option) run \<times> vault" where
  "execute_with_origin P e origin preset authoritative mode s v =
     (if origin = OriginRestore then (Done (Inr None), v)
      else if \<not> has_supported_representation s then (Done (Inr None), v)
      else
        (let source = (case origin of OriginPush (Some d) \<Rightarrow> d | _ \<Rightarrow> cp_device e);
             (s1, manifest) = with_file_set P (cp_caps e) s in
         case (case authoritative of
                 Some wire \<Rightarrow> Done wire
               | None \<Rightarrow> map_run (format_blake3v1 (pr_hash P)) (snapshot_identity (pr_hash P) (pr_files P) s1)) of
           Panic \<Rightarrow> (Panic, v)
         | Done hash \<Rightarrow>
             (case (if origin = OriginCapture
                    then resurface_existing_entry (cp_find_fails e) (cp_touch_fails e) hash (ts_ms s) (vt_history v)
                    else (None, vt_history v)) of
                (Some i, h) \<Rightarrow>
                  (Done (Inr (Some \<lparr>oc_entry = i, oc_deduplicated = True, oc_hash = hash\<rparr>)), v\<lparr>vt_history := h\<rparr>)
              | (None, h) \<Rightarrow>
                  persist_capture P e mode (case preset of Some i \<Rightarrow> i | None \<Rightarrow> cp_entry e)
                    \<lparr>ev_id = cp_event e, ev_captured = ts_ms s, ev_source = source, ev_hash = hash\<rparr>
                    s1 manifest (v\<lparr>vt_history := h\<rparr>))))"

text \<open>\<^verbatim>\<open>execute\<close>, the entry point of local captures.\<close>

definition execute_capture :: "capture_prims \<Rightarrow> capture_env \<Rightarrow> snapshot \<Rightarrow> vault \<Rightarrow> (string + string) run \<times> vault" where
  "execute_capture P e s v =
     (case execute_with_origin P e OriginCapture None None CreateMode s v of
        (Panic, v1) \<Rightarrow> (Panic, v1)
      | (Done (Inl err), v1) \<Rightarrow> (Done (Inl err), v1)
      | (Done (Inr None), v1) \<Rightarrow> (Done (Inl ''local capture should always persist an entry''), v1)
      | (Done (Inr (Some oc)), v1) \<Rightarrow> (Done (Inr (oc_entry oc)), v1))"

end
