(* ===== verification/Capture_Safety.thy ===== *)
theory Capture_Safety
  imports Capture Payload_Safety
begin

text \<open>
  What a capture guarantees: where the bytes of its representations are when it succeeds, what is left
  when it fails, and that the same content is stored once.
\<close>

section \<open>The stages\<close>

lemma normalize_inline:
  assumes "normalize thr r = Done (Inr p)" and "rep_source r = Inline b"
  shows "p_id p = rep_id r \<and> (p_state p = InlineA \<and> p_inline p = Some b \<or> p_state p = StagedA)"
  using normalize_ok [OF assms(1), of b] assms(2) by (simp add: inline_bytes_def)

text \<open>What a normalised representation keeps of the observed one.\<close>

definition kept_by :: "representation \<Rightarrow> persisted \<Rightarrow> bool" where
  "kept_by r p \<longleftrightarrow> p_id p = rep_id r \<and>
     (case rep_source r of
        Inline b \<Rightarrow> p_state p = InlineA \<and> p_inline p = Some b \<or> p_state p = StagedA
      | LocalFile _ _ \<Rightarrow> p_state p = BlobReadyA \<and> p_blob p \<noteq> None)"

lemma normalize_all_kept:
  "normalize_all P envs rs d = (Done (Inr ps), d') \<Longrightarrow> list_all2 kept_by rs ps"
proof (induction rs arbitrary: d ps d')
  case (Cons r rs)
  show ?case
  proof (cases "rep_source r")
    case (Inline b)
    then obtain p ps1 d1 where p: "normalize (pr_threshold P) r = Done (Inr p)" and ps: "ps = p # ps1"
      and rest: "normalize_all P envs rs d = (Done (Inr ps1), d1)"
      using Cons.prems by (auto split: run.splits sum.splits prod.splits)
    have "kept_by r p" using normalize_inline [OF p Inline] Inline by (simp add: kept_by_def)
    then show ?thesis using Cons.IH [OF rest] ps by simp
  next
    case (LocalFile path n)
    obtain x d1 where ing: "ingest_path (pr_blob P) (pr_digest P) (envs (rep_id r)) (pr_files P path) d = (x, d1)"
      by (cases "ingest_path (pr_blob P) (pr_digest P) (envs (rep_id r)) (pr_files P path) d")
    obtain blob ch sz where x: "x = Inr (blob, ch, sz)"
      using Cons.prems LocalFile ing by (cases x) auto
    let ?p = "persisted_new (rep_id r) (format_id r) (mime r) (i64_wrap (int n)) None (Some blob)"
    obtain ps1 d2 where rest: "normalize_all P envs rs d1 = (Done (Inr ps1), d2)" and ps: "ps = ?p # ps1"
      using Cons.prems LocalFile ing x by (auto split: run.splits sum.splits prod.splits)
    have "kept_by r ?p" using LocalFile by (simp add: kept_by_def persisted_new_def)
    then show ?thesis using Cons.IH [OF rest] ps by simp
  qed
qed simp

lemma normalize_all_total:
  "\<exists>x d'. normalize_all P envs rs d = (Done x, d')"
proof (induction rs arbitrary: d)
  case (Cons r rs)
  have "\<exists>x. normalize thr r = Done x" if "rep_source r = Inline b" for thr b
    using that by (simp add: normalize_def inline_bytes_def Let_def)
  then show ?case using Cons.IH
    by (cases "rep_source r") (auto split: prod.splits sum.splits run.splits; metis run.distinct(1) fst_conv)+
qed simp

section \<open>The spool after a capture\<close>

definition reqs_bytes :: "(rep_id \<times> byte list) list \<Rightarrow> nat" where
  "reqs_bytes reqs = sum_list (map (\<lambda>(i, b). length b) reqs)"

lemma other_entries_bytes: "ledger_bytes (other_entries k es) \<le> ledger_bytes es"
  by (induction es) (auto simp: other_entries_def)

text \<open>When everything fits, nothing is evicted, and every accepted payload is on disk.\<close>

lemma spool_blobs_ok:
  assumes "spool_blobs envs reqs (sp, ch) = (Inr (), sp', ch')" and "spool_inv sp"
    and "ledger_bytes (sl_entries sp) + reqs_bytes reqs \<le> sl_max sp" and "sl_max sp \<le> usize_max"
    and "distinct (map fst reqs)"
  shows "(\<forall>(i, b) \<in> set reqs. \<exists>f. sl_files sp' i = Some f \<and> f_bytes f = b) \<and>
    (\<forall>j. j \<notin> fst ` set reqs \<longrightarrow> sl_files sp' j = sl_files sp j)"
  using assms
proof (induction reqs arbitrary: sp ch)
  case (Cons x reqs)
  obtain i b where x: "x = (i, b)" by (cases x)
  obtain r sp1 ch1 where q: "enqueue (envs i) i b (sp, ch) = (r, sp1, ch1)" by (cases "enqueue (envs i) i b (sp, ch)")
  then have r: "r = Inr ()" using Cons.prems(1) x by (cases r) auto
  then obtain n where w: "spool_write (envs i) i b sp = (Inr n, sp1)"
    using q by (auto simp: enqueue_def split: prod.splits sum.splits)
  let ?others = "other_entries i (sl_entries sp)"
  have small: "ledger_bytes ?others + length b \<le> sl_max sp"
    using Cons.prems(3) other_entries_bytes [of i "sl_entries sp"] x by (simp add: reqs_bytes_def)
  then have "ledger_bytes ?others + length b \<le> usize_max" using Cons.prems(4) by simp
  from spool_write_ok [OF Cons.prems(2) this w] obtain k where
    es: "sl_entries sp1 = drop k ?others @ [(i, length b)]" and
    k: "\<forall>m < k. sl_max sp < ledger_bytes (drop m ?others) + length b" and
    inv: "spool_inv sp1" and mx: "sl_max sp1 = sl_max sp" and
    files: "sl_files sp1 = (remove_files (se_keeps (envs i)) (map fst (take k ?others)) (sl_files sp))(i \<mapsto> \<lparr>f_bytes = b, f_mtime = se_now (envs i)\<rparr>)"
    by metis
  have "k = 0" using k small by (metis drop_0 gr_zeroI leD)
  then have es0: "sl_entries sp1 = ?others @ [(i, length b)]"
    and files0: "sl_files sp1 = (sl_files sp)(i \<mapsto> \<lparr>f_bytes = b, f_mtime = se_now (envs i)\<rparr>)"
    using es files by (simp, auto simp: remove_files_def restrict_map_def fun_eq_iff)
  have fits: "ledger_bytes (sl_entries sp1) + reqs_bytes reqs \<le> sl_max sp1"
    using Cons.prems(3) other_entries_bytes [of i "sl_entries sp"] x by (simp add: es0 mx reqs_bytes_def)
  have rest: "spool_blobs envs reqs (sp1, ch1) = (Inr (), sp', ch')" using Cons.prems(1) x q r by simp
  have new: "i \<notin> fst ` set reqs" and d: "distinct (map fst reqs)" using Cons.prems(5) x by auto
  from Cons.IH [OF rest inv fits _ d] Cons.prems(4) mx files0 new x show ?case by auto
qed simp

section \<open>What a capture writes\<close>

text \<open>The parts of the history that do not depend on the payload stores.\<close>

definition same_tables :: "history \<Rightarrow> history \<Rightarrow> bool" where
  "same_tables h h' \<longleftrightarrow>
     hi_events h' = hi_events h \<and> hi_entries h' = hi_entries h \<and> hi_selections h' = hi_selections h \<and>
     st_reps (hi_store h') = st_reps (hi_store h)"

lemma same_tables_inv: "same_tables h h' \<Longrightarrow> history_inv h' = history_inv h"
  by (simp add: same_tables_def history_inv_def)

lemma insert_reps_cong: "insert_reps f event reps tbl = (Inr (), tbl') \<Longrightarrow> distinct (map p_id reps)"
  by (auto simp: insert_reps_def split: if_splits)

lemma replace_entry_err: "replace_entry_content f i event reps sel sz c h = (Inl err, h') \<Longrightarrow> h' = h"
  by (auto simp: replace_entry_content_def Let_def split: option.splits prod.splits sum.splits if_splits)

text \<open>
  The outcome of \<open>persist_capture\<close>: what it stored, or how far it came. The event is the only row
  that a failed capture can leave behind.
\<close>

lemma persist_capture_cases:
  assumes "persist_capture P e mode i event s manifest v = (res, v')"
  obtains (Failed) "\<forall>oc. res \<noteq> Done (Inr oc)" and "res \<noteq> Panic" and "vt_manifests v' = vt_manifests v"
      and "same_tables (vt_history v) (vt_history v') \<or>
        mode = CreateMode \<and> (\<exists>reps h1 h2. same_tables (vt_history v) h1 \<and>
          insert_event (cp_event_fails e) event reps h1 = (Inr (), h2) \<and> same_tables h2 (vt_history v'))"
    | (Stored) reps sel h1 h2 h4 where "res = Done (Inr (Some \<lparr>oc_entry = i, oc_deduplicated = False, oc_hash = ev_hash event\<rparr>))"
      and "list_all2 kept_by (representations s) reps" and "same_tables (vt_history v) h1"
      and "st_spool (hi_store h1) = st_spool (hi_store (vt_history v))"
      and "st_spool (hi_store h2) = st_spool (hi_store h1)"
      and "(if mode = CreateMode then insert_event (cp_event_fails e) event reps h1 else (Inr (), h1)) = (Inr (), h2)"
      and "same_tables h2 h4" and "select (pr_file_path P) s = Inr sel"
      and "\<exists>ch. spool_blobs (cp_spool e) (staged_payloads s reps) (st_spool (hi_store h2), st_chan (hi_store h2)) =
        (Inr (), st_spool (hi_store h4), ch)"
      and "persist_entry P e mode i event reps sel s h4 = (Inr (), vt_history v')"
proof -
  let ?h0 = "vt_history v"
  obtain x d where n: "normalize_all P (cp_ingest e) (representations s) (st_blobs (hi_store ?h0)) = (Done x, d)"
    using normalize_all_total by blast
  define h1 where "h1 = ?h0\<lparr>hi_store := (hi_store ?h0)\<lparr>st_blobs := d\<rparr>\<rparr>"
  have h1: "same_tables ?h0 h1" "st_spool (hi_store h1) = st_spool (hi_store ?h0)" by (simp_all add: h1_def same_tables_def)
  note eqn = assms [unfolded persist_capture_def n Let_def prod.case run.case, folded h1_def]
  show thesis
  proof (cases x)
    case (Inl err)
    then have "res = Done (Inl err) \<and> v' = v\<lparr>vt_history := h1\<rparr>" using eqn by simp
    then show thesis using h1 by (intro Failed) auto
  next
    case (Inr reps)
    note kept = normalize_all_kept [OF n [unfolded Inr]]
    obtain r h2 where ins: "(if mode = CreateMode then insert_event (cp_event_fails e) event reps h1 else (Inr (), h1)) = (r, h2)"
      by (cases "if mode = CreateMode then insert_event (cp_event_fails e) event reps h1 else (Inr (), h1)")
    note eqn = eqn [unfolded Inr run.case sum.case prod.case ins]
    show thesis
    proof (cases r)
      case (Inl err)
      then have m: "mode = CreateMode" and "insert_event (cp_event_fails e) event reps h1 = (Inl err, h2)"
        using ins by (auto split: if_splits)
      then have "h2 = h1" using insert_event_err by blast
      moreover have "res = Done (Inl err) \<and> v' = v\<lparr>vt_history := h2\<rparr>" using eqn Inl by simp
      ultimately show thesis using h1 by (intro Failed) auto
    next
      case (Inr u)
      note ins = ins [unfolded Inr]
      have base: "same_tables ?h0 h2 \<or> mode = CreateMode \<and> insert_event (cp_event_fails e) event reps h1 = (Inr (), h2)"
        using ins h1 by (cases "mode = CreateMode") simp_all
      have later: "same_tables ?h0 h \<or> mode = CreateMode \<and> (\<exists>reps h1 h2. same_tables ?h0 h1 \<and>
          insert_event (cp_event_fails e) event reps h1 = (Inr (), h2) \<and> same_tables h2 h)" if "same_tables h2 h" for h
        using base that h1(1) by (auto simp: same_tables_def)
      have sp2: "st_spool (hi_store h2) = st_spool (hi_store h1)"
        using ins insert_event_ok [of "cp_event_fails e" event reps h1 h2]
        by (cases "mode = CreateMode") fastforce+
      define h3 where "h3 = h2\<lparr>hi_store := cache_representations (staged_payloads s reps) (hi_store h2)\<rparr>"
      have h3: "same_tables h2 h3" "st_spool (hi_store h3) = st_spool (hi_store h2)" "st_chan (hi_store h3) = st_chan (hi_store h2)"
        by (simp_all add: h3_def same_tables_def cache_representations_def)
      note eqn = eqn [unfolded Inr sum.case prod.case, folded h3_def]
      show thesis
      proof (cases "select (pr_file_path P) s")
        case (Inl err)
        then have "res = Done (Inl ''no usable representation'') \<and> v' = v\<lparr>vt_history := h3\<rparr>" using eqn by simp
        then show thesis using later [OF h3(1)] by (intro Failed) auto
      next
        case (Inr sel)
        note sel = Inr
        obtain q sp ch where q: "spool_blobs (cp_spool e) (staged_payloads s reps) (st_spool (hi_store h3), st_chan (hi_store h3)) = (q, sp, ch)"
          by (cases "spool_blobs (cp_spool e) (staged_payloads s reps) (st_spool (hi_store h3), st_chan (hi_store h3))")
        define h4 where "h4 = h3\<lparr>hi_store := (hi_store h3)\<lparr>st_spool := sp, st_chan := ch\<rparr>\<rparr>"
        have h4: "same_tables h2 h4" "st_spool (hi_store h4) = sp"
          using h3 by (simp_all add: h4_def same_tables_def)
        note eqn = eqn [unfolded sel sum.case q prod.case, folded h4_def]
        show thesis
        proof (cases q)
          case (Inl err)
          then have "res = Done (Inl err) \<and> v' = v\<lparr>vt_history := h4\<rparr>" using eqn by simp
          then show thesis using later [OF h4(1)] by (intro Failed) auto
        next
          case (Inr u2)
          note spooled = q [unfolded Inr h3]
          obtain w h5 where w: "persist_entry P e mode i event reps sel s h4 = (w, h5)"
            by (cases "persist_entry P e mode i event reps sel s h4")
          note eqn = eqn [unfolded Inr sum.case w prod.case]
          show thesis
          proof (cases w)
            case (Inl err)
            have "h5 = h4"
              using w Inl save_err replace_entry_err
              by (cases mode) (auto simp: persist_entry_def Let_def split: option.splits)
            moreover have "res = Done (Inl err) \<and> v' = v\<lparr>vt_history := h5\<rparr>" using eqn Inl by simp
            ultimately show thesis using later [OF h4(1)] by (intro Failed) auto
          next
            case (Inr u3)
            have "res = Done (Inr (Some \<lparr>oc_entry = i, oc_deduplicated = False, oc_hash = ev_hash event\<rparr>)) \<and> vt_history v' = h5"
              using eqn Inr by auto
            then show thesis
              using Stored [OF _ kept h1 sp2 _ h4(1) sel] ins spooled h4(2) w Inr by auto
          qed
        qed
      qed
    qed
  qed
qed

section \<open>The invariant\<close>

lemma replace_inv:
  assumes inv: "history_inv h" and ok: "replace_entry_content f i event reps sel sz c h = (Inr (), h')"
  shows "history_inv h'"
  using ok
proof (rule replace_ok)
  fix old h1
  let ?f = "\<lambda>e. if ce_id e = i then e\<lparr>ce_event := ev_id event, ce_size := sz, ce_category := c\<rparr> else e"
  assume old: "entry_of i h = Some old" and ins: "insert_event f event reps h = (Inr (), h1)"
    and new: "ev_id event \<notin> ce_event ` set (hi_entries h)"
    and es: "hi_entries h' = map ?f (hi_entries h)"
    and evs: "hi_events h' = filter (\<lambda>v. ev_id v \<noteq> ce_event old) (hi_events h @ [event])"
    and sels: "hi_selections h' = (hi_selections h)(i \<mapsto> sel)"
    and tbl: "st_reps (hi_store h') = drop_event_reps (ce_event old) (st_reps (hi_store h1))"
  have i1: "history_inv h1" by (rule insert_event_inv [OF inv ins])
  from ins have e1: "hi_events h1 = hi_events h @ [event]" by (rule insert_event_ok) simp
  have old': "old \<in> set (hi_entries h)" "ce_id old = i" using old entry_of_Some [OF inv] by auto
  have dist: "distinct (map ce_id (hi_entries h))" "distinct (map ce_event (hi_entries h))"
    and sub: "ce_event ` set (hi_entries h) \<subseteq> ev_id ` set (hi_events h)"
    and dom: "dom (hi_selections h) \<subseteq> ce_id ` set (hi_entries h)"
    using inv unfolding history_inv_def by blast+
  have ids: "map ce_id (hi_entries h') = map ce_id (hi_entries h)" by (simp add: es)
  then have idset: "ce_id ` set (hi_entries h') = ce_id ` set (hi_entries h)" by (metis set_map)
  have evid: "ce_event (?f e) = (if ce_id e = i then ev_id event else ce_event e)" for e by simp
  have inj: "inj_on ce_event (set (hi_entries h))" "inj_on ce_id (set (hi_entries h))"
    using dist by (simp_all add: distinct_map)
  have "inj_on (ce_event \<circ> ?f) (set (hi_entries h))"
    using inj new by (intro inj_onI) (auto dest: inj_onD simp: image_iff split: if_splits)
  then have d2: "distinct (map ce_event (hi_entries h'))"
    using dist(1) by (simp add: es distinct_map)
  have keep: "ce_event e \<noteq> ce_event old" if "e \<in> set (hi_entries h)" "ce_id e \<noteq> i" for e
    using that old' inj(1) by (auto dest: inj_onD)
  have "ev_id event \<noteq> ce_event old" using new old'(1) by auto
  then have new': "ev_id event \<in> ev_id ` set (hi_events h')" by (simp add: evs)
  have "ce_event (?f e) \<in> ev_id ` set (hi_events h')" if e: "e \<in> set (hi_entries h)" for e
  proof (cases "ce_id e = i")
    case True
    then show ?thesis using new' by simp
  next
    case False
    have "ce_event e \<in> ev_id ` set (hi_events h)" using sub e by blast
    then obtain w where "w \<in> set (hi_events h)" "ev_id w = ce_event e" by (metis imageE)
    then have "w \<in> set (hi_events h')" using keep [OF e False] by (simp add: evs)
    then show ?thesis using \<open>ev_id w = ce_event e\<close> False by (metis evid imageI)
  qed
  then have sub': "ce_event ` set (hi_entries h') \<subseteq> ev_id ` set (hi_events h')"
    unfolding es set_map image_image by (intro image_subsetI)
  have dev: "distinct (map ev_id (hi_events h'))"
    using i1 by (simp add: evs e1 [symmetric] history_inv_def distinct_map_filter')
  have rows: "rr_event row \<in> ev_id ` set (hi_events h')" if "st_reps (hi_store h') k = Some row" for k row
  proof -
    have r: "st_reps (hi_store h1) k = Some row" "rr_event row \<noteq> ce_event old"
      using that by (simp_all add: tbl drop_event_reps_Some)
    then have "rr_event row \<in> ev_id ` set (hi_events h1)" using i1 unfolding history_inv_def by blast
    then show ?thesis using r(2) by (auto simp: evs e1)
  qed
  have "i \<in> ce_id ` set (hi_entries h)" using old' by auto
  then show ?thesis
    using dev d2 sub' rows dom dist(1) unfolding history_inv_def ids idset sels by auto
qed

lemma persist_entry_inv:
  assumes "history_inv h" and "persist_entry P e mode i event reps sel s h = (r, h')"
  shows "history_inv h'"
proof (cases mode)
  case CreateMode
  then show ?thesis using assms save_inv
    by (auto simp: persist_entry_def Let_def split: option.splits)
next
  case ReplaceMode
  then have "replace_entry_content (cp_replace_fails e) i event reps sel (total_size_bytes s)
      (entry_cat_from_snapshot (pr_scheme P) s) h = (r, h')"
    using assms(2) by (simp add: persist_entry_def Let_def)
  then show ?thesis using assms(1) replace_inv replace_entry_err by (cases r) (auto, metis)
qed

lemma persist_capture_inv:
  assumes "history_inv (vt_history v)" and "persist_capture P e mode i event s m v = (res, v')"
  shows "history_inv (vt_history v')"
  using assms(2)
proof (cases rule: persist_capture_cases)
  case Failed
  then show ?thesis using assms(1) insert_event_inv same_tables_inv by metis
next
  case (Stored reps sel h1 h2 h4)
  have "history_inv h1" using assms(1) Stored(3) same_tables_inv by blast
  then have "history_inv h2" using Stored(6) insert_event_inv by (cases "mode = CreateMode") auto
  then have "history_inv h4" using Stored(7) same_tables_inv by blast
  then show ?thesis using Stored(10) persist_entry_inv by blast
qed

text \<open>Resurfacing touches at most the active time of one entry.\<close>

lemma resurface_cases:
  assumes "resurface_existing_entry ff tf hash t h = (found, h')"
  obtains (None) "found = None" and "h' = h"
    | (Found) i where "found = Some i" and "find_entry_id_by_snapshot_hash ff hash h = Inr (Some i)"
        and "entry_of i h \<noteq> None" and "h' = update_entry i (\<lambda>e. e\<lparr>ce_active := t\<rparr>) h"
proof (cases "find_entry_id_by_snapshot_hash ff hash h")
  case (Inl err)
  then show thesis using assms None by (simp add: resurface_existing_entry_def)
next
  case (Inr x)
  show thesis
  proof (cases x)
    case None
    then show thesis using assms Inr that(1) by (simp add: resurface_existing_entry_def)
  next
    case (Some i)
    have absent: "update_entry i f h = h" if "entry_of i h = None" for f
    proof -
      have "map (\<lambda>e. if ce_id e = i then f e else e) (hi_entries h) = hi_entries h"
        using that by (intro map_idI) (auto simp: entry_of_None)
      then show ?thesis by (simp add: update_entry_def)
    qed
    show thesis
    proof (cases "tf \<or> entry_of i h = None")
      case True
      then have "found = None \<and> h' = h"
        using assms Inr Some absent by (cases tf) (simp_all add: resurface_existing_entry_def touch_entry_def)
      then show thesis using that(1) by simp
    next
      case False
      then have t: "touch_entry tf i t h = (Inr True, update_entry i (\<lambda>e. e\<lparr>ce_active := t\<rparr>) h)"
        by (simp add: touch_entry_def)
      show thesis
        by (rule that(2) [of i]) (use assms Inr Some t False in \<open>simp_all add: resurface_existing_entry_def\<close>)
    qed
  qed
qed

lemma with_file_set_reps: "with_file_set P settings s = (s1, m) \<Longrightarrow> representations s1 = representations s"
  by (auto simp: with_file_set_def Let_def split: if_splits option.splits sum.splits)

lemma execute_cases:
  assumes "execute_with_origin P e origin preset authoritative mode s v = (res, v')"
  obtains (Skipped) "res = Done (Inr None) \<or> res = Panic" and "v' = v"
    | (Resurfaced) i hash where "origin = OriginCapture" and "entry_of i (vt_history v) \<noteq> None"
        and "find_entry_id_by_snapshot_hash (cp_find_fails e) hash (vt_history v) = Inr (Some i)"
        and "res = Done (Inr (Some \<lparr>oc_entry = i, oc_deduplicated = True, oc_hash = hash\<rparr>))"
        and "v' = v\<lparr>vt_history := update_entry i (\<lambda>x. x\<lparr>ce_active := ts_ms s\<rparr>) (vt_history v)\<rparr>"
    | (Persisted) i hash source s1 m where "representations s1 = representations s"
        and "origin = OriginCapture \<longrightarrow> fst (resurface_existing_entry (cp_find_fails e) (cp_touch_fails e) hash (ts_ms s) (vt_history v)) = None"
        and "persist_capture P e mode i \<lparr>ev_id = cp_event e, ev_captured = ts_ms s, ev_source = source, ev_hash = hash\<rparr> s1 m v = (res, v')"
proof (cases "origin = OriginRestore \<or> \<not> has_supported_representation s")
  case True
  then have "res = Done (Inr None) \<and> v' = v" using assms by (auto simp: execute_with_origin_def split: if_splits)
  then show thesis using Skipped by blast
next
  case False
  obtain s1 m where fs: "with_file_set P (cp_caps e) s = (s1, m)" by (cases "with_file_set P (cp_caps e) s")
  let ?id = "case authoritative of Some wire \<Rightarrow> Done wire
    | None \<Rightarrow> map_run (format_blake3v1 (pr_hash P)) (snapshot_identity (pr_hash P) (pr_files P) s1)"
  define source where "source = (case origin of OriginPush (Some d) \<Rightarrow> d | _ \<Rightarrow> cp_device e)"
  have no: "\<not> origin = OriginRestore" "\<not> \<not> has_supported_representation s" using False by auto
  note eqn = assms [unfolded execute_with_origin_def if_not_P [OF no(1)] if_not_P [OF no(2)] fs Let_def prod.case, folded source_def]
  show thesis
  proof (cases ?id)
    case Panic
    then show thesis using eqn Skipped by simp
  next
    case (Done hash)
    note eqn = eqn [unfolded Done run.case]
    obtain found h where r: "(if origin = OriginCapture
        then resurface_existing_entry (cp_find_fails e) (cp_touch_fails e) hash (ts_ms s) (vt_history v)
        else (None, vt_history v)) = (found, h)" by fastforce
    note eqn = eqn [unfolded r prod.case]
    show thesis
    proof (cases found)
      case None
      have h: "h = vt_history v"
      proof (cases "origin = OriginCapture")
        case True
        then have "resurface_existing_entry (cp_find_fails e) (cp_touch_fails e) hash (ts_ms s) (vt_history v) = (None, h)"
          using r None by simp
        then show ?thesis by (cases rule: resurface_cases) simp_all
      qed (use r in simp)
      have "origin = OriginCapture \<longrightarrow> fst (resurface_existing_entry (cp_find_fails e) (cp_touch_fails e) hash (ts_ms s) (vt_history v)) = None"
        using r None by auto
      then show thesis
        using eqn None h with_file_set_reps [OF fs] by (intro Persisted) auto
    next
      case (Some i)
      then have o: "origin = OriginCapture" using r by (auto split: if_splits)
      have "resurface_existing_entry (cp_find_fails e) (cp_touch_fails e) hash (ts_ms s) (vt_history v) = (Some i, h)"
        using r o Some by simp
      then show thesis
      proof (cases rule: resurface_cases)
        case (Found j)
        then show thesis using eqn Some o by (intro Resurfaced [of i hash]) auto
      qed simp
    qed
  qed
qed

lemma execute_inv:
  assumes "history_inv (vt_history v)" and "execute_with_origin P e origin preset authoritative mode s v = (res, v')"
  shows "history_inv (vt_history v')"
  using assms(2)
proof (cases rule: execute_cases)
  case (Resurfaced i hash)
  then show ?thesis using update_entry_inv [OF assms(1)] by simp
qed (use assms(1) persist_capture_inv in auto)

section \<open>The same content once\<close>

text \<open>Every event belongs to an entry, and no two entries have the same content.\<close>

definition catalog_ok :: "history \<Rightarrow> bool" where
  "catalog_ok h \<longleftrightarrow> history_inv h \<and> events_owned h \<and> inj_on (content_of h) (set (hi_entries h))"

lemma content_of_iff:
  assumes "history_inv h" and "e \<in> set (hi_entries h)"
  shows "\<exists>v \<in> set (hi_events h). ev_id v = ce_event e \<and> content_of h e = Some (ev_hash v)"
proof -
  have "ce_event e \<in> ev_id ` set (hi_events h)" using assms unfolding history_inv_def by blast
  then obtain v where "v \<in> set (hi_events h)" "ev_id v = ce_event e" by (metis imageE)
  then show ?thesis using event_of_Some [OF assms(1)] by (auto simp: content_of_def)
qed

lemma update_entry_content:
  assumes "\<And>e. ce_event (f e) = ce_event e"
  shows "content_of (update_entry i f h) (if ce_id e = i then f e else e) = content_of h e"
  using assms by (simp add: content_of_def update_entry_def event_of_def)

lemma touch_catalog:
  assumes "catalog_ok h"
  shows "catalog_ok (update_entry i (\<lambda>e. e\<lparr>ce_active := t\<rparr>) h)"
proof -
  let ?f = "\<lambda>e. if ce_id e = i then e\<lparr>ce_active := t\<rparr> else e"
  let ?h = "update_entry i (\<lambda>e. e\<lparr>ce_active := t\<rparr>) h"
  have es: "hi_entries ?h = map ?f (hi_entries h)" "hi_events ?h = hi_events h" by (simp_all add: update_entry_def)
  have c: "content_of ?h (?f e) = content_of h e" for e
    by (rule update_entry_content) simp
  have "map ce_event (hi_entries ?h) = map ce_event (hi_entries h)" by (simp add: es)
  then have "ce_event ` set (hi_entries ?h) = ce_event ` set (hi_entries h)" by (metis set_map)
  then have "events_owned ?h" using assms by (simp add: catalog_ok_def events_owned_def es)
  moreover have "content_of ?h \<circ> ?f = content_of h" by (rule ext) (simp only: o_apply c)
  then have "inj_on (content_of ?h) (set (hi_entries ?h))"
    using assms unfolding es set_map catalog_ok_def by (intro inj_on_imageI) simp
  ultimately show ?thesis using assms update_entry_inv [of h "\<lambda>e. e\<lparr>ce_active := t\<rparr>" i] by (simp add: catalog_ok_def)
qed

text \<open>The lookup is exact on such a catalogue.\<close>

lemma catalog_lookup:
  assumes "catalog_ok h"
  shows "find_entry_id_by_snapshot_hash False hash h =
    Inr (map_option ce_id (find (\<lambda>e. content_of h e = Some hash) (hi_entries h)))"
proof (cases "find (\<lambda>e. content_of h e = Some hash) (hi_entries h)")
  case None
  have "find_entry_id_by_snapshot_hash False hash h \<noteq> Inr (Some i)" for i
    using find_entry_sound [of h hash i] assms None by (auto simp: catalog_ok_def find_None_iff)
  moreover have "\<exists>x. find_entry_id_by_snapshot_hash False hash h = Inr x"
    by (simp add: find_entry_id_by_snapshot_hash_def split: option.split)
  ultimately have "find_entry_id_by_snapshot_hash False hash h = Inr None" by (metis not_None_eq)
  then show ?thesis using None by simp
next
  case (Some e)
  then have e: "e \<in> set (hi_entries h)" "content_of h e = Some hash" by (auto simp: find_Some_iff)
  obtain i where i: "find_entry_id_by_snapshot_hash False hash h = Inr (Some i)"
    using find_entry_complete [OF _ _ e] assms by (auto simp: catalog_ok_def)
  obtain x where x: "x \<in> set (hi_entries h)" "ce_id x = i" "content_of h x = Some hash"
    using find_entry_sound [OF _ i] assms by (auto simp: catalog_ok_def)
  have "x = e" using assms e x inj_onD [of "content_of h" "set (hi_entries h)"] by (auto simp: catalog_ok_def)
  then show ?thesis using i x Some by simp
qed

text \<open>What a created entry looks like in the tables.\<close>

lemma created_tables:
  assumes "history_inv (vt_history v)"
    and "persist_capture P e CreateMode i event s m v = (Done (Inr (Some oc)), v')"
  obtains entry reps where "ce_id entry = i" and "ce_event entry = ev_id event" and "oc = \<lparr>oc_entry = i, oc_deduplicated = False, oc_hash = ev_hash event\<rparr>"
    and "hi_events (vt_history v') = hi_events (vt_history v) @ [event]"
    and "hi_entries (vt_history v') = hi_entries (vt_history v) @ [entry]"
    and "i \<notin> ce_id ` set (hi_entries (vt_history v))"
    and "ev_id event \<notin> ev_id ` set (hi_events (vt_history v))"
    and "list_all2 kept_by (representations s) reps"
    and "\<forall>p \<in> set reps. st_reps (hi_store (vt_history v')) (p_id p) = Some (to_row (ev_id event) p)"
    and "distinct (map p_id reps)"
    and "\<exists>ch ch'. spool_blobs (cp_spool e) (staged_payloads s reps) (st_spool (hi_store (vt_history v)), ch) =
      (Inr (), st_spool (hi_store (vt_history v')), ch')"
  using assms(2)
proof (cases rule: persist_capture_cases)
  case Failed
  then show thesis by simp
next
  case (Stored reps sel h1 h2 h4)
  have ins: "insert_event (cp_event_fails e) event reps h1 = (Inr (), h2)" using Stored(6) by simp
  obtain tbl where tbl: "insert_reps (cp_event_fails e) (ev_id event) reps (st_reps (hi_store h1)) = (Inr (), tbl)"
    and new: "ev_id event \<notin> ev_id ` set (hi_events h1)"
    and h2: "h2 = h1\<lparr>hi_events := hi_events h1 @ [event], hi_store := (hi_store h1)\<lparr>st_reps := tbl\<rparr>\<rparr>"
    using ins by (rule insert_event_ok)
  obtain created where "cp_clock e = Some created"
    using Stored(10) by (auto simp: persist_entry_def Let_def split: option.splits)
  define entry where "entry = with_content_category (entry_cat_from_snapshot (pr_scheme P) s) (entry_new i (ev_id event) created (total_size_bytes s))"
  have ids: "ce_id entry = i" "ce_event entry = ev_id event" by (simp_all add: entry_def with_content_category_def entry_new_def)
  have "save_entry_and_selection (cp_save_fails e) entry sel h4 = (Inr (), vt_history v')"
    using Stored(10) \<open>cp_clock e = Some created\<close> by (simp add: persist_entry_def Let_def entry_def)
  from save_ok [OF this] have v': "vt_history v' = h4\<lparr>hi_entries := hi_entries h4 @ [entry], hi_selections := (hi_selections h4)(i \<mapsto> sel)\<rparr>"
    and fresh: "i \<notin> ce_id ` set (hi_entries h4)" by (simp_all add: ids)
  note same = Stored(3) [unfolded same_tables_def] Stored(7) [unfolded same_tables_def]
  note rows = insert_reps_rows [OF tbl]
  show thesis
  proof (rule that [of entry reps])
    show "\<forall>p \<in> set reps. st_reps (hi_store (vt_history v')) (p_id p) = Some (to_row (ev_id event) p)"
      using rows same h2 v' by simp
    show "distinct (map p_id reps)" by (rule insert_reps_cong [OF tbl])
    show "\<exists>ch ch'. spool_blobs (cp_spool e) (staged_payloads s reps) (st_spool (hi_store (vt_history v)), ch) =
      (Inr (), st_spool (hi_store (vt_history v')), ch')"
      using Stored(4,5,9) v' by auto
  qed (use ids Stored same h2 v' new fresh in auto)
qed

lemma created_catalog:
  assumes ok: "catalog_ok (vt_history v)" and absent: "\<forall>x \<in> set (hi_entries (vt_history v)). content_of (vt_history v) x \<noteq> Some (ev_hash event)"
    and run: "persist_capture P e CreateMode i event s m v = (Done (Inr (Some oc)), v')"
  shows "catalog_ok (vt_history v') \<and> (\<exists>x \<in> set (hi_entries (vt_history v')). ce_id x = i \<and> content_of (vt_history v') x = Some (ev_hash event)) \<and>
    ce_id ` set (hi_entries (vt_history v')) = insert i (ce_id ` set (hi_entries (vt_history v))) \<and>
    i \<notin> ce_id ` set (hi_entries (vt_history v))"
proof -
  let ?h = "vt_history v" and ?h' = "vt_history v'"
  have inv: "history_inv ?h" using ok by (simp add: catalog_ok_def)
  obtain entry where ids: "ce_id entry = i" "ce_event entry = ev_id event"
    and evs: "hi_events ?h' = hi_events ?h @ [event]" and es: "hi_entries ?h' = hi_entries ?h @ [entry]"
    and fresh: "i \<notin> ce_id ` set (hi_entries ?h)" and new: "ev_id event \<notin> ev_id ` set (hi_events ?h)"
    using created_tables [OF inv run] by metis
  have inv': "history_inv ?h'" by (rule persist_capture_inv [OF inv run])
  have c: "content_of ?h' entry = Some (ev_hash event)"
    using event_of_Some [OF inv', of "ev_id event" event] by (simp add: content_of_def ids evs)
  have old: "content_of ?h' x = content_of ?h x" if x: "x \<in> set (hi_entries ?h)" for x
  proof -
    obtain w where w: "w \<in> set (hi_events ?h)" "ev_id w = ce_event x" "content_of ?h x = Some (ev_hash w)"
      using content_of_iff [OF inv x] by blast
    then have "event_of (ce_event x) ?h' = Some w" using event_of_Some [OF inv'] evs by simp
    then have "content_of ?h' x = Some (ev_hash w)" by (simp add: content_of_def)
    then show ?thesis using w(3) by simp
  qed
  have "events_owned ?h'" using ok by (auto simp: catalog_ok_def events_owned_def evs es ids)
  moreover have "inj_on (content_of ?h') (set (hi_entries ?h'))"
  proof -
    have "inj_on (content_of ?h') (set (hi_entries ?h))"
      using ok inj_on_cong [of "set (hi_entries ?h)" "content_of ?h'" "content_of ?h"] old by (simp add: catalog_ok_def)
    then show ?thesis using c old absent by (auto simp: es)
  qed
  ultimately show ?thesis using inv' c es ids fresh by (auto simp: catalog_ok_def)
qed

lemma capture_once:
  assumes ok: "catalog_ok (vt_history v)" and "\<not> cp_find_fails e" and "\<not> cp_touch_fails e"
    and run: "execute_with_origin P e OriginCapture preset authoritative CreateMode s v = (Done (Inr (Some oc)), v')"
  shows "catalog_ok (vt_history v') \<and>
    (\<exists>x \<in> set (hi_entries (vt_history v')). ce_id x = oc_entry oc \<and> content_of (vt_history v') x = Some (oc_hash oc)) \<and>
    ce_id ` set (hi_entries (vt_history v')) = insert (oc_entry oc) (ce_id ` set (hi_entries (vt_history v))) \<and>
    (oc_deduplicated oc \<longleftrightarrow> oc_entry oc \<in> ce_id ` set (hi_entries (vt_history v)))"
  using run
proof (cases rule: execute_cases)
  case Skipped
  then show ?thesis by simp
next
  case (Resurfaced i hash)
  let ?h = "vt_history v" and ?f = "\<lambda>x. x\<lparr>ce_active := ts_ms s\<rparr>"
  have inv: "history_inv ?h" using ok by (simp add: catalog_ok_def)
  have v': "vt_history v' = update_entry i ?f ?h" using Resurfaced(5) by simp
  have oc: "oc_entry oc = i" "oc_deduplicated oc" "oc_hash oc = hash" using Resurfaced(4) by simp_all
  obtain x where x: "x \<in> set (hi_entries ?h)" "ce_id x = i" "content_of ?h x = Some hash"
    using find_entry_sound [OF inv] Resurfaced(3) assms(2) by auto
  have es: "hi_entries (vt_history v') = map (\<lambda>e. if ce_id e = i then ?f e else e) (hi_entries ?h)"
    by (simp add: v' update_entry_def)
  have "map ce_id (hi_entries (vt_history v')) = map ce_id (hi_entries ?h)" by (simp add: es)
  then have ids: "ce_id ` set (hi_entries (vt_history v')) = ce_id ` set (hi_entries ?h)" by (metis set_map)
  have "?f x \<in> set (hi_entries (vt_history v'))" using x by (force simp: es)
  moreover have "content_of (vt_history v') (?f x) = Some hash"
    using update_entry_content [of ?f i ?h x] x v' by simp
  ultimately have "\<exists>x \<in> set (hi_entries (vt_history v')). ce_id x = i \<and> content_of (vt_history v') x = Some hash"
    using x(2) by (intro bexI [of _ "?f x"]) simp_all
  moreover have "i \<in> ce_id ` set (hi_entries ?h)" using x by auto
  ultimately show ?thesis
    using touch_catalog [OF ok, of i "ts_ms s"] ids oc by (simp add: v' [symmetric] insert_absorb)
next
  case (Persisted i hash source s1 m)
  let ?h = "vt_history v"
  let ?event = "\<lparr>ev_id = cp_event e, ev_captured = ts_ms s, ev_source = source, ev_hash = hash\<rparr>"
  have none: "find (\<lambda>x. content_of ?h x = Some hash) (hi_entries ?h) = None"
  proof (rule ccontr)
    assume "find (\<lambda>x. content_of ?h x = Some hash) (hi_entries ?h) \<noteq> None"
    then obtain x where x: "find (\<lambda>x. content_of ?h x = Some hash) (hi_entries ?h) = Some x" by blast
    then have "entry_of (ce_id x) ?h \<noteq> None" by (auto simp: entry_of_None find_Some_iff)
    then have "fst (resurface_existing_entry (cp_find_fails e) (cp_touch_fails e) hash (ts_ms s) ?h) = Some (ce_id x)"
      using catalog_lookup [OF ok, of hash] x assms(2,3) by (simp add: resurface_existing_entry_def touch_entry_def)
    then show False using Persisted(2) by simp
  qed
  then have absent: "\<forall>x \<in> set (hi_entries ?h). content_of ?h x \<noteq> Some (ev_hash ?event)" by (simp add: find_None_iff)
  have inv: "history_inv ?h" using ok by (simp add: catalog_ok_def)
  have oc: "oc = \<lparr>oc_entry = i, oc_deduplicated = False, oc_hash = hash\<rparr>"
    using created_tables [OF inv Persisted(3)] by (metis clip_event.select_convs(4))
  show ?thesis using created_catalog [OF ok absent Persisted(3)] oc by auto
qed

section \<open>Failures\<close>

lemma capture_failed:
  assumes "execute_with_origin P e origin preset authoritative mode s v = (res, v')" and "\<forall>oc. res \<noteq> Done (Inr (Some oc))"
  shows "hi_entries (vt_history v') = hi_entries (vt_history v) \<and> hi_selections (vt_history v') = hi_selections (vt_history v) \<and>
    vt_manifests v' = vt_manifests v \<and>
    (\<forall>k row. st_reps (hi_store (vt_history v)) k = Some row \<longrightarrow> st_reps (hi_store (vt_history v')) k = Some row) \<and>
    (hi_events (vt_history v') = hi_events (vt_history v) \<or>
     mode = CreateMode \<and> (\<exists>event. ev_id event = cp_event e \<and> hi_events (vt_history v') = hi_events (vt_history v) @ [event]))"
  using assms(1)
proof (cases rule: execute_cases)
  case (Persisted i hash source s1 m)
  from Persisted(3) show ?thesis
  proof (cases rule: persist_capture_cases)
    case Failed
    let ?event = "\<lparr>ev_id = cp_event e, ev_captured = ts_ms s, ev_source = source, ev_hash = hash\<rparr>"
    show ?thesis
    proof (cases "same_tables (vt_history v) (vt_history v')")
      case True
      then show ?thesis using Failed(3) by (simp add: same_tables_def)
    next
      case False
      then obtain reps h1 h2 where mode: "mode = CreateMode" and h1: "same_tables (vt_history v) h1"
        and ins: "insert_event (cp_event_fails e) ?event reps h1 = (Inr (), h2)" and h2: "same_tables h2 (vt_history v')"
        using Failed(4) by blast
      from ins show ?thesis
      proof (rule insert_event_ok)
        fix tbl
        assume tbl: "insert_reps (cp_event_fails e) (ev_id ?event) reps (st_reps (hi_store h1)) = (Inr (), tbl)"
          and eq: "h2 = h1\<lparr>hi_events := hi_events h1 @ [?event], hi_store := (hi_store h1)\<lparr>st_reps := tbl\<rparr>\<rparr>"
        have "tbl k = Some row" if "st_reps (hi_store h1) k = Some row" for k row
          using insert_reps_rows [OF tbl, of k row] that by simp
        then show ?thesis using mode h1 h2 eq Failed(3) by (auto simp: same_tables_def)
      qed
    qed
  next
    case Stored
    then show ?thesis using assms(2) by blast
  qed
qed (use assms(2) in auto)

section \<open>Where the bytes are\<close>

definition inline_total :: "representation list \<Rightarrow> nat" where
  "inline_total rs = sum_list (map (\<lambda>r. case inline_bytes r of Some b \<Rightarrow> length b | None \<Rightarrow> 0) rs)"

lemma staged_payload_kept:
  assumes "kept_by r p" and "find (\<lambda>x. rep_id x = rep_id r) (representations s) = Some r"
  shows "staged_payload s p = (if p_state p = StagedA then map_option (\<lambda>b. (rep_id r, b)) (inline_bytes r) else None)"
  using assms by (simp add: staged_payload_def kept_by_def)

lemma staged_payloads_Cons:
  "staged_payloads s (p # ps) =
     (case staged_payload s p of None \<Rightarrow> staged_payloads s ps | Some x \<Rightarrow> x # staged_payloads s ps)"
  by (simp add: staged_payloads_def List.map_filter_def split: option.split)

lemma inline_total_Cons:
  "inline_total (r # rs) = (case inline_bytes r of Some b \<Rightarrow> length b | None \<Rightarrow> 0) + inline_total rs"
  by (simp add: inline_total_def)

lemma staged_payloads_kept:
  assumes "list_all2 kept_by rs ps" and "\<forall>r \<in> set rs. find (\<lambda>x. rep_id x = rep_id r) (representations s) = Some r"
  shows "reqs_bytes (staged_payloads s ps) \<le> inline_total rs \<and>
    fst ` set (staged_payloads s ps) \<subseteq> rep_id ` set rs \<and>
    (distinct (map rep_id rs) \<longrightarrow> distinct (map fst (staged_payloads s ps)))"
  using assms
proof (induction rule: list_all2_induct)
  case (Cons r rs p ps)
  have rest: "reqs_bytes (staged_payloads s ps) \<le> inline_total rs \<and> fst ` set (staged_payloads s ps) \<subseteq> rep_id ` set rs \<and>
    (distinct (map rep_id rs) \<longrightarrow> distinct (map fst (staged_payloads s ps)))"
    using Cons by simp
  have p: "staged_payload s p = (if p_state p = StagedA then map_option (\<lambda>b. (rep_id r, b)) (inline_bytes r) else None)"
    using Cons by (intro staged_payload_kept) simp_all
  show ?case
  proof (cases "staged_payload s p")
    case None
    then have "staged_payloads s (p # ps) = staged_payloads s ps" by (simp add: staged_payloads_Cons)
    then show ?thesis using rest by (auto simp: inline_total_Cons)
  next
    case (Some x)
    then obtain b where "x = (rep_id r, b)" "inline_bytes r = Some b" using p by (auto split: if_splits)
    then have "staged_payloads s (p # ps) = (rep_id r, b) # staged_payloads s ps"
      using Some by (simp add: staged_payloads_Cons)
    then show ?thesis using rest \<open>inline_bytes r = Some b\<close> by (auto simp: inline_total_Cons reqs_bytes_def)
  qed
qed (simp add: staged_payloads_def List.map_filter_def reqs_bytes_def inline_total_def)

text \<open>Where a representation's content is to be found.\<close>

definition bytes_kept :: "store \<Rightarrow> string \<Rightarrow> representation \<Rightarrow> bool" where
  "bytes_kept st event r \<longleftrightarrow>
     (\<exists>row. st_reps st (rep_id r) = Some row \<and> rr_event row = event \<and>
       (case rep_source r of
          Inline b \<Rightarrow> rr_state row = ''Inline'' \<and> rr_inline row = Some b \<or>
            rr_state row = ''Staged'' \<and> (\<exists>f. sl_files (st_spool st) (rep_id r) = Some f \<and> f_bytes f = b)
        | LocalFile _ _ \<Rightarrow> rr_state row = ''BlobReady'' \<and> rr_blob row \<noteq> None))"

lemma find_distinct_id: "\<lbrakk>distinct (map rep_id rs); r \<in> set rs\<rbrakk> \<Longrightarrow> find (\<lambda>x. rep_id x = rep_id r) rs = Some r"
  by (simp add: find_distinct)

lemma captured_bytes:
  assumes inv: "history_inv (vt_history v)" and sp: "spool_inv (st_spool (hi_store (vt_history v)))"
    and fits: "ledger_bytes (sl_entries (st_spool (hi_store (vt_history v)))) + inline_total (representations s) \<le> sl_max (st_spool (hi_store (vt_history v)))"
    and cap: "sl_max (st_spool (hi_store (vt_history v))) \<le> usize_max"
    and run: "execute_with_origin P e origin preset authoritative CreateMode s v = (Done (Inr (Some oc)), v')" and new: "\<not> oc_deduplicated oc"
  shows "\<exists>entry \<in> set (hi_entries (vt_history v')). ce_id entry = oc_entry oc \<and>
    (\<forall>r \<in> set (representations s). bytes_kept (hi_store (vt_history v')) (ce_event entry) r)"
  using run
proof (cases rule: execute_cases)
  case (Persisted i hash source s1 m)
  let ?event = "\<lparr>ev_id = cp_event e, ev_captured = ts_ms s, ev_source = source, ev_hash = hash\<rparr>"
  obtain entry reps ch ch' where ids: "ce_id entry = i" "ce_event entry = ev_id ?event"
    and oc: "oc = \<lparr>oc_entry = i, oc_deduplicated = False, oc_hash = ev_hash ?event\<rparr>"
    and es: "hi_entries (vt_history v') = hi_entries (vt_history v) @ [entry]"
    and kept: "list_all2 kept_by (representations s1) reps"
    and rows: "\<forall>p \<in> set reps. st_reps (hi_store (vt_history v')) (p_id p) = Some (to_row (ev_id ?event) p)"
    and d: "distinct (map p_id reps)"
    and spooled: "spool_blobs (cp_spool e) (staged_payloads s1 reps) (st_spool (hi_store (vt_history v)), ch) =
      (Inr (), st_spool (hi_store (vt_history v')), ch')"
    using created_tables [OF inv Persisted(3)] by metis
  have "map p_id reps = map rep_id (representations s1)"
    using kept by (induction rule: list_all2_induct) (auto simp: kept_by_def)
  then have dr: "distinct (map rep_id (representations s1))" using d by simp
  have found: "\<forall>r \<in> set (representations s1). find (\<lambda>x. rep_id x = rep_id r) (representations s1) = Some r"
    using find_distinct_id [OF dr] by blast
  note sk = staged_payloads_kept [OF kept found]
  have files: "\<forall>(k, b) \<in> set (staged_payloads s1 reps). \<exists>f. sl_files (st_spool (hi_store (vt_history v'))) k = Some f \<and> f_bytes f = b"
    using spool_blobs_ok [OF spooled sp _ cap] sk dr fits Persisted(1) by simp
  have "bytes_kept (hi_store (vt_history v')) (ce_event entry) r" if r: "r \<in> set (representations s)" for r
  proof -
    obtain p where p: "p \<in> set reps" "kept_by r p"
      using kept r Persisted(1) by (metis list_all2_conv_all_nth in_set_conv_nth)
    have pid: "p_id p = rep_id r" using p(2) by (simp add: kept_by_def)
    have row: "st_reps (hi_store (vt_history v')) (rep_id r) = Some (to_row (ce_event entry) p)"
      using rows p(1) pid ids by metis
    have sf: "\<exists>f. sl_files (st_spool (hi_store (vt_history v'))) (rep_id r) = Some f \<and> f_bytes f = b"
      if "p_state p = StagedA" "rep_source r = Inline b" for b
    proof -
      have "staged_payload s1 p = Some (rep_id r, b)"
        using staged_payload_kept [OF p(2)] found r Persisted(1) that by (simp add: inline_bytes_def)
      then have "(rep_id r, b) \<in> set (staged_payloads s1 reps)"
        using p(1) by (force simp: staged_payloads_def List.map_filter_def)
      from bspec [OF files this] show ?thesis by simp
    qed
    show ?thesis
      unfolding bytes_kept_def row using p(2) sf
      by (cases "rep_source r") (auto simp: kept_by_def to_row_def)
  qed
  then show ?thesis using es ids oc by auto
qed (use new in auto)

end
