(* ===== verification/Capture_Demo.thy ===== *)
theory Capture_Demo
  imports Capture_Safety Payload_Demo "HOL-Library.Code_Target_Nat"
begin

text \<open>
  A capture of an image that is too large to be stored inline, into empty tables, and what a failed
  capture does to the later ones.
\<close>

definition cap_prims :: capture_prims where
  "cap_prims =
     \<lparr>pr_hash = \<lparr>blake3 = (\<lambda>b. b), hexenc = bytes_str\<rparr>, pr_files = (\<lambda>_. None), pr_nfc = (\<lambda>s. s),
      pr_url = (\<lambda>_. None), pr_tree = (\<lambda>_. FAbsent), pr_hash_path = (\<lambda>_. Inl ''no''),
      pr_file_path = (\<lambda>_. None), pr_scheme = (\<lambda>_. None), pr_blob = demo_blob_prims, pr_digest = (\<lambda>b. b),
      pr_threshold = 2\<rparr>"

definition cap_env :: "string \<Rightarrow> fs_write \<Rightarrow> capture_env" where
  "cap_env n w =
     \<lparr>cp_event = CHR ''v'' # n, cp_entry = CHR ''e'' # n, cp_device = ''d'', cp_clock = Some 7,
      cp_caps = Inl ''unread'', cp_find_fails = False, cp_touch_fails = False, cp_ingest = demo_blob_env,
      cp_event_fails = False, cp_spool = (\<lambda>_. \<lparr>se_keeps = (\<lambda>_. False), se_write = w, se_now = 0\<rparr>),
      cp_save_fails = False, cp_replace_fails = False, cp_manifest_fails = False\<rparr>"

definition cap_snapshot :: "string \<Rightarrow> snapshot" where
  "cap_snapshot i =
     \<lparr>ts_ms = 5, representations = [new_rep i ''image'' (Some ''image/png'') [1, 2, 3]],
      file_content_digests = [], file_set_v1_digest = None\<rparr>"

definition cap_store :: store where
  "cap_store =
     \<lparr>st_reps = Map.empty, st_spool = \<lparr>sl_files = Map.empty, sl_entries = [], sl_total = 0, sl_max = 1000\<rparr>,
      st_cache = cache_new 4 100, st_blobs = \<lparr>bd_files = Map.empty, bd_rows = []\<rparr>,
      st_chan = \<lparr>ch_ids = [], ch_cap = 4\<rparr>, st_thumbs = Map.empty\<rparr>"

definition cap_vault :: vault where
  "cap_vault =
     \<lparr>vt_history = \<lparr>hi_events = [], hi_entries = [], hi_selections = Map.empty, hi_store = cap_store\<rparr>,
      vt_manifests = Map.empty\<rparr>"

definition cap_run :: "string \<Rightarrow> fs_write \<Rightarrow> vault \<Rightarrow> (string + capture_outcome option) run \<times> vault" where
  "cap_run n w v = execute_with_origin cap_prims (cap_env n w) OriginCapture None None CreateMode (cap_snapshot (CHR ''r'' # n)) v"

lemma cap_catalog: "catalog_ok (vt_history cap_vault)"
  by (simp add: cap_vault_def cap_store_def catalog_ok_def history_inv_def events_owned_def)

lemma cap_outcome:
  "map_run (map_sum id (map_option (\<lambda>oc. (oc_entry oc, oc_deduplicated oc)))) (fst (cap_run ''1'' WriteOk cap_vault)) =
   Done (Inr (Some (''e1'', False)))"
  by code_simp

lemma cap_first:
  obtains oc v' where "execute_with_origin cap_prims (cap_env ''1'' WriteOk) OriginCapture None None CreateMode (cap_snapshot ''r1'') cap_vault =
      (Done (Inr (Some oc)), v')"
    and "oc_entry oc = ''e1''" and "\<not> oc_deduplicated oc"
proof -
  obtain res v' where r: "cap_run ''1'' WriteOk cap_vault = (res, v')" by (cases "cap_run ''1'' WriteOk cap_vault")
  have "map_run (map_sum id (map_option (\<lambda>oc. (oc_entry oc, oc_deduplicated oc)))) res = Done (Inr (Some (''e1'', False)))"
    using cap_outcome by (simp add: r)
  then obtain x where "res = Done x" and x: "map_sum id (map_option (\<lambda>oc. (oc_entry oc, oc_deduplicated oc))) x = Inr (Some (''e1'', False))"
    by (cases res) auto
  moreover from x obtain oc where "x = Inr (Some oc)" "oc_entry oc = ''e1''" "\<not> oc_deduplicated oc"
    by (cases x) auto
  ultimately have "res = Done (Inr (Some oc))" by simp
  note oc = this \<open>oc_entry oc = ''e1''\<close> \<open>\<not> oc_deduplicated oc\<close>
  show thesis using that [OF _ oc(2,3)] r oc(1) by (simp add: cap_run_def)
qed

lemma cap_spool_fails:
  "fst (cap_run ''1'' (WriteFails None) cap_vault) = Done (Inl ''Failed to durably spool representation'')"
  by code_simp

text \<open>
  After a capture that failed at the spool, the same content is stored twice: the event that is left
  behind hides the entry of the second capture from the third.
\<close>

lemma orphan_defeats_dedup:
  "(let v1 = snd (cap_run ''1'' (WriteFails None) cap_vault); v2 = snd (cap_run ''2'' WriteOk v1);
        v3 = snd (cap_run ''3'' WriteOk v2) in
    map ce_id (hi_entries (vt_history v1)) = [] \<and> map ce_id (hi_entries (vt_history v3)) = [''e2'', ''e3''] \<and>
    content_of (vt_history v3) (hi_entries (vt_history v3) ! 0) = content_of (vt_history v3) (hi_entries (vt_history v3) ! 1))"
  by code_simp

end
