(* ===== verification/Demo_Values.thy ===== *)
theory Demo_Values
  imports Selection_Policy Active_Inbound Write_Guard Payload_Codec Stream_Frames Sync_Engine
    Net_Class Transfer_Cipher Rep_Cache Rate_Limiter Pairing_Handshake File_Capture
begin

text \<open>
  Concrete values the witnesses of the root theory evaluate at: third-party functions
  instantiated by simple ones that satisfy their documented laws, and small inputs.
\<close>

section \<open>Cipher and hash functions\<close>

text \<open>A reference is serialised with its hash's length in unary, and not encrypted at all.\<close>

definition demo_ref_enc :: "consumable_ref \<Rightarrow> byte list option" where
  "demo_ref_enc r =
     Some (replicate (length (ref_hash r)) 1 @ [0] @ str_bytes (ref_hash r) @ str_bytes (ref_entry r))"

definition demo_ref_dec :: "byte list \<Rightarrow> consumable_ref option" where
  "demo_ref_dec b =
     (let n = length (takeWhile (\<lambda>x. x = 1) b); rest = drop (Suc n) b in
      Some \<lparr>ref_hash = bytes_str (take n rest), ref_entry = bytes_str (drop n rest)\<rparr>)"

definition demo_cipher :: cipher_prims where
  "demo_cipher =
     \<lparr>aead_seal = (\<lambda>k n p a. Some p), aead_open = (\<lambda>k n c a. Some c),
      ref_enc = demo_ref_enc, ref_dec = demo_ref_dec,
      current_profile = Inr ''default'', derive_subkey = (\<lambda>_ _. Inr (replicate 32 7))\<rparr>"

definition demo_nonce :: "byte list" where "demo_nonce = replicate 24 5"

lemma demo_nonce_len: "length demo_nonce = nonce_len"
  by (simp add: demo_nonce_def nonce_len_def)

lemma takeWhile_replicate_stop: "y \<noteq> x \<Longrightarrow> takeWhile (\<lambda>z. z = x) (replicate n x @ y # s) = replicate n x"
  by (induction n) auto

lemma demo_ref_roundtrip: "demo_ref_enc r = Some b \<Longrightarrow> demo_ref_dec b = Some r"
  by (auto simp: demo_ref_enc_def demo_ref_dec_def takeWhile_replicate_stop Let_def)

lemma demo_cipher_sound: "cipher_sound demo_cipher"
  by (simp add: cipher_sound_def demo_cipher_def demo_ref_roundtrip)

lemma demo_cipher_ready: "seal_ready demo_cipher"
  by (simp add: seal_ready_def demo_cipher_def register_cipher_def demo_ref_enc_def)

definition demo_hash :: hash_prims where
  "demo_hash = \<lparr>blake3 = (\<lambda>b. take 32 (rev b @ replicate 32 0)), hexenc = bytes_str\<rparr>"

section \<open>Activations\<close>

definition demo_state :: "string \<Rightarrow> int \<Rightarrow> string \<Rightarrow> active_state" where
  "demo_state h t d = \<lparr>act_hash = h, act_entry = ''e'', act_at = t, act_by = d\<rparr>"

definition demo_rep :: "string \<Rightarrow> string \<Rightarrow> string option \<Rightarrow> byte list \<Rightarrow> representation" where
  "demo_rep i f m b = new_rep i f m b"

definition demo_snapshot :: snapshot where
  "demo_snapshot =
     \<lparr>ts_ms = 0, representations = [demo_rep ''r1'' ''text'' (Some ''text/plain'') [104, 105]],
      file_content_digests = [], file_set_v1_digest = None\<rparr>"

definition demo_snap :: "representation list \<Rightarrow> snapshot" where
  "demo_snap rs =
     \<lparr>ts_ms = 0, representations = rs, file_content_digests = [], file_set_v1_digest = None\<rparr>"

definition demo_line :: "int \<Rightarrow> string \<Rightarrow> file_set_line" where
  "demo_line i path =
     \<lparr>line_index = i, original_text = path,
      member_location = Some \<lparr>root_index = 0, root_name = ''root'', relative_path = path,
        member_kind = FileM\<rparr>,
      line_kind = FileLine [1, 2] None None\<rparr>"

definition demo_env :: inbound_env where
  "demo_env =
     \<lparr>unlocked = True, now_ms = 1000, load_fail = None, members = (\<lambda>_. Inr None),
      entry_lookup = (\<lambda>_. Inr (Some ''local'')), availability = None, pull_client = None,
      content_store = None, reconstruct = (\<lambda>_. Inr demo_snapshot),
      file_set_of = (\<lambda>_. Inr None), url_parser = (\<lambda>_. None),
      peer_list = Inr [''a'', ''b''], presence_of = (\<lambda>_. Online)\<rparr>"

definition demo_inbound :: inbound_activation where
  "demo_inbound =
     \<lparr>in_peer = ''a'', in_hash = ''h'', in_entry = ''remote'', in_at = 500, in_by = ''a''\<rparr>"

lemma demo_inbound_accepted:
  "\<exists>t. handle_one demo_env demo_inbound None = Done (Inr t) \<and>
       task_state t = \<lparr>act_hash = ''h'', act_entry = ''local'', act_at = 500, act_by = ''a''\<rparr> \<and>
       task_consumable t"
  by (simp add: handle_one_def demo_env_def demo_inbound_def load_register_def Let_def
      i64_wrap_def future_timestamp_tolerance_ms_def is_receive_allowed_def is_entry_available_def
      converge_with_entry_def is_receive_category_allowed_def is_mobile_consumable_def)

section \<open>Frames\<close>

definition demo_header :: clip_header where
  "demo_header =
     \<lparr>h_version = 2, h_snapshot_hash = ''h'', h_captured_at_ms = 5, h_origin_device_id = ''d'',
      h_origin_device_name = ''n'', h_payload_version = 3, h_flow_id = None\<rparr>"

text \<open>A serialiser for one header only; it refuses the others.\<close>

definition demo_postcard :: clip_postcard where
  "demo_postcard =
     \<lparr>to_v2 = (\<lambda>h. if h = demo_header then Some [2] else None),
      of_v1 = (\<lambda>_. None), of_v2 = (\<lambda>b. if b = [2] then Some demo_header else None)\<rparr>"

lemma demo_postcard_ok: "clip_postcard_ok demo_postcard"
  by (simp add: clip_postcard_ok_def demo_postcard_def demo_header_def)

section \<open>Payloads\<close>

definition demo_empty_payload :: bin_payload where
  "demo_empty_payload = \<lparr>bp_ts_ms = 0, bp_reps = []\<rparr>"

lemma demo_empty_payload_wf: "wf_payload demo_empty_payload"
  by (simp add: demo_empty_payload_def wf_payload_def in_i64_def i64_min_def i64_max_def)

lemma demo_empty_payload_bytes: "encode_to_vec demo_empty_payload = Inr (replicate 9 0 @ [0])"
proof -
  have "replicate 8 0 @ replicate 2 0 = replicate 9 0 @ [0 :: byte]"
    using replicate_add [of 8 2 "0 :: byte"] replicate_add [of 9 1 "0 :: byte"] by simp
  then have "payload_bytes demo_empty_payload = replicate 9 0 @ [0]"
    by (simp add: demo_empty_payload_def payload_bytes_def i64_le_bytes_def)
  then show ?thesis by (simp only: encode_to_vec_ok [OF demo_empty_payload_wf])
qed

section \<open>The transfer cipher\<close>

text \<open>A seal that appends a tag of zeros, and a compressor that refuses everything.\<close>

definition demo_transfer :: transfer_prims where
  "demo_transfer =
     \<lparr>t_seal = (\<lambda>k n p a. Some (p @ replicate 16 0)),
      t_open = (\<lambda>k n c a. if 16 \<le> length c \<and> drop (length c - 16) c = replicate 16 0
                          then Some (take (length c - 16) c) else None),
      t_hash = (\<lambda>_. replicate 32 0), t_zstd_bulk = (\<lambda>_. None), t_zstd_stream = (\<lambda>_. None),
      t_unzstd = (\<lambda>_ _. None)\<rparr>"

lemma demo_transfer_sound: "transfer_sound demo_transfer"
  by (simp add: transfer_sound_def demo_transfer_def tag_size_def)

lemma demo_transfer_authentic: "transfer_authentic demo_transfer"
  unfolding transfer_authentic_def demo_transfer_def
  by (auto split: if_splits) (metis append_take_drop_id)

lemma demo_transfer_empty:
  "encrypt_transfer demo_transfer (Some (replicate 32 1)) (Some (replicate 32 1)) (replicate 16 2) [] =
     Inr (header_bytes 0 0 (replicate 16 2) 0 0)"
  by (simp add: encrypt_transfer_def current_master_key_def choose_compression_def encode_transfer_def
      compression_threshold_def)

section \<open>A pairing\<close>

definition demo_offer :: join_offer where
  "demo_offer = \<lparr>jo_space = ''space'', jo_keyslot = [1], jo_nonce = replicate 32 7\<rparr>"

definition demo_sponsor_env :: "unit sponsor_env" where
  "demo_sponsor_env =
     \<lparr>e_now = 100, e_timestamp_ok = (\<lambda>_. True), e_status = Inr (Some ''space''), e_fresh_space = ''x'',
      e_offer = (\<lambda>_. Inr demo_offer), e_send = (\<lambda>_. True), e_hmac = (\<lambda>k p. k @ p),
      e_proof_key = Some (Inr (Some [9])), e_admit_get = None, e_admit_save = None, e_trust_get = None,
      e_trust_save = None, e_addr_ok = True, e_device_name = Inr (Some ''mac''), e_identity = Inr ''fp-s'',
      e_local_addr = None, e_person = None, e_default_preferences = (), e_timeout_between = False\<rparr>"

definition demo_invitation :: invitation where
  "demo_invitation =
     \<lparr>inv_code = ''CODE'', inv_issued_at = 0, inv_issuer = ''S'', inv_state = PendingInv 1000\<rparr>"

definition demo_sponsor :: "unit sponsor" where
  "demo_sponsor =
     \<lparr>sp_device = ''S'', sp_holder = [(''CODE'', demo_invitation)], sp_sessions = Map.empty,
      sp_cache = Map.empty, sp_members = Map.empty, sp_peers = Map.empty, sp_addrs = Map.empty,
      sp_sent = [], sp_closed = [], sp_outcomes = []\<rparr>"

definition demo_joiner :: joiner_env where
  "demo_joiner =
     \<lparr>n_identity = Inr ''fp-j'', n_device = ''J'', n_device_name = Inr (Some ''phone''),
      n_local_addr = None, n_send = (\<lambda>_. None), n_derive = (\<lambda>_ _. Inr [9]), n_hmac = (\<lambda>k p. k @ p)\<rparr>"

definition demo_request :: joiner_request where
  "demo_request =
     \<lparr>rq_code = ''CODE'', rq_device = ''J'', rq_name = ''phone'', rq_fingerprint = ''fp-j'',
      rq_nonce = [], rq_addr = []\<rparr>"

lemma demo_send_request: "send_request demo_joiner ''CODE'' = Inr (''fp-j'', demo_request)"
proof -
  have "trim ''phone'' \<noteq> []" by code_simp
  then show ?thesis by (simp add: send_request_def demo_joiner_def demo_request_def)
qed

lemma demo_sponsor_env_works: "env_works demo_sponsor_env"
proof -
  have "trim ''mac'' \<noteq> []" by code_simp
  then show ?thesis by (simp add: env_works_def demo_sponsor_env_def)
qed

lemma demo_holder_inv: "holder_inv (sp_holder demo_sponsor)"
  by (simp add: holder_inv_def demo_sponsor_def demo_invitation_def is_pending_def)

section \<open>A copied directory\<close>

definition demo_fs :: "string \<Rightarrow> fs_node" where
  "demo_fs p =
     (if p = ''/d'' then FDir (Some [(''b'', FDir (Some [])), (''a'', FFile 2 False)])
      else if p = ''/f'' then FFile 3 True else FAbsent)"

definition demo_copied :: snapshot where
  "demo_copied =
     \<lparr>ts_ms = 0, representations = [new_local_file ''r0'' ''files'' None ''/d'' 0, new_local_file ''r1'' ''files'' None ''/f'' 3],
      file_content_digests = [], file_set_v1_digest = None\<rparr>"

definition demo_roots :: "top_level_member list" where
  "demo_roots =
     [\<lparr>tm_index = 0, tm_root = 0, tm_text = ''/d'', tm_name = ''d'', tm_path = ''/d'', tm_known_size = Some 0\<rparr>,
      \<lparr>tm_index = 1, tm_root = 1, tm_text = ''/f'', tm_name = ''f'', tm_path = ''/f'', tm_known_size = Some 3\<rparr>]"

lemma demo_local_roots: "local_file_roots id demo_copied = demo_roots"
  by (simp add: local_file_roots_def demo_copied_def demo_roots_def new_local_file_def normalized_basename_def
      path_file_name_def List.map_filter_simps)

lemma demo_top_level: "top_level id url demo_copied = (demo_roots, [])"
  by (simp add: top_level_def demo_local_roots) (simp add: demo_roots_def)

lemma demo_captured:
  "build_entry_file_set id url demo_fs hash_path fallback_caps demo_copied =
     Some (build_file_member_lines id demo_fs hash_path fallback_caps demo_roots [] 2)"
  by (simp add: build_entry_file_set_def demo_local_roots) (simp add: demo_roots_def)

lemma demo_set_fits: "set_fits demo_fs fallback_caps demo_roots"
  by (simp add: set_fits_def demo_roots_def demo_fs_def fallback_caps_def root_ok_def roots_count_def
      roots_bytes_def root_count_def root_bytes_def over_caps_def grow_def no_budget_def u64_sat_def
      utf8_valid_def str_bytes_def)

end
