(* ===== verification/Spec2Isabelle.thy ===== *)
theory Spec2Isabelle
  imports Content_Identity Selection_Policy Active_Inbound Write_Guard Payload_Codec Stream_Frames
    Sync_Engine Net_Class Transfer_Cipher Rep_Cache Rate_Limiter
    Pairing_Handshake File_Capture Payload_Demo History_Demo Capture_Demo Demo_Values
begin

text \<open>
  A verification of OpenClipboard, a clipboard that is shared between the devices of its user: the
  daemon of a desktop (the crates \<^verbatim>\<open>uc-core\<close>, \<^verbatim>\<open>uc-application\<close>, \<^verbatim>\<open>uc-infra\<close>,
  \<^verbatim>\<open>uc-webserver\<close> under \<^verbatim>\<open>src/crates\<close>) and the decision core of the mobile engine
  (\<^verbatim>\<open>uc-mobile-proto\<close>). Paths below are relative to \<^verbatim>\<open>src/crates/<crate>/src\<close>.

  \<^bold>\<open>The program.\<close> A copy on one device becomes a snapshot of representations. The snapshot has an
  identity, a hash that does not depend on the order or the place of its parts. The device that
  holds the newest content is recorded in a register, last writer wins; the register is announced
  to the paired devices, which pull the content they lack, choose the representations to show and
  to paste, and write it to their own clipboard under a guard that recognises the echo of that
  write. Content travels sealed and framed. Devices join through a pairing handshake that an
  invitation opens. A phone takes part over HTTP, driven by an engine of its own.

  \<^bold>\<open>Theories and code.\<close>
  \<^item> \<open>Prelude\<close>: bytes and byte order, strings, readers with errors, the index functions of
    slices, the collections of simplification rules the other theories share.
  \<^item> \<open>Clip_Model\<close> (\<^verbatim>\<open>uc-core: clipboard/system.rs, clipboard/mime.rs\<close>): representations,
    snapshots, MIME classes, content categories.
  \<^item> \<open>Content_Identity\<close> (\<^verbatim>\<open>uc-core: clipboard/file_set.rs, snapshot hashing\<close>): digests of
    files and of file sets, the hash of a snapshot and the key of the write guard.
  \<^item> \<open>Selection_Policy\<close> (\<^verbatim>\<open>uc-core: clipboard/policy/v1.rs\<close>): scores and the choice of the
    preview and the paste representation.
  \<^item> \<open>Active_Register\<close> (\<^verbatim>\<open>uc-core\<close> active state, \<^verbatim>\<open>uc-infra\<close> register repository,
    \<^verbatim>\<open>uc-application: clipboard_write/active_register.rs\<close>): the register row and its
    compare-and-set, the sealed reference for phones, backfill and clearing. Its locale
    \<open>lww_register\<close> states the contract that convergence needs and is interpreted on the row.
  \<^item> \<open>Active_Inbound\<close> (\<^verbatim>\<open>uc-application: active clipboard inbound and fan-out\<close>): the gates of
    an announcement, the pull, the write-then-advance task, the fan-out to peers.
  \<^item> \<open>Write_Guard\<close> (\<^verbatim>\<open>uc-application: clipboard_write/coordinator.rs\<close> and the self-write
    ledger): arming, attribution, expiry, the circuit breaker.
  \<^item> \<open>Wire_Codec\<close>, \<open>Payload_Codec\<close>, \<open>Stream_Frames\<close> (\<^verbatim>\<open>uc-core\<close> payload V3, \<^verbatim>\<open>uc-infra\<close>
    frames): the binary payload and the frames of content, announcements and pulls. The locale
    \<open>prefix_codec\<close> is what a frame needs of the codec of its parts.
  \<^item> \<open>Transfer_Cipher\<close> (\<^verbatim>\<open>uc-infra: clipboard/chunked_transfer.rs\<close>): the compressed, chunked
    and sealed envelope of content.
  \<^item> \<open>Rep_Cache\<close> (\<^verbatim>\<open>uc-infra: clipboard/representation_cache.rs\<close>): the bounded cache in front
    of the blob store, with its eviction loop.
  \<^item> \<open>Rate_Limiter\<close> (\<^verbatim>\<open>uc-webserver: security/rate_limiter.rs\<close>): the sliding window.
  \<^item> \<open>Pairing_Trust\<close> (\<^verbatim>\<open>uc-core: pairing/invitation, trusted_peer, membership; uc-application:
    pairing_invitation, trusted_peer, membership\<close>): invitations and their holder, trusting,
    distrusting, admitting, the trust flow.
  \<^item> \<open>Pairing_Handshake\<close> (\<^verbatim>\<open>uc-application: pairing_inbound, pairing_outbound, proof.rs,
    usecases/pairing\<close>): the sponsor and the joiner of a pairing and the proof between them.
  \<^item> \<open>Loop_Guard\<close>, \<open>Sync_Engine\<close> (\<^verbatim>\<open>uc-mobile-proto: sync_engine.rs\<close> and its loop guard): the
    decisions of the mobile engine and the detection of ping-pong.
  \<^item> \<open>Net_Class\<close> (\<^verbatim>\<open>uc-mobile-proto: net_class.rs\<close>): the class of a server URL and the order
    in which URLs are tried.
  \<^item> \<open>File_Capture\<close> (\<^verbatim>\<open>uc-application: clipboard_capture/usecase.rs\<close>): the manifest of copied
    files and directories, the walk of a tree under the caps of members and bytes.
  \<^item> \<open>Spool\<close>, \<open>Blob_Store\<close>, \<open>Payload_Store\<close> (\<^verbatim>\<open>uc-infra: clipboard/spool_manager.rs,
    durable_spool_queue.rs, security/encrypted_blob_store.rs, blob/, db/repositories/blob_repo.rs,
    representation_repo.rs, clipboard/normalizer.rs, background_blob_worker.rs, payload_resolver.rs,
    spool_scanner.rs, spool_janitor.rs, staged_reconciler.rs\<close>): where the bytes of a captured
    representation lie, and the tasks that move them from the cache and the spool to encrypted blobs.
    \<open>Payload_Safety\<close> interleaves these tasks as a step relation and interprets the locale
    \<open>step_invariant\<close> of the prelude on it. The relation has the captures that create an entry; it
    has no eviction from the spool, and a replacement of content, which caches and spools before its
    rows exist, is not one of its steps.
  \<^item> \<open>History\<close>, \<open>History_Cleanup\<close>, \<open>History_Removal\<close> (\<^verbatim>\<open>uc-infra: db/repositories and
    db/mappers; uc-application: usecases/clipboard_history\<close>): the tables of events, entries and
    selections with their statements; deletion, retention, clearing, the sweep of the file cache and
    its quota.
  \<^item> \<open>Capture\<close>, \<open>Capture_Safety\<close> (\<^verbatim>\<open>uc-application: clipboard_capture/usecase.rs\<close>): the whole
    of a capture, composed of the identity, the manifest, the normaliser, the blob store, the cache,
    the spool, the selection policy and the tables.
  \<^item> \<open>Demo_Values\<close>, \<open>Payload_Demo\<close>, \<open>History_Demo\<close>, \<open>Capture_Demo\<close>: the concrete values at which the witnesses apply the properties.

  \<^bold>\<open>Conventions.\<close> A Rust struct is a record and an enum a datatype with the same variants; where a
  variant carries only the text of a message, the text is left out. A \<^verbatim>\<open>String\<close> is a list of
  characters, one for each byte of its UTF-8 form. Integers that may wrap are words or are wrapped
  explicitly (\<open>i64_wrap\<close>, \<open>mod 2 ^ 32\<close>); \<^verbatim>\<open>usize\<close> has 64 bits. A \<^verbatim>\<open>Result\<close> is a sum with
  the error on the left, a panic a value of its own. Asynchronous code holds a lock or awaits a
  port; each handler is one step that takes what its ports answer as fields of an environment
  record, and where another task can run in between, the environment says so. Hash functions,
  AEADs, HMAC, compression, postcard and SQL execution are third-party: they are parameters with
  the laws that the code relies on as named hypotheses (\<open>cipher_sound\<close>, \<open>clip_postcard_ok\<close>,
  \<open>transfer_sound\<close>, \<open>transfer_authentic\<close>), each satisfied by a concrete value in
  \<open>Demo_Values\<close>. Floating-point numbers of the engine are exact reals.

  \<^bold>\<open>What the lemmas show.\<close> The register converges to the greatest activation for every order of
  delivery and refines a last-writer-wins register; an inbound announcement is written once,
  passes the gates and never moves the register backwards; the fan-out respects the preferences.
  The identity ignores order and local paths and separates members. The selection is total and
  independent of the order. Every codec decodes what it encodes, accepts nothing else, and stays
  within its bounds; the sealed envelope opens to nothing but what was sealed. The cache stays
  within its limits; the limiter counts exactly. The sponsor trusts only whom an invitation and a
  proof admitted, and a handshake that nothing disturbs completes. Content that the mobile engine
  pulled is not pushed back, and ping-pong parks it. URL classes agree with the address ranges. A
  manifest of copied files is all or nothing. A captured payload stays available through every
  interleaving of the worker, the scanner, the reconciler, the janitor and restarts, its row stays
  readable, and the worker settles it after a bounded number of attempts; the spool stays within its
  bytes and evicts no more than it must; what the blob writer stores is read back. A
  capture that succeeds has every byte in a row, in the spool or in a blob, one that fails leaves at
  most its event behind, and the same content is stored once as long as none did. Deleting an entry
  spares all others and leaves the tables consistent wherever it fails; the clean-up stays inside the
  cache directory as long as no path has a parent component; quota and retention evict from the old
  end, and spare favourites.

  \<^bold>\<open>Termination, bounds and fuel.\<close> No definition uses fuel: every loop is a recursion over a list
  or a number, or a function with a measure (the chunks of a plaintext by their rest, the eviction
  loops by their queues, the walk of a directory by the weight of the trees in its queue, the retries
  of the worker by the attempts that are left, the batches of entries by the rows not yet read, the
  sweep of a directory by the paths below it). The bounds are the constants of the code.

  \<^bold>\<open>Not modelled.\<close> SQL queries and migrations, the iroh transport and the rendezvous servers,
  the HTTP routes, the clipboards of the operating systems, key storage, telemetry, the command
  line and the user interface: I/O and calls of libraries with no decision of their own. The
  full-text search index, the orchestration of an incoming entry, settings, the
  projections of the history list and the reducer of the mobile shell have decisions of their own and
  are not part of this development yet.
\<close>

section \<open>Payloads\<close>



text \<open>
  C2: The rows of the representation table stay well typed: whatever interleaving of the
  tasks wrote it, every row maps back to a representation whose state has the data it
  requires, and reading it never fails on an inconsistent row; the only error a read can
  give is that of the database.
\<close>

theorem rows_stay_readable:
  assumes "contents_ok W S" and "(payload_step W key S)\<^sup>*\<^sup>* (sys_start ce cb sb cap) s"
  shows "\<exists>found. get_representation_by_id False i (st_reps (sy_store s)) = Inr found \<and>
    (\<forall>p. found = Some p \<longrightarrow> persisted_ok p \<and> p_id p = i)"
proof -
  have "rows_inv W key s"
    using payload.inv_run [OF assms(2) sys_start_inv [OF assms(1)]] by (simp add: sys_inv_def)
  then have read: "readable i row" if "st_reps (sy_store s) i = Some row" for row
    using that unfolding rows_inv_def row_kept_def by blast
  show ?thesis
  proof (cases "st_reps (sy_store s) i")
    case (Some row)
    then obtain p where "to_domain i row = Inr p" using read unfolding readable_def by blast
    then show ?thesis using Some to_domain_row by (fastforce simp: get_representation_by_id_def)
  qed (simp add: get_representation_by_id_def)
qed

theorem rows_stay_readable_witness:
  "\<exists>p. get_representation_by_id False ''r'' (st_reps (sy_store demo_s6)) = Inr (Some p) \<and> persisted_ok p"
  using rows_stay_readable [OF demo_contents demo_run, of "''r''"] demo_found by auto

text \<open>
  C3: The worker comes to an end with every representation it takes: it makes at most the
  configured number of attempts (and one at least), so that nothing that would happen at a
  later attempt matters; and when it ends with an error and the table accepts the final
  write, the row is no longer staged or in process.
\<close>

theorem worker_settles:
  assumes "\<And>m. \<lbrakk>1 \<le> m; m \<le> max n 1\<rbrakk> \<Longrightarrow> envs m = envs' m"
  shows "process_with_retry W envs n 1 i st = process_with_retry W envs' n 1 i st \<and>
    (\<forall>err st' row. process_with_retry W envs n 1 i st = (Inl err, st') \<and> wk_failed (envs (max n 1)) = DbOk \<and>
       st_reps st' i = Some row \<longrightarrow> rr_state row \<notin> {''Staged'', ''Processing''})"
proof -
  have "rr_state row \<notin> {''Staged'', ''Processing''}"
    if r: "process_with_retry W envs n 1 i st = (Inl err, st')" and ok: "wk_failed (envs (max n 1)) = DbOk"
      and row: "st_reps st' i = Some row" for err st' row
    using process_with_retry_error [OF r] mark_failed_row [OF ok] row by fastforce
  moreover have "process_with_retry W envs n 1 i st = process_with_retry W envs' n 1 i st"
    using assms by (intro process_with_retry_cong) auto
  ultimately show ?thesis by blast
qed

theorem worker_settles_witness:
  "\<exists>err st'. process_with_retry demo_worker (\<lambda>_. demo_failing_env) 2 1 ''r'' (sy_store demo_s3) = (Inl err, st') \<and>
     process_with_retry demo_worker (\<lambda>m. if m \<le> 2 then demo_failing_env else demo_worker_env) 2 1 ''r'' (sy_store demo_s3) =
       (Inl err, st') \<and>
     map_option rr_state (st_reps st' ''r'') = Some ''Failed''"
proof -
  obtain st' where r: "process_with_retry demo_worker (\<lambda>_. demo_failing_env) 2 1 ''r'' (sy_store demo_s3) = (Inl ''read'', st')"
    and row: "map_option rr_state (st_reps st' ''r'') = Some ''Failed''"
    using demo_retry by blast
  have "process_with_retry demo_worker (\<lambda>_. demo_failing_env) 2 1 ''r'' (sy_store demo_s3) =
      process_with_retry demo_worker (\<lambda>m. if m \<le> 2 then demo_failing_env else demo_worker_env) 2 1 ''r'' (sy_store demo_s3)"
    by (rule worker_settles [THEN conjunct1]) simp
  with r row show ?thesis by metis
qed

text \<open>
  C4: A write that the spool accepts keeps its ledger exact and within the limit of bytes,
  and evicts as few entries as that needs, oldest first and never the one written: with one
  eviction less the limit would be passed. The entry written is the newest afterwards, its
  file holds its bytes, and no other file is touched than those of the evicted entries.
\<close>

theorem spool_evicts_oldest:
  assumes "spool_inv s" and "ledger_bytes (other_entries k (sl_entries s)) + length bytes \<le> usize_max"
    and "spool_write e k bytes s = (Inr r, s')"
  shows "spool_inv s' \<and> ledger_bytes (sl_entries s') \<le> sl_max s \<and>
    (\<exists>n. sl_entries s' = drop n (other_entries k (sl_entries s)) @ [(k, length bytes)] \<and>
       (\<forall>m < n. sl_max s < ledger_bytes (drop m (other_entries k (sl_entries s))) + length bytes) \<and>
       sl_files s' = (remove_files (se_keeps e) (map fst (take n (other_entries k (sl_entries s)))) (sl_files s))
           (k \<mapsto> \<lparr>f_bytes = bytes, f_mtime = se_now e\<rparr>))"
  by (rule spool_write_ok [OF assms]) auto

theorem spool_evicts_oldest_witness:
  "\<exists>s'. spool_write demo_spool_env ''r'' [1, 2, 3] (demo_spool [(''a'', 400), (''b'', 599)] Map.empty) = (Inr 3, s') \<and>
     map fst (sl_entries s') = [''b'', ''r'']"
proof -
  let ?s = "demo_spool [(''a'', 400), (''b'', 599)] Map.empty"
  have inv: "spool_inv ?s" by (simp add: spool_inv_def demo_spool_def ledger_bytes_def)
  have small: "ledger_bytes (other_entries ''r'' (sl_entries ?s)) + length [1, 2, 3 :: byte] \<le> usize_max"
    by (simp add: demo_spool_def ledger_bytes_def other_entries_def usize_max_def)
  obtain r s' where w: "spool_write demo_spool_env ''r'' [1, 2, 3] ?s = (r, s')"
    by (cases "spool_write demo_spool_env ''r'' [1, 2, 3] ?s")
  have r: "r = Inr 3"
    using w by (auto simp: spool_write_def demo_spool_env_def demo_spool_def Let_def split: prod.splits)
  obtain n where n: "sl_entries s' = drop n [(''a'', 400), (''b'', 599)] @ [(''r'', 3)]"
    "\<forall>m < n. 1000 < ledger_bytes (drop m [(''a'', 400), (''b'', 599)]) + 3"
    "ledger_bytes (sl_entries s') \<le> 1000"
    using spool_evicts_oldest [OF inv small w [unfolded r]]
    by (auto simp: demo_spool_def other_entries_def numeral_3_eq_3)
  have "n \<noteq> 0"
  proof
    assume "n = 0"
    then show False using n(1,3) by (simp add: ledger_bytes_def)
  qed
  moreover have "\<not> 1 < n" using n(2) [rule_format, of 1] by (auto simp: ledger_bytes_def)
  ultimately have "n = 1" by simp
  then show ?thesis using n(1) w r by auto
qed

text \<open>
  C5: When the blob writer returns an id, whether it wrote the blob, found the content
  there, or lost the race against another writer of the same content, reading that id gives
  the content, and the table of blobs stays consistent; content above 500 MiB is accepted
  all the same, and every later read of it fails.
\<close>

theorem blob_write_read:
  assumes "blob_sound P" and "blob_inv P h key S d" and "blob_quiet P h key S e" and "be_id e \<notin> bl_id ` set (bd_rows d)"
    and "be_session e \<in> {None, Some key}" and "inj_on h S" and "bytes \<in> S"
    and "write_if_absent P e (h bytes) bytes d = (Inr i, d')"
  shows "blob_inv P h key S d' \<and> i \<in> bl_id ` set (bd_rows d') \<and>
    encrypted_get P (Some key) i (bd_files d') = (if length bytes \<le> max_blob_size then Inr bytes else Inl DecompressFails)"
proof -
  have "blob_inv P h key S d'" and "\<exists>r \<in> set (bd_rows d'). bl_id r = i \<and> bl_hash r = h bytes"
    using write_if_absent_inv [OF assms(2-5) refl assms(7)] assms(8) by simp_all
  then show ?thesis using write_if_absent_read [OF assms] by blast
qed

theorem blob_write_read_witness:
  "\<exists>d. write_if_absent demo_blob_prims (demo_blob_env ''b1'') [1, 2, 3] [1, 2, 3] demo_no_blobs = (Inr ''b1'', d) \<and>
     encrypted_get demo_blob_prims (Some [7]) ''b1'' (bd_files d) = Inr [1, 2, 3]"
proof -
  have inv: "blob_inv demo_blob_prims (\<lambda>b. b) [7] UNIV demo_no_blobs" by (simp add: blob_inv_def)
  have "write_if_absent demo_blob_prims (demo_blob_env ''b1'') [1, 2, 3] [1, 2, 3] demo_no_blobs = (Inr ''b1'', demo_blobs)"
    using demo_write by (simp add: demo_bytes_def)
  then show ?thesis
    using blob_write_read [OF demo_blob_sound inv demo_blob_quiet, of "''b1''" "[1, 2, 3]" "''b1''" demo_blobs]
    by (simp add: demo_blob_env_def max_blob_size_def)
qed

section \<open>The history\<close>

text \<open>
  C6: Whichever step of deleting an entry fails, the tables stay consistent and every other
  entry keeps its row, its selection, its event and the representations of its event. When
  the deletion succeeds, the entry, its selection, its event and every representation of
  that event are gone.
\<close>

theorem deletion_spares_others:
  assumes "history_inv (ar_history a)" and "delete_entry_uc url_path dir e i a = (r, a')"
  shows "history_inv (ar_history a') \<and> (\<forall>j. j \<noteq> i \<longrightarrow> entry_kept j (ar_history a) (ar_history a')) \<and>
    (r = Inr () \<longrightarrow> (\<exists>entry. entry_of i (ar_history a) = Some entry \<and>
       hi_entries (ar_history a') = filter (\<lambda>x. ce_id x \<noteq> i) (hi_entries (ar_history a)) \<and>
       hi_selections (ar_history a') i = None \<and> event_of (ce_event entry) (ar_history a') = None \<and>
       (\<forall>k row. st_reps (hi_store (ar_history a')) k = Some row \<longrightarrow> rr_event row \<noteq> ce_event entry)))"
proof (intro conjI allI impI)
  show "history_inv (ar_history a')" by (rule delete_uc_inv [OF assms])
  show "entry_kept j (ar_history a) (ar_history a')" if "j \<noteq> i" for j by (rule delete_uc_kept [OF that assms(2)])
  assume "r = Inr ()"
  then show "\<exists>entry. entry_of i (ar_history a) = Some entry \<and>
       hi_entries (ar_history a') = filter (\<lambda>x. ce_id x \<noteq> i) (hi_entries (ar_history a)) \<and>
       hi_selections (ar_history a') i = None \<and> event_of (ce_event entry) (ar_history a') = None \<and>
       (\<forall>k row. st_reps (hi_store (ar_history a')) k = Some row \<longrightarrow> rr_event row \<noteq> ce_event entry)"
    using assms(2) by (auto elim!: delete_uc_gone)
qed

theorem deletion_spares_others_witness:
  "\<exists>a'. delete_entry_uc (\<lambda>_. None) (Some hist_dir) hist_delete ''e2'' hist_archive = (Inr (), a') \<and>
     history_inv (ar_history a') \<and> hi_selections (ar_history a') ''e2'' = None \<and>
     entry_kept ''e1'' (ar_history hist_archive) (ar_history a')"
proof -
  obtain a' where a': "delete_entry_uc (\<lambda>_. None) (Some hist_dir) hist_delete ''e2'' hist_archive = (Inr (), a')"
    using hist_deleted by blast
  from deletion_spares_others [OF hist_inv a'] show ?thesis using a' by auto
qed





text \<open>
  C9: The quota evicts the oldest of the entries it manages, no more of them than needed,
  and never the newest: after the eviction the rest is within the quota or is the newest
  entry alone, and with one victim fewer it would be over the quota.
\<close>

theorem quota_evicts_oldest:
  assumes "0 < quota" and "E = (if skip_pinned then filter (\<lambda>x. \<not> db_favorite x) entries else entries)"
    and "disk_total E < 2 ^ 64"
  shows "\<exists>n. select_entries_to_evict_for_quota entries quota skip_pinned = map db_id (take n (sort_key db_created E)) \<and>
    (E \<noteq> [] \<longrightarrow> n < length E) \<and>
    (disk_total (drop n (sort_key db_created E)) \<le> quota \<or> n = length E - 1) \<and>
    (\<forall>m < n. quota < disk_total (drop m (sort_key db_created E)))"
  by (rule quota_selection [OF assms])

theorem quota_evicts_oldest_witness:
  "\<exists>n. select_entries_to_evict_for_quota
     [\<lparr>db_id = ''b'', db_created = 2, db_bytes = 70, db_favorite = False\<rparr>,
      \<lparr>db_id = ''a'', db_created = 1, db_bytes = 60, db_favorite = False\<rparr>] 100 True
    = map db_id (take n [\<lparr>db_id = ''a'', db_created = 1, db_bytes = 60, db_favorite = False\<rparr>,
        \<lparr>db_id = ''b'', db_created = 2, db_bytes = 70, db_favorite = False\<rparr>]) \<and> n < 2"
  using quota_evicts_oldest [of 100 "[\<lparr>db_id = ''b'', db_created = 2, db_bytes = 70, db_favorite = False\<rparr>,
      \<lparr>db_id = ''a'', db_created = 1, db_bytes = 60, db_favorite = False\<rparr>]" True
      "[\<lparr>db_id = ''b'', db_created = 2, db_bytes = 70, db_favorite = False\<rparr>,
      \<lparr>db_id = ''a'', db_created = 1, db_bytes = 60, db_favorite = False\<rparr>]"] by auto

text \<open>
  C10: The retention policy evicts from the old end: with an entry it evicts every older one
  that is not exempt, and it evicts nothing exempt. With a limit on the number of entries
  and rules that are joined by "any", no more than that number are left; joined by "all",
  the newest ones up to that number stay.
\<close>

theorem retention_evicts_oldest:
  assumes "distinct (map rc_id cs)"
  shows "old_closed (eligible skip cs) (select_entries_to_evict_for_retention cs rules ev skip now) \<and>
    (ByCount n \<in> set rules \<and> ev = AnyMatch \<longrightarrow>
       card (rc_id ` set (eligible skip cs) - select_entries_to_evict_for_retention cs rules ev skip now) \<le> n) \<and>
    (ByCount n \<in> set rules \<and> ev = AllMatch \<longrightarrow>
       select_entries_to_evict_for_retention cs rules ev skip now \<subseteq> rc_id ` set (drop n (newest_first (eligible skip cs))))"
  using retention_old_closed [OF assms] retention_by_count [of n rules] by simp

theorem retention_evicts_oldest_witness:
  "card (rc_id ` set (eligible True [\<lparr>rc_id = ''a'', rc_created = 1, rc_favorite = False\<rparr>, \<lparr>rc_id = ''b'', rc_created = 2, rc_favorite = False\<rparr>]) -
     select_entries_to_evict_for_retention
       [\<lparr>rc_id = ''a'', rc_created = 1, rc_favorite = False\<rparr>, \<lparr>rc_id = ''b'', rc_created = 2, rc_favorite = False\<rparr>]
       [ByCount 1] AnyMatch True 5) \<le> 1"
  using retention_evicts_oldest [of "[\<lparr>rc_id = ''a'', rc_created = 1, rc_favorite = False\<rparr>, \<lparr>rc_id = ''b'', rc_created = 2, rc_favorite = False\<rparr>]"
      True "[ByCount 1]" AnyMatch 5 1] by auto

section \<open>Capturing\<close>

text \<open>
  C11: A capture that succeeds with a new entry has lost no byte: every representation of
  the snapshot has a row of the entry's event that holds its bytes in full, or the spool has
  them on disk, or, for a file, it has a blob. This needs the payloads to fit into the spool
  without an eviction.
\<close>

theorem capture_keeps_bytes:
  assumes "history_inv (vt_history v)" and "spool_inv (st_spool (hi_store (vt_history v)))"
    and "ledger_bytes (sl_entries (st_spool (hi_store (vt_history v)))) + inline_total (representations s) \<le> sl_max (st_spool (hi_store (vt_history v)))"
    and "sl_max (st_spool (hi_store (vt_history v))) \<le> usize_max"
    and "execute_with_origin P e origin preset authoritative CreateMode s v = (Done (Inr (Some oc)), v')" and "\<not> oc_deduplicated oc"
  shows "\<exists>entry \<in> set (hi_entries (vt_history v')). ce_id entry = oc_entry oc \<and>
    (\<forall>r \<in> set (representations s). bytes_kept (hi_store (vt_history v')) (ce_event entry) r)"
  by (rule captured_bytes [OF assms])

theorem capture_keeps_bytes_witness:
  "\<exists>(v' :: vault) entry. entry \<in> set (hi_entries (vt_history v')) \<and> ce_id entry = ''e1'' \<and>
     bytes_kept (hi_store (vt_history v')) (ce_event entry) (new_rep ''r1'' ''image'' (Some ''image/png'') [1, 2, 3])"
proof (rule cap_first)
  fix oc v'
  assume run: "execute_with_origin cap_prims (cap_env ''1'' WriteOk) OriginCapture None None CreateMode (cap_snapshot ''r1'') cap_vault =
      (Done (Inr (Some oc)), v')" and oc: "oc_entry oc = ''e1''" "\<not> oc_deduplicated oc"
  have "\<exists>entry \<in> set (hi_entries (vt_history v')). ce_id entry = oc_entry oc \<and>
      (\<forall>r \<in> set (representations (cap_snapshot ''r1'')). bytes_kept (hi_store (vt_history v')) (ce_event entry) r)"
    by (rule capture_keeps_bytes [OF _ _ _ _ run oc(2)])
      (use cap_catalog in \<open>simp_all add: catalog_ok_def cap_vault_def cap_store_def spool_inv_def ledger_bytes_def
        cap_snapshot_def inline_total_def new_rep_def inline_bytes_def usize_max_def\<close>)
  then show ?thesis unfolding oc(1) cap_snapshot_def by simp blast
qed







text \<open>
  C15: An advance that reaches the database acts on the pair of the active content and the
  reference served to phones exactly as the abstract register does: a superseding activation
  replaces the content and, when it is consumable, the reference; a consumed write never
  clears the reference and any other activation changes nothing.
\<close>

theorem register_refines_lww:
  assumes "cipher_sound C" "length nonce = nonce_len"
    and "advance_register C nonce fail s mc reg = (Inr b, reg')"
  shows "register_abs C reg' = spec_consumable s mc (register_abs C reg)"
  by (rule advance_register_refines [OF assms])

theorem register_refines_lww_witness:
  "\<exists>reg'. register_abs demo_cipher reg' =
     spec_consumable (demo_state ''a'' 5 ''x'') True (register_abs demo_cipher None) \<and>
   snd (register_abs demo_cipher reg') = Some \<lparr>ref_hash = ''a'', ref_entry = ''e''\<rparr>"
proof -
  obtain b reg' where adv:
    "advance_register demo_cipher demo_nonce None (demo_state ''a'' 5 ''x'') True None = (Inr b, reg')"
    using advance_register_ready [OF demo_cipher_ready, of demo_nonce "demo_state ''a'' 5 ''x''" True None]
    by (metis prod.collapse)
  from register_refines_lww [OF demo_cipher_sound demo_nonce_len adv] show ?thesis
    by (intro exI [of _ reg'])
       (simp add: spec_consumable_def spec_advance_def register_abs_def active_of_def state_ref_def
         demo_state_def)
qed

text \<open>
  C16: Reading the phone reference, and discarding an envelope that cannot be opened, leaves
  the reference served and the active content exactly as concurrent writers made them,
  whatever those did between the read and the discard.
\<close>

theorem discard_keeps_concurrent_envelope:
  "served_ref C (snd (load_mobile_consumable C f1 f2 between reg)) =
     served_ref C (between reg) \<and>
   active_of (snd (load_mobile_consumable C f1 f2 between reg)) =
     active_of (between reg)"
  by (simp add: load_mobile_keeps_readable load_mobile_keeps_active)

text \<open>
  C17: However received announcements, detached writes, local writes, resets and register
  maintenance interleave on a device, every activation that converged was first written to
  the OS clipboard, no activation converges twice between resets of the register, the
  register never falls behind one that converged, and nothing is announced back to the
  device that activated it.
\<close>

theorem inbound_converges_once:
  assumes "node_reach C (node_init reg) n" "register_wf reg"
  shows "set (n_converged n) \<subseteq> set (n_written n) \<and>
    distinct (map (\<lambda>s. (act_at s, act_by s)) (n_converged n)) \<and>
    (\<forall>s \<in> set (n_converged n). \<exists>a. active_of (n_reg n) = Some a \<and> (a = s \<or> supersedes a s)) \<and>
    (\<forall>(d, s) \<in> set (n_sent n). d \<noteq> act_by s \<and> s \<in> set (n_written n))"
  using node_reach_inv [OF assms(1) node_inv_init [OF assms(2)]] sorted_supersedes_distinct
  by (auto simp: node_inv_def dominated_def)

theorem inbound_converges_once_witness:
  "\<exists>n :: node. n_converged n = [\<lparr>act_hash = ''h'', act_entry = ''local'', act_at = 500, act_by = ''a''\<rparr>] \<and>
     set (n_converged n) \<subseteq> set (n_written n)"
proof -
  obtain t where t: "handle_one demo_env demo_inbound None = Done (Inr t)"
    and ts: "task_state t = \<lparr>act_hash = ''h'', act_entry = ''local'', act_at = 500, act_by = ''a''\<rparr>"
    using demo_inbound_accepted by blast
  let ?n1 = "recv_step demo_env demo_inbound (node_init None)"
  let ?n2 = "write_step True 0 ?n1"
  let ?n3 = "advance_step demo_env demo_cipher demo_nonce None 0 ?n2"
  have "node_step demo_cipher (node_init None) ?n1"
    by (rule node_step.recv [of "''a''"]) (simp add: demo_inbound_def device_id_new_def device_id_max_bytes_def)
  note n1 = node_reach.step [OF node_reach.start this]
  note n2 = node_reach.step [OF n1 node_step.os_write [of demo_cipher _ True 0]]
  note n3 = node_reach.step [OF n2 node_step.advance [of demo_cipher _ demo_env demo_nonce None 0]]
  from inbound_converges_once [OF n3]
  have sub: "set (n_converged ?n3) \<subseteq> set (n_written ?n3)" by (simp add: register_wf_def)
  have "?n2 = \<lparr>n_reg = None, n_tasks = [(Written, t)], n_written = [task_state t], n_converged = [], n_sent = []\<rparr>"
    by (simp add: recv_step_def write_step_def node_init_def t)
  moreover obtain b where "fst (advance_register demo_cipher demo_nonce None (task_state t) (task_consumable t) None) = Inr b"
    using advance_register_ready [OF demo_cipher_ready] by blast
  moreover from this have b
    using advance_register_active [of demo_cipher demo_nonce None "task_state t" "task_consumable t" None]
    by (cases "advance_register demo_cipher demo_nonce None (task_state t) (task_consumable t) None")
       (fastforce simp: spec_advance_def active_of_def)
  ultimately have "n_converged ?n3 = [task_state t]"
    by (cases "advance_register demo_cipher demo_nonce None (task_state t) (task_consumable t) None")
       (simp add: advance_step_def Let_def)
  with sub ts show ?thesis by (intro exI [of _ ?n3]) simp
qed

text \<open>
  C18: An announcement leads to a write only while the space is unlocked, if it supersedes
  the register, is at most five minutes ahead of the local clock, and its peer may deliver
  to this device at all and in every category of the content; what is written is the content
  of an entry held here or pulled and stored from that peer, under the local entry id.
\<close>

theorem accepted_announcement_gated:
  assumes "handle_one env inb reg = Done (Inr t)"
  shows "unlocked env \<and> (\<forall>a. active_of reg = Some a \<longrightarrow> supersedes (task_state t) a) \<and>
    in_at inb \<le> i64_wrap (now_ms env + 300000) \<and>
    is_receive_allowed (members env) (in_peer inb) \<and>
    is_receive_category_allowed (members env) (in_peer inb)
      (categories_from_snapshot (url_parser env) (task_snapshot t)) \<and>
    (\<exists>e. entry_obtained env inb e \<and> reconstruct env e = Inr (task_snapshot t) \<and>
      task_state t = \<lparr>act_hash = in_hash inb, act_entry = e, act_at = in_at inb, act_by = in_by inb\<rparr>)"
proof (rule handle_one_accepted [OF assms])
  fix e
  let ?in = "\<lparr>act_hash = in_hash inb, act_entry = in_entry inb, act_at = in_at inb, act_by = in_by inb\<rparr>"
  assume *: "unlocked env" "entry_obtained env inb e" "is_receive_allowed (members env) (in_peer inb)"
    "in_at inb \<le> i64_wrap (now_ms env + future_timestamp_tolerance_ms)"
    "\<And>a. active_of reg = Some a \<Longrightarrow> supersedes (task_state t) a"
    and converge: "converge_with_entry env (in_peer inb) ?in e = Inr t"
  from * converge_with_entry_InrD [OF converge] show ?thesis
    by (auto simp: future_timestamp_tolerance_ms_def)
qed

theorem accepted_announcement_gated_witness:
  "\<exists>t. handle_one demo_env demo_inbound None = Done (Inr t) \<and>
     is_receive_allowed (members demo_env) (in_peer demo_inbound)"
proof -
  obtain t where t: "handle_one demo_env demo_inbound None = Done (Inr t)"
    using demo_inbound_accepted by blast
  from accepted_announcement_gated [OF t] t show ?thesis by auto
qed

text \<open>
  C19: Content is never announced to a member that turned sending off, or whose content
  filter excludes a category that some non-empty representation of the content has; nor to
  the device that activated it, nor to one known to be offline.
\<close>

theorem fan_out_respects_preferences:
  assumes "d \<in> set (fan_out_active_state repo presence peers s (categories_from_snapshot urlp snap))"
  shows "d \<noteq> act_by s \<and> presence d \<noteq> Offline \<and>
    (\<forall>m. repo d = Inr (Some m) \<longrightarrow> send_enabled m \<and>
       (\<forall>r \<in> set (representations snap). \<forall>c \<in> rep_categories urlp r.
          cat_allowed_by c (send_content_types m)))"
  using assms
  by (auto simp: fan_out_active_state_def fan_out_loop_set is_send_allowed_member
      cats_allowed_by_abs cats_abs_snapshot split: sum.splits)

theorem fan_out_respects_preferences_witness:
  "''b'' \<in> set (fan_out_active_state (\<lambda>_. Inr None) (\<lambda>_. Online) (Inr [''a'', ''b''])
     (demo_state ''h'' 1 ''a'') (categories_from_snapshot (\<lambda>_. None) demo_snapshot)) \<and>
   ''b'' \<noteq> act_by (demo_state ''h'' 1 ''a'')"
proof -
  have *: "''b'' \<in> set (fan_out_active_state (\<lambda>_. Inr None) (\<lambda>_. Online) (Inr [''a'', ''b''])
     (demo_state ''h'' 1 ''a'') (categories_from_snapshot (\<lambda>_. None) demo_snapshot))"
    by (simp add: fan_out_active_state_def send_active_state_to_def is_send_allowed_def
        demo_state_def)
  from fan_out_respects_preferences [OF *] * show ?thesis by blast
qed

text \<open>
  C20: The cross-device identity of a snapshot does not depend on the order in which its
  representations, or the digests of its files, are listed.
\<close>

theorem identity_ignores_order:
  assumes "mset (representations s) = mset (representations t)"
    and "mset (file_content_digests s) = mset (file_content_digests t)"
    and "file_set_v1_digest s = file_set_v1_digest t"
  shows "snapshot_identity H files s = snapshot_identity H files t"
  by (rule snapshot_identity_mset [OF assms])

theorem identity_ignores_order_witness:
  "snapshot_identity demo_hash (\<lambda>_. None) (demo_snap [demo_rep ''a'' ''text'' None [1], demo_rep ''b'' ''html'' None [2]]) =
   snapshot_identity demo_hash (\<lambda>_. None) (demo_snap [demo_rep ''b'' ''html'' None [2], demo_rep ''a'' ''text'' None [1]])"
  by (rule identity_ignores_order) (simp_all add: demo_snap_def)

text \<open>
  C21: When the content of the files of a snapshot is known, its identity does not depend on
  where the files lie on this device: the file representations may hold any paths or bytes,
  with any cached hash.
\<close>

theorem identity_ignores_local_paths:
  assumes "file_set_v1_digest s \<noteq> None \<or> file_content_digests s \<noteq> []"
  shows "snapshot_identity H files (relocate_file_reps src h s) = snapshot_identity H files s"
  by (simp add: snapshot_identity_def identity_digests_relocate [OF assms])

theorem identity_ignores_local_paths_witness:
  "snapshot_identity demo_hash (\<lambda>_. None)
     (relocate_file_reps (\<lambda>_. Inline [9]) (\<lambda>_. None)
       ((demo_snap [demo_rep ''a'' ''files'' None [1]])\<lparr>file_content_digests := [[7]]\<rparr>)) =
   snapshot_identity demo_hash (\<lambda>_. None)
     ((demo_snap [demo_rep ''a'' ''files'' None [1]])\<lparr>file_content_digests := [[7]]\<rparr>)"
  by (rule identity_ignores_local_paths) simp



text \<open>
  C23: With distinct representation ids, which representation is previewed and which is
  pasted does not depend on the order in which the platform listed the representations.
\<close>

theorem selection_ignores_order:
  assumes "mset (representations s) = mset (representations t)"
    and "distinct (map rep_id (representations s))"
  shows "select_one file_path s target = select_one file_path t target"
  by (rule select_one_mset [OF assms])

theorem selection_ignores_order_witness:
  "select_one (\<lambda>_. None) (demo_snap [demo_rep ''a'' ''text'' (Some ''text/plain'') [1], demo_rep ''b'' ''html'' (Some ''text/html'') [2]]) DefaultPaste =
   select_one (\<lambda>_. None) (demo_snap [demo_rep ''b'' ''html'' (Some ''text/html'') [2], demo_rep ''a'' ''text'' (Some ''text/plain'') [1]]) DefaultPaste"
  by (rule selection_ignores_order) (simp_all add: demo_snap_def demo_rep_def new_rep_def)




text \<open>
  C26: Four failing writes in a row leave the circuit closed; the fifth opens it for the
  cool-down, during which every write is refused without calling the OS or arming a record,
  and after which writes reach the OS again.
\<close>

theorem circuit_breaker_trips:
  assumes "co_open_until c = None" "co_failures c = 0" "length ws = 4"
    and "c5 = fail_all (ws @ [(t1, t2, t3, key, intent)]) c"
  shows "co_open_until (fail_all ws c) = None \<and>
    co_open_until c5 = Some (t3 + co_cooldown c) \<and>
    (u1 < t3 + co_cooldown c \<longrightarrow>
       write_with_key u1 u2 u3 ok key' intent' c5 =
         (Inl (CircuitOpen ((t3 + co_cooldown c - u1) div 1000)), False, c5)) \<and>
    (t3 + co_cooldown c \<le> u1 \<longrightarrow> fst (snd (write_with_key u1 u2 u3 ok key' intent' c5)))"
proof -
  have open5: "co_open_until c5 = Some (t3 + co_cooldown c)"
    unfolding assms(4) by (rule fail_all_trips [OF assms(1-3)])
  moreover have "co_open_until (fail_all ws c) = None"
    using fail_all_below [of c ws] assms(1-3) by (simp add: circuit_failure_threshold_def)
  ultimately show ?thesis
    using open_circuit_rejects [OF open5] closed_circuit_writes [of c5 u1] by auto
qed

theorem circuit_breaker_trips_witness:
  "co_open_until (fail_all (replicate 4 (0, 1, 2, ''k'', PushIntent) @
     [(0, 1, 2, ''k'', PushIntent)]) coordinator_new) = Some 30002"
  using circuit_breaker_trips [of coordinator_new "replicate 4 (0, 1, 2, ''k'', PushIntent)"
      "fail_all (replicate 4 (0, 1, 2, ''k'', PushIntent) @ [(0, 1, 2, ''k'', PushIntent)]) coordinator_new"
      0 1 2 "''k''" PushIntent 5 6 7 True "''k''" PushIntent]
  by (simp add: coordinator_new_def default_circuit_open_duration_def)

text \<open>
  C27: Every write, successful or not, keeps both queues of the ledger within their capacity
  and free of duplicate records, and keeps the failure count below the threshold of the
  circuit breaker.
\<close>

theorem ledger_bounded:
  assumes "coordinator_inv c"
  shows "coordinator_inv (snd (snd (write_with_key t1 t2 t3 os_ok key intent c)))"
  by (rule coordinator_inv_write [OF assms])

theorem ledger_bounded_witness:
  "coordinator_inv (snd (snd (write_with_key 0 1 2 False ''k'' RestoreIntent coordinator_new)))"
  by (rule ledger_bounded [OF coordinator_inv_new])

text \<open>
  C28: A payload within the limits is encoded, and decoding the bytes, whatever follows them
  in the stream, gives it back and leaves what follows.
\<close>

theorem payload_roundtrip:
  assumes "wf_payload p"
  shows "\<exists>b. encode_to_vec p = Inr b \<and> decode_from (b @ rest) = Inr (p, rest)"
  using encode_to_vec_ok [OF assms] payload_codec.dec_enc [OF assms] by blast

theorem payload_roundtrip_witness:
  "\<exists>b. encode_to_vec \<lparr>bp_ts_ms = - 1, bp_reps = [\<lparr>br_format_id = ''t'', br_mime = Some ''m'', br_data = [0]\<rparr>]\<rparr> = Inr b"
  using payload_roundtrip [of "\<lparr>bp_ts_ms = - 1, bp_reps = [\<lparr>br_format_id = ''t'', br_mime = Some ''m'', br_data = [0]\<rparr>]\<rparr>" "[]"]
  by (auto simp: wf_payload_def wf_rep_def in_i64_def i64_min_def i64_max_def payload_limits wf_str_def
      utf8_valid_def str_bytes_def)

text \<open>
  C29: The decoder accepts nothing but what the encoder writes: bytes that decode to a
  payload are the encoding of that payload, followed by what is left.
\<close>

theorem payload_canonical:
  assumes "decode_from s = Inr (p, rest)"
  shows "\<exists>b. encode_to_vec p = Inr b \<and> s = b @ rest"
  using payload_codec.enc_dec [OF assms] encode_to_vec_ok by blast

theorem payload_canonical_witness:
  "\<exists>b. encode_to_vec \<lparr>bp_ts_ms = 0, bp_reps = []\<rparr> = Inr b \<and> replicate 10 0 @ [7] = b @ [7]"
proof -
  have "decode_from (replicate 10 0 @ [7]) = Inr (\<lparr>bp_ts_ms = 0, bp_reps = []\<rparr>, [7])" by code_simp
  from payload_canonical [OF this] show ?thesis .
qed

section \<open>The mobile sync engine\<close>

text \<open>
  C30: After the engine applied a server entry, a later GET of the same content, the same
  entry or one re-encoded under the same content id, is never taken for new content, and the
  applied content found on the device is never pushed back.
\<close>

theorem pulled_content_settles:
  assumes "h \<noteq> []" "commit_apply (Some h) cid t cfg st = (trip, st')" "server_entry snap = Some e"
    and "cd_hash e = Some h \<and> cd_content_id e = cid \<or>
         (\<exists>c. nonempty cid = Some c \<and> nonempty (cd_content_id e) = Some c)"
  shows "plan_after_server_get st' snap \<noteq> ServerNew already will \<and>
    (\<forall>d. ss_device_hash snap = Some d \<and> eq_ignore_ascii_case d h \<longrightarrow>
       plan_after_server_get st' snap \<noteq> Push DoPush)"
proof -
  from assms(2) have st': "st' = snd (commit_apply (Some h) cid t cfg st)" by simp
  have "is_already_synced e (advance_synced (Some h) cid st)"
    using assms(1,4) synced_after_advance synced_by_identity by metis
  then have synced: "is_already_synced e st'"
    using is_already_synced_cong [of st' "advance_synced (Some h) cid st"]
    by (simp add: st' commit_apply_synced)
  have "plan_push st' snap \<noteq> DoPush" if "ss_device_hash snap = Some d" "eq_ignore_ascii_case d h" for d
    using that assms(1) by (intro applied_not_pushed [of h]) (simp_all add: st' commit_apply_synced)
  then show ?thesis
    using already_synced_not_new [OF synced assms(3)] synced assms(3)
    by (auto simp: plan_after_server_get_def split: option.splits)
qed

theorem pulled_content_settles_witness:
  "plan_after_server_get (snd (commit_apply (Some ''AB'') (Some ''c'') 0 default_config default_runtime))
     \<lparr>ss_auto_apply = True, ss_auto_push = True,
      server_entry = Some \<lparr>cd_kind = ImageK, cd_hash = Some ''CD'', cd_content_id = Some ''c'',
        cd_text = [], cd_has_data = True, cd_data_name = None, cd_size = None\<rparr>,
      device_present = True, ss_device_hash = Some ''ab''\<rparr> \<noteq> Push DoPush"
proof -
  note * = pulled_content_settles [of "''AB''" "Some ''c''" 0 default_config default_runtime
      "fst (commit_apply (Some ''AB'') (Some ''c'') 0 default_config default_runtime)"
      "snd (commit_apply (Some ''AB'') (Some ''c'') 0 default_config default_runtime)"
      "\<lparr>ss_auto_apply = True, ss_auto_push = True,
        server_entry = Some \<lparr>cd_kind = ImageK, cd_hash = Some ''CD'', cd_content_id = Some ''c'',
          cd_text = [], cd_has_data = True, cd_data_name = None, cd_size = None\<rparr>,
        device_present = True, ss_device_hash = Some ''ab''\<rparr>"
      "\<lparr>cd_kind = ImageK, cd_hash = Some ''CD'', cd_content_id = Some ''c'',
        cd_text = [], cd_has_data = True, cd_data_name = None, cd_size = None\<rparr>" True True]
  have "eq_ignore_ascii_case ''ab'' ''AB''" by code_simp
  with * show ?thesis by (simp add: nonempty_def)
qed





section \<open>Network paths\<close>



section \<open>Encrypted transfers\<close>





section \<open>The representation cache\<close>

text \<open>
  C36: After any sequence of operations the representation cache holds at most its number of
  entries and bytes; a put of bytes that fit is read back, every other key reads as before
  or was evicted, and a key that is not completed is evicted only when no completed one is
  left.
\<close>

theorem cache_bounded:
  assumes "\<forall>op \<in> set ops. op_fits op" "b \<le> 2 ^ 63" "c = fold cache_apply ops (cache_new n b)"
    and "length bytes < 2 ^ 63"
  shows "length (c_entries c) \<le> n \<and> entry_bytes (c_entries c) \<le> b \<and>
    (length bytes \<le> b \<and> 0 < n \<longrightarrow> cache_get k (cache_put k bytes c) = Some bytes) \<and>
    (\<forall>j. j \<noteq> k \<longrightarrow> cache_get j (cache_put k bytes c) \<in> {None, cache_get j c} \<and>
       (cache_get j c \<noteq> None \<and> cache_get j (cache_put k bytes c) = None \<and> \<not> has_status c CompletedC j \<longrightarrow>
          (\<forall>i. \<not> has_status (cache_put k bytes c) CompletedC i)))"
proof -
  have ok: "cache_ok n b c" unfolding assms(3) by (rule cache_ok_run [OF assms(1,2)])
  then have inv: "cache_inv c" by (simp add: cache_ok_def)
  note room = put_room [OF ok assms(2,4)]
  show ?thesis
    using ok put_get [OF inv room] put_get_other [OF inv room] put_evicts_completed_first [OF inv room]
    by (auto simp: cache_ok_def over_limit_def cache_inv_def)
qed

theorem cache_bounded_witness:
  "cache_get ''b'' (cache_put ''b'' [3] (fold cache_apply [PutOp ''a'' [1], CompletedOp ''a''] (cache_new 1 10))) = Some [3]"
  using cache_bounded [of "[PutOp ''a'' [1], CompletedOp ''a'']" 10 _ 1 "[3]" "''b''"]
  by (simp add: op_fits_def)

section \<open>The rate limiter\<close>



section \<open>Pairing\<close>

text \<open>
  C38: In every run of the sponsor, whatever messages arrive in whatever order on however
  many sessions, a device that is newly trusted sent a request whose code was accepted, was
  offered a challenge in that session and answered with the HMAC of that session, space and
  challenge under the space's key; and no more devices become trusted than invitations were
  issued.
\<close>

theorem pairing_trusts_invited:
  assumes "sponsor_run hmac key s0 n acc got s" "sp_sessions s0 = Map.empty" "ran (sp_cache s0) \<subseteq> {key}"
  shows "card (dom (sp_peers s) - dom (sp_peers s0)) \<le> length (sp_holder s0) + n \<and>
    (\<forall>d p. sp_peers s d = Some p \<and> sp_peers s0 d \<noteq> Some p \<longrightarrow>
       (\<exists>code session facts space nonce slot.
          (code, session, facts) \<in> set acc \<and> jf_device facts = d \<and> tp_fingerprint p = jf_fingerprint facts \<and>
          (session, KeyslotOffer \<lparr>ko_space = space, ko_keyslot = slot, ko_challenge = nonce, ko_session = session\<rparr>)
             \<in> set (sp_sent s) \<and>
          (session, hmac key (proof_payload session space nonce)) \<in> set got))"
proof -
  note inv = run_inv_reach [OF assms]
  have "\<exists>code session facts space nonce slot.
          (code, session, facts) \<in> set acc \<and> jf_device facts = d \<and> tp_fingerprint p = jf_fingerprint facts \<and>
          (session, KeyslotOffer \<lparr>ko_space = space, ko_keyslot = slot, ko_challenge = nonce, ko_session = session\<rparr>)
             \<in> set (sp_sent s) \<and>
          (session, hmac key (proof_payload session space nonce)) \<in> set got"
    if "sp_peers s d = Some p" "sp_peers s0 d \<noteq> Some p" for d p
  proof -
    from inv that obtain facts where "proved hmac key acc got (sp_sent s) facts"
      "jf_device facts = d" "tp_fingerprint p = jf_fingerprint facts"
      unfolding run_inv_def by blast
    then show ?thesis unfolding proved_def offered_def by blast
  qed
  with new_peers_bounded [OF inv] show ?thesis by blast
qed

theorem pairing_trusts_invited_witness:
  "card (dom (sp_peers (on_incoming demo_sponsor_env ''s1'' (Request demo_request) demo_sponsor)) -
     dom (sp_peers demo_sponsor)) \<le> 1"
proof -
  have "env_ok (\<lambda>k p. k @ p) [9] demo_sponsor_env" by (simp add: env_ok_def demo_sponsor_env_def)
  from sponsor_run.incoming [OF sponsor_run.start this]
  have "sponsor_run (\<lambda>k p. k @ p) [9] demo_sponsor 0
      ([] @ accepted_request demo_sponsor_env ''s1'' (Request demo_request) demo_sponsor) []
      (on_incoming demo_sponsor_env ''s1'' (Request demo_request) demo_sponsor)" .
  from pairing_trusts_invited [OF this] show ?thesis by (simp add: demo_sponsor_def)
qed

text \<open>
  C39: A joiner that knows a pending code and derives the space's key from the offer is
  paired in four messages when nothing fails: the sponsor offers its key slot, the joiner's
  proof is accepted, the confirmation ends the joiner's drive with the sponsor's identity
  and space, the sponsor has the joiner as a member and as a trusted peer with the joiner's
  own fingerprint, and neither the session nor the code is left.
\<close>

theorem handshake_completes:
  assumes "send_request jenv code = Inr (fp, req)"
    and "holder_inv (sp_holder s)" "map_of (sp_holder s) code = Some i" "inv_state i = PendingInv e" "e_now env1 < e"
    and "env_works env1" "env_works env2" "\<not> e_timeout_between env2"
    and "e_offer env1 (probe_space env1) = Inr offer" "length (jo_nonce offer) = 32"
    and "n_derive jenv offer passphrase = Inr key" "e_proof_key env2 = Some (Inr (Some key))" "e_hmac env2 = n_hmac jenv"
    and "sp_cache s (session, jo_space offer, jo_nonce offer) = None" "\<forall>m. n_send jenv m = None"
  shows "\<exists>k r c out.
     sp_sent (on_incoming env1 session (Request req) s) = sp_sent s @ [(session, k)] \<and>
     joiner_response jenv passphrase (Received k) = Inr r \<and>
     sp_sent (on_message_received env2 session (ChallengeResponse r)
        (on_incoming env1 session (Request req) s)) = sp_sent s @ [(session, k), (session, Confirm c)] \<and>
     joiner_drive jenv code passphrase (Received k) (Received (Confirm c)) = Inr out \<and>
     jn_sponsor_device out = sp_device s \<and> jn_space out = jo_space offer \<and>
     e_identity env2 = Inr (jn_sponsor_fingerprint out) \<and>
     (let s' = on_message_received env2 session (ChallengeResponse r) (on_incoming env1 session (Request req) s) in
        (\<exists>m. sp_members s' (n_device jenv) = Some m \<and> sm_fingerprint m = fp) \<and>
        sp_peers s' (n_device jenv) = Some \<lparr>tp_local = sp_device s, tp_peer = n_device jenv,
          tp_fingerprint = fp, tp_trusted_at = e_now env2\<rparr> \<and>
        sp_sessions s' session = None \<and> map_of (sp_holder s') code = None)"
  by (rule handshake_run [OF assms])

theorem handshake_completes_witness:
  "\<exists>k. sp_sent (on_incoming demo_sponsor_env ''s1'' (Request demo_request) demo_sponsor) = [(''s1'', k)] \<and>
     (\<exists>r. joiner_response demo_joiner ''pw'' (Received k) = Inr r)"
proof -
  note h = handshake_completes [OF demo_send_request demo_holder_inv, of demo_invitation 1000 demo_sponsor_env
      demo_sponsor_env demo_offer "''pw''" "[9]" "''s1''"]
  show ?thesis
    using h [OF _ _ _ demo_sponsor_env_works demo_sponsor_env_works]
    by (auto simp: demo_sponsor_def demo_invitation_def demo_sponsor_env_def demo_offer_def demo_joiner_def)
qed

section \<open>Captured files\<close>



end
